(* ===== verification/Nucleos_Prelude.thy ===== *)
theory Nucleos_Prelude
  imports Main "HOL-Library.Word" "HOL-Library.Monad_Syntax"
begin

text \<open>
  Shared vocabulary of the development: C integer arithmetic written out on \<^typ>\<open>int\<close>
  (the values of \<^verbatim>\<open>char\<close>, \<^verbatim>\<open>short\<close> and \<^verbatim>\<open>int\<close> objects, with the two's complement wrap-around
  made explicit), bit-flag arithmetic on words, and the lemma collections used by the
  component theories.

  A kernel or server operation that may not come back (a panic, an endless loop, a wild
  memory access) returns an \<^typ>\<open>'a option\<close>: \<^term>\<open>None\<close> means that control does not
  return to the caller.
\<close>

unbundle bit_operations_syntax

section \<open>Lemma collections\<close>

named_theorems c_arith \<open>C integer arithmetic\<close>
named_theorems flag_simps \<open>setting, clearing and testing bit flags\<close>
named_theorems frame_simps \<open>which fields an operation leaves unchanged\<close>

section \<open>C integers\<close>

definition wrap8 :: "int \<Rightarrow> int" where
  "wrap8 x = (x + 128) mod 256 - 128"

definition wrap16 :: "int \<Rightarrow> int" where
  "wrap16 x = (x + 32768) mod 65536 - 32768"

definition wrap32 :: "int \<Rightarrow> int" where
  "wrap32 x = (x + 2147483648) mod 4294967296 - 2147483648"

definition uwrap16 :: "int \<Rightarrow> int" where
  "uwrap16 x = x mod 65536"

definition uwrap32 :: "int \<Rightarrow> int" where
  "uwrap32 x = x mod 4294967296"

text \<open>Division and remainder of C truncate towards zero.\<close>

definition c_div :: "int \<Rightarrow> int \<Rightarrow> int" where
  "c_div a b = sgn a * sgn b * (\<bar>a\<bar> div \<bar>b\<bar>)"

definition c_rem :: "int \<Rightarrow> int \<Rightarrow> int" where
  "c_rem a b = a - c_div a b * b"

lemma wrap8_id [c_arith]: "-128 \<le> x \<Longrightarrow> x \<le> 127 \<Longrightarrow> wrap8 x = x"
  by (simp add: wrap8_def)

lemma wrap16_id [c_arith]: "-32768 \<le> x \<Longrightarrow> x \<le> 32767 \<Longrightarrow> wrap16 x = x"
  by (simp add: wrap16_def)

lemma wrap32_id [c_arith]: "-2147483648 \<le> x \<Longrightarrow> x \<le> 2147483647 \<Longrightarrow> wrap32 x = x"
  by (simp add: wrap32_def)

lemma uwrap16_id [c_arith]: "0 \<le> x \<Longrightarrow> x \<le> 65535 \<Longrightarrow> uwrap16 x = x"
  by (simp add: uwrap16_def)

lemma uwrap32_id [c_arith]: "0 \<le> x \<Longrightarrow> x \<le> 4294967295 \<Longrightarrow> uwrap32 x = x"
  by (simp add: uwrap32_def)

lemma wrap8_range: "-128 \<le> wrap8 x \<and> wrap8 x \<le> 127"
  using pos_mod_bound [of 256 "x + 128"] by (simp add: wrap8_def)

lemma wrap32_range: "-2147483648 \<le> wrap32 x \<and> wrap32 x \<le> 2147483647"
  using pos_mod_bound [of 4294967296 "x + 2147483648"] by (simp add: wrap32_def)

lemma uwrap32_range: "0 \<le> uwrap32 x \<and> uwrap32 x \<le> 4294967295"
  using pos_mod_bound [of 4294967296 x] by (simp add: uwrap32_def)

lemma c_div_nonneg [c_arith]: "0 \<le> a \<Longrightarrow> 0 < b \<Longrightarrow> c_div a b = a div b"
  by (cases "a = 0") (simp_all add: c_div_def)

lemma c_rem_nonneg [c_arith]: "0 \<le> a \<Longrightarrow> 0 < b \<Longrightarrow> c_rem a b = a mod b"
  by (simp add: c_rem_def c_div_nonneg minus_div_mult_eq_mod)

section \<open>Bit flags\<close>

text \<open>A flag word tested with \<^verbatim>\<open>x & f\<close> as a truth value.\<close>

abbreviation has_any :: "'a::len word \<Rightarrow> 'a word \<Rightarrow> bool" where
  "has_any x f \<equiv> x AND f \<noteq> 0"

lemma or_and_dist [flag_simps]: "(x OR a) AND b = (x AND b) OR (a AND b)" for x a b :: "'a::len word"
  by (simp add: bit.conj_disj_distrib2)

lemma and_not_and [flag_simps]: "(x AND NOT a) AND b = x AND (NOT a AND b)" for x a b :: "'a::len word"
  by (simp add: and.assoc)

lemma or_eq_0_iff_word [simp]: "x OR y = 0 \<longleftrightarrow> x = 0 \<and> y = 0" for x y :: "'a::len word"
proof
  assume "x OR y = 0"
  then have "\<not> bit x n \<and> \<not> bit y n" if "n < LENGTH('a)" for n
    using that by (metis bit_0_eq bit_or_iff bot_apply bot_bool_def)
  then show "x = 0 \<and> y = 0"
    by (auto intro!: bit_word_eqI)
qed simp

text \<open>Testing one bit.\<close>

lemma and_one_bit: "x AND push_bit k 1 = (if bit x k then push_bit k 1 else 0)" for x :: "'a::len word"
  by (rule bit_word_eqI) (auto simp: bit_simps)

lemma and_and_zero: "x AND f = 0 \<Longrightarrow> (x AND y) AND f = 0" for x y f :: "'a::len word"
  by (metis and.assoc and.commute bit.conj_zero_right)

lemma and_not_zero: "x = 0 \<Longrightarrow> x AND NOT a = 0" for x a :: "'a::len word"
  by simp

section \<open>The option monad\<close>

lemmas opt_simps = Option.bind_eq_Some_conv Option.bind_eq_None_conv

lemma bind_SomeI: "m = Some x \<Longrightarrow> f x = r \<Longrightarrow> Option.bind m f = r"
  by simp

end
