(* ===== verification/Ptr_List.thy ===== *)
theory Ptr_List
  imports Nucleos_Prelude
begin

text \<open>
  Singly linked lists threaded through the elements of a table, and the pointer-to-pointer
  idiom the kernel uses on them (\<^verbatim>\<open>for (xpp = &head; *xpp != NULL; xpp = &(*xpp)->next)\<close>).
  A pointer to a pointer is a \<open>cell\<close>: the address of the list head or of the link field of
  an element. The locale \<open>ptr_list\<close> is the interface of a state that stores such a list;
  its lemmas are used for the ready queues, the caller queues and the timer queues.
\<close>

section \<open>Cells and walks\<close>

datatype 'a cell = Head | Next 'a

fun cell_rd :: "('a \<Rightarrow> 'a option) \<Rightarrow> 'a option \<Rightarrow> 'a cell \<Rightarrow> 'a option" where
  "cell_rd nx h Head = h"
| "cell_rd nx h (Next a) = nx a"

text \<open>The element whose link field the cell is; none for the list head.\<close>

fun cell_owner :: "'a cell \<Rightarrow> 'a option" where
  "cell_owner Head = None"
| "cell_owner (Next a) = Some a"

text \<open>
  The loop \<^verbatim>\<open>while (*xpp != NULL && !stop(*xpp)) xpp = &(*xpp)->next;\<close> It returns the cell
  where it stops, and does not return on a cyclic list without a stopping element.
\<close>

partial_function (option) walk ::
    "('a \<Rightarrow> bool) \<Rightarrow> ('a \<Rightarrow> 'a option) \<Rightarrow> 'a option \<Rightarrow> 'a cell \<Rightarrow> 'a cell option" where
  "walk stop nx h c =
     (case cell_rd nx h c of
        None \<Rightarrow> Some c
      | Some a \<Rightarrow> if stop a then Some c else walk stop nx h (Next a))"

lemma walk_None: "cell_rd nx h c = None \<Longrightarrow> walk stop nx h c = Some c"
  by (simp add: walk.simps)

lemma walk_stop: "cell_rd nx h c = Some a \<Longrightarrow> stop a \<Longrightarrow> walk stop nx h c = Some c"
  by (simp add: walk.simps)

lemma walk_go: "cell_rd nx h c = Some a \<Longrightarrow> \<not> stop a \<Longrightarrow> walk stop nx h c = walk stop nx h (Next a)"
  by (subst walk.simps) simp

section \<open>Chains\<close>

text \<open>\<open>chain nx p xs\<close>: following the links from \<open>p\<close> visits exactly \<open>xs\<close> and ends.\<close>

primrec chain :: "('a \<Rightarrow> 'a option) \<Rightarrow> 'a option \<Rightarrow> 'a list \<Rightarrow> bool" where
  "chain nx p [] \<longleftrightarrow> p = None"
| "chain nx p (x # xs) \<longleftrightarrow> p = Some x \<and> chain nx (nx x) xs"

lemma chain_None [simp]: "chain nx None xs \<longleftrightarrow> xs = []"
  by (cases xs) auto

lemma chain_Some: "chain nx (Some a) xs \<longleftrightarrow> (\<exists>ys. xs = a # ys \<and> chain nx (nx a) ys)"
  by (cases xs) auto

lemma chain_unique: "chain nx p xs \<Longrightarrow> chain nx p ys \<Longrightarrow> xs = ys"
  by (induction xs arbitrary: p ys) (auto simp: chain_Some)

lemma chain_suffix: "chain nx p (xs @ x # ys) \<Longrightarrow> chain nx (nx x) ys"
  by (induction xs arbitrary: p) auto

lemma chain_distinct: "chain nx p xs \<Longrightarrow> distinct xs"
proof (induction xs arbitrary: p)
  case (Cons x xs)
  then have c: "chain nx (nx x) xs" and d: "distinct xs" by auto
  have "x \<notin> set xs"
  proof
    assume "x \<in> set xs"
    then obtain us vs where "xs = us @ x # vs" by (auto dest: split_list)
    with c have "chain nx (nx x) vs" by (auto dest: chain_suffix)
    with c have "xs = vs" by (rule chain_unique)
    with \<open>xs = us @ x # vs\<close> show False by simp
  qed
  with d show ?case by simp
qed simp

lemma chain_upd [simp]: "a \<notin> set xs \<Longrightarrow> chain (nx(a := v)) p xs = chain nx p xs"
  by (induction xs arbitrary: p) auto

lemma chain_cong: "(\<And>x. x \<in> set xs \<Longrightarrow> nx x = nx' x) \<Longrightarrow> chain nx p xs = chain nx' p xs"
  by (induction xs arbitrary: p) auto

lemma chain_append: "chain nx p (xs @ ys) \<Longrightarrow> chain nx (if xs = [] then p else nx (last xs)) ys"
  by (induction xs arbitrary: p) auto

text \<open>Cutting a chain after a prefix and continuing with another tail.\<close>

lemma chain_splice:
  assumes "chain nx p (xs @ ys)" and "xs \<noteq> []" and "last xs \<notin> set zs" and "chain nx r zs"
  shows "chain (nx(last xs := r)) p (xs @ zs)"
  using assms
proof (induction xs arbitrary: p)
  case (Cons x xs)
  have d: "distinct (x # xs @ ys)" using chain_distinct Cons.prems(1) by fastforce
  show ?case
  proof (cases "xs = []")
    case True
    with Cons.prems chain_upd [of x zs nx r r] show ?thesis by (simp add: fun_upd_def)
  next
    case False
    with Cons.prems have "chain (nx(last xs := r)) (nx x) (xs @ zs)"
      by (intro Cons.IH) auto
    moreover have "last xs \<noteq> x" using d False by auto
    ultimately show ?thesis using Cons.prems False by (simp add: fun_upd_def)
  qed
qed simp

section \<open>Where a walk stops\<close>

text \<open>The cell reached after passing the elements of a list.\<close>

fun cell_after :: "'a cell \<Rightarrow> 'a list \<Rightarrow> 'a cell" where
  "cell_after c [] = c"
| "cell_after c (x # xs) = cell_after (Next x) xs"

lemma cell_after_last: "cell_after c xs = (if xs = [] then c else Next (last xs))"
  by (induction xs arbitrary: c) auto

lemma walk_chain:
  "chain nx (cell_rd nx h c) xs \<Longrightarrow> walk stop nx h c = Some (cell_after c (takeWhile (\<lambda>x. \<not> stop x) xs))"
proof (induction xs arbitrary: c)
  case Nil
  then show ?case by (simp add: walk_None)
next
  case (Cons x xs)
  then show ?case by (cases "stop x") (simp_all add: walk_stop walk_go)
qed

lemma takeWhile_neq: "x \<in> set xs \<Longrightarrow> xs = takeWhile (\<lambda>y. y \<noteq> x) xs @ x # tl (dropWhile (\<lambda>y. y \<noteq> x) xs)"
  by (induction xs) auto

lemma takeWhile_notin: "x \<notin> set xs \<Longrightarrow> takeWhile (\<lambda>y. y \<noteq> x) xs = xs"
  by (induction xs) auto

lemma remove1_split: "x \<notin> set us \<Longrightarrow> remove1 x (us @ x # vs) = us @ vs"
  by (induction us) auto

section \<open>A state that stores a list\<close>

definition cell_wr ::
    "('a option \<Rightarrow> 's \<Rightarrow> 's) \<Rightarrow> ('a \<Rightarrow> 'a option \<Rightarrow> 's \<Rightarrow> 's) \<Rightarrow> 'a cell \<Rightarrow> 'a option \<Rightarrow> 's \<Rightarrow> 's" where
  "cell_wr set_head set_next c v s =
     (case c of Head \<Rightarrow> set_head v s | Next a \<Rightarrow> set_next a v s)"

locale ptr_list =
  fixes get_head :: "'s \<Rightarrow> 'a option"
    and set_head :: "'a option \<Rightarrow> 's \<Rightarrow> 's"
    and get_next :: "'s \<Rightarrow> 'a \<Rightarrow> 'a option"
    and set_next :: "'a \<Rightarrow> 'a option \<Rightarrow> 's \<Rightarrow> 's"
  assumes head_head: "get_head (set_head v s) = v"
    and head_next: "get_head (set_next a v s) = get_head s"
    and next_head: "get_next (set_head v s) = get_next s"
    and next_next: "get_next (set_next a v s) = (get_next s)(a := v)"
begin

lemmas ptr_laws = head_head head_next next_head next_next

lemma walk_state:
  "chain (get_next s) (get_head s) xs \<Longrightarrow>
   walk stop (get_next s) (get_head s) Head = Some (cell_after Head (takeWhile (\<lambda>x. \<not> stop x) xs))"
  by (rule walk_chain) simp

lemma rd_after:
  "chain (get_next s) (get_head s) (us @ vs) \<Longrightarrow>
   cell_rd (get_next s) (get_head s) (cell_after Head us) = (case vs of [] \<Rightarrow> None | v # _ \<Rightarrow> Some v)"
  by (drule chain_append) (auto simp: cell_after_last chain_Some split: list.splits)

text \<open>Storing a pointer in the cell after \<open>us\<close> replaces the rest of the list.\<close>

lemma wr_after:
  assumes "chain (get_next s) (get_head s) (us @ vs)"
    and "us \<noteq> [] \<Longrightarrow> last us \<notin> set zs"
    and "chain (get_next s) r zs"
  defines "s' \<equiv> cell_wr set_head set_next (cell_after Head us) r s"
  shows "chain (get_next s') (get_head s') (us @ zs)"
proof (cases "us = []")
  case True
  with assms show ?thesis by (simp add: cell_wr_def ptr_laws)
next
  case False
  with assms chain_splice [of "get_next s" "get_head s" us vs zs r] show ?thesis
    by (simp add: cell_wr_def cell_after_last ptr_laws)
qed

text \<open>Unlinking: \<^verbatim>\<open>*xpp = (*xpp)->next\<close>.\<close>

lemma unlink_chain:
  assumes "chain (get_next s) (get_head s) xs" and "x \<in> set xs"
  defines "us \<equiv> takeWhile (\<lambda>y. y \<noteq> x) xs"
  defines "s' \<equiv> cell_wr set_head set_next (cell_after Head us) (get_next s x) s"
  shows "chain (get_next s') (get_head s') (remove1 x xs)"
proof -
  define vs where "vs = tl (dropWhile (\<lambda>y. y \<noteq> x) xs)"
  have xs: "xs = us @ x # vs" using takeWhile_neq [OF assms(2)] by (simp add: us_def vs_def)
  have nin: "x \<notin> set us" using set_takeWhileD by (fastforce simp: us_def)
  have d: "distinct xs" by (rule chain_distinct [OF assms(1)])
  have tail: "chain (get_next s) (get_next s x) vs"
    using assms(1) unfolding xs by (rule chain_suffix)
  have l: "us \<noteq> [] \<Longrightarrow> last us \<notin> set vs"
    using d unfolding xs by (auto simp: disjoint_iff dest: last_in_set)
  have "chain (get_next s') (get_head s') (us @ vs)"
    unfolding s'_def by (rule wr_after [OF assms(1) [unfolded xs] l tail])
  then show ?thesis by (simp add: xs remove1_split nin)
qed

text \<open>Linking in: \<^verbatim>\<open>x->next = *xpp; *xpp = x\<close>.\<close>

lemma link_chain:
  assumes "chain (get_next s) (get_head s) (us @ vs)" and "x \<notin> set (us @ vs)"
  defines "s1 \<equiv> set_next x (cell_rd (get_next s) (get_head s) (cell_after Head us)) s"
  defines "s' \<equiv> cell_wr set_head set_next (cell_after Head us) (Some x) s1"
  shows "chain (get_next s') (get_head s') (us @ x # vs)"
proof -
  have d: "distinct (us @ vs)" by (rule chain_distinct [OF assms(1)])
  have rd: "cell_rd (get_next s) (get_head s) (cell_after Head us) = (if us = [] then get_head s else get_next s (last us))"
    by (simp add: cell_after_last)
  have tl: "chain (get_next s1) (get_next s1 x) vs"
    using chain_append [OF assms(1)] assms(2) by (simp add: s1_def rd ptr_laws)
  have c1: "chain (get_next s1) (get_head s1) (us @ vs)"
    using assms(1,2) by (simp add: s1_def ptr_laws)
  have l: "us \<noteq> [] \<Longrightarrow> last us \<notin> set (x # vs)"
    using d assms(2) by (auto simp: disjoint_iff dest: last_in_set)
  show ?thesis
    unfolding s'_def by (rule wr_after [OF c1 l]) (use tl in auto)
qed

end

end
