(* ===== verification/Timers.thy ===== *)
theory Timers
  imports Ptr_List
begin

text \<open>
  The watchdog timer library, \<^verbatim>\<open>lib/timers/tmrs_clr.c\<close>, \<^verbatim>\<open>tmrs_set.c\<close> and \<^verbatim>\<open>tmrs_exp.c\<close>:
  a queue of timers linked through \<^verbatim>\<open>tmr_next\<close>, the first to expire in front. Timer
  structures are named by identifiers \<open>'i\<close> (their addresses), watchdog functions by names
  \<open>'f\<close>; the kernel instantiates both. An optional out-parameter of the C functions
  (\<^verbatim>\<open>new_head\<close>, \<^verbatim>\<open>next_time\<close>) is a component of the result that the caller may ignore.
\<close>

abbreviation (input) TMR_NEVER :: int where
  "TMR_NEVER \<equiv> 2147483647"

record ('i, 'f) timer =
  tmr_next :: "'i option"
  tmr_exp_time :: int
  tmr_func :: 'f
  tmr_arg :: int

record ('i, 'f) tmrq =
  tmrs :: "'i option"
  tmr :: "'i \<Rightarrow> ('i, 'f) timer"

definition upd_tmr :: "'i \<Rightarrow> (('i, 'f) timer \<Rightarrow> ('i, 'f) timer) \<Rightarrow> ('i, 'f) tmrq \<Rightarrow> ('i, 'f) tmrq" where
  "upd_tmr tp f q = q\<lparr>tmr := (tmr q)(tp := f (tmr q tp))\<rparr>"

abbreviation tmr_nexts :: "('i, 'f) tmrq \<Rightarrow> 'i \<Rightarrow> 'i option" where
  "tmr_nexts q x \<equiv> tmr_next (tmr q x)"

definition set_tmrs :: "'i option \<Rightarrow> ('i, 'f) tmrq \<Rightarrow> ('i, 'f) tmrq" where
  "set_tmrs v q = q\<lparr>tmrs := v\<rparr>"

definition set_tmr_next :: "'i \<Rightarrow> 'i option \<Rightarrow> ('i, 'f) tmrq \<Rightarrow> ('i, 'f) tmrq" where
  "set_tmr_next x v q = upd_tmr x (\<lambda>t. t\<lparr>tmr_next := v\<rparr>) q"

text \<open>\<^verbatim>\<open>tmr_inittimer\<close> of \<^verbatim>\<open>include/nucleos/timer.h\<close>.\<close>

definition tmr_inittimer :: "'i \<Rightarrow> ('i, 'f) tmrq \<Rightarrow> ('i, 'f) tmrq" where
  "tmr_inittimer tp q = upd_tmr tp (\<lambda>t. t\<lparr>tmr_exp_time := TMR_NEVER, tmr_next := None\<rparr>) q"

definition tmrs_head_time :: "('i, 'f) tmrq \<Rightarrow> int" where
  "tmrs_head_time q = (case tmrs q of Some h \<Rightarrow> tmr_exp_time (tmr q h) | None \<Rightarrow> 0)"

section \<open>Operations\<close>

definition tmrs_clrtimer :: "'i \<Rightarrow> ('i, 'f) tmrq \<Rightarrow> (int \<times> int \<times> ('i, 'f) tmrq) option" where
  "tmrs_clrtimer tp q = do {
     let prev_time = tmrs_head_time q;
     let q1 = upd_tmr tp (\<lambda>t. t\<lparr>tmr_exp_time := TMR_NEVER\<rparr>) q;
     atp \<leftarrow> walk (\<lambda>x. x = tp) (tmr_nexts q1) (tmrs q1) Head;
     let q2 = (if cell_rd (tmr_nexts q1) (tmrs q1) atp = None then q1
               else cell_wr set_tmrs set_tmr_next atp (tmr_nexts q1 tp) q1);
     Some (prev_time, tmrs_head_time q2, q2)
   }"

definition tmrs_settimer :: "'i \<Rightarrow> int \<Rightarrow> 'f \<Rightarrow> ('i, 'f) tmrq \<Rightarrow> (int \<times> int \<times> ('i, 'f) tmrq) option" where
  "tmrs_settimer tp exp_time watchdog q = do {
     let old_head = tmrs_head_time q;
     (_, _, q1) \<leftarrow> tmrs_clrtimer tp q;
     let q2 = upd_tmr tp (\<lambda>t. t\<lparr>tmr_exp_time := exp_time, tmr_func := watchdog\<rparr>) q1;
     atp \<leftarrow> walk (\<lambda>x. exp_time < tmr_exp_time (tmr q2 x)) (tmr_nexts q2) (tmrs q2) Head;
     let q3 = set_tmr_next tp (cell_rd (tmr_nexts q2) (tmrs q2) atp) q2;
     let q4 = cell_wr set_tmrs set_tmr_next atp (Some tp) q3;
     Some (old_head, tmrs_head_time q4, q4)
   }"

text \<open>
  The watchdog functions run on the queue and the state \<open>'c\<close> of the program that owns it;
  they may set or clear timers, so the loop need not end.
\<close>

partial_function (option) tmrs_exptimers ::
    "('f \<Rightarrow> 'i \<Rightarrow> ('i, 'f) tmrq \<Rightarrow> 'c \<Rightarrow> (('i, 'f) tmrq \<times> 'c) option) \<Rightarrow> int \<Rightarrow>
     ('i, 'f) tmrq \<Rightarrow> 'c \<Rightarrow> (int \<times> ('i, 'f) tmrq \<times> 'c) option" where
  "tmrs_exptimers run now q c =
     (case tmrs q of
        None \<Rightarrow> Some (tmrs_head_time q, q, c)
      | Some tp \<Rightarrow>
          if tmr_exp_time (tmr q tp) \<le> now then
            Option.bind
              (run (tmr_func (tmr q tp)) tp
                 (upd_tmr tp (\<lambda>t. t\<lparr>tmr_exp_time := TMR_NEVER\<rparr>) (set_tmrs (tmr_nexts q tp) q)) c)
              (\<lambda>(q', c'). tmrs_exptimers run now q' c')
          else Some (tmrs_head_time q, q, c))"

section \<open>The queue invariant\<close>

lemma tmr_upd_tmr [simp]: "tmr (upd_tmr a f q) x = (if x = a then f (tmr q a) else tmr q x)"
  and tmrs_upd_tmr [simp]: "tmrs (upd_tmr a f q) = tmrs q"
  by (simp_all add: upd_tmr_def)

lemma tmr_set_tmrs [simp]: "tmr (set_tmrs v q) = tmr q"
  and tmrs_set_tmrs [simp]: "tmrs (set_tmrs v q) = v"
  by (simp_all add: set_tmrs_def)

interpretation tmr_list: ptr_list tmrs set_tmrs "\<lambda>q x. tmr_nexts q x" set_tmr_next
  by unfold_locales (auto simp: set_tmr_next_def)

text \<open>The timers of the queue in list order, earliest first.\<close>

definition timer_queue :: "('i, 'f) tmrq \<Rightarrow> 'i list \<Rightarrow> bool" where
  "timer_queue q xs \<longleftrightarrow> chain (tmr_nexts q) (tmrs q) xs \<and>
     sorted (map (\<lambda>x. tmr_exp_time (tmr q x)) xs)"

lemma timer_queueD:
  assumes "timer_queue q xs"
  shows timer_queue_chain: "chain (tmr_nexts q) (tmrs q) xs"
    and timer_queue_sorted: "sorted (map (\<lambda>x. tmr_exp_time (tmr q x)) xs)"
    and timer_queue_distinct: "distinct xs"
  using assms by (auto simp: timer_queue_def dest: chain_distinct)

lemma exp_time_cell_wr [simp]:
  "tmr_exp_time (tmr (cell_wr set_tmrs set_tmr_next c v q) x) = tmr_exp_time (tmr q x)"
  "tmr_func (tmr (cell_wr set_tmrs set_tmr_next c v q) x) = tmr_func (tmr q x)"
  "tmr_arg (tmr (cell_wr set_tmrs set_tmr_next c v q) x) = tmr_arg (tmr q x)"
  by (auto simp: cell_wr_def set_tmr_next_def split: cell.splits)

lemma tmrs_head_time_queue:
  "timer_queue q xs \<Longrightarrow> tmrs_head_time q = (case xs of [] \<Rightarrow> 0 | x # _ \<Rightarrow> tmr_exp_time (tmr q x))"
  by (cases xs) (auto simp: tmrs_head_time_def timer_queue_def)

lemma clrtimer_spec:
  assumes q: "timer_queue q xs"
  shows "\<exists>q' nt. tmrs_clrtimer tp q = Some (tmrs_head_time q, nt, q') \<and> nt = tmrs_head_time q' \<and>
    timer_queue q' (remove1 tp xs) \<and> tmr_exp_time (tmr q' tp) = TMR_NEVER \<and>
    tmr_func (tmr q' tp) = tmr_func (tmr q tp) \<and> tmr_arg (tmr q' tp) = tmr_arg (tmr q tp) \<and>
    (\<forall>x. x \<noteq> tp \<longrightarrow> tmr_exp_time (tmr q' x) = tmr_exp_time (tmr q x) \<and>
       tmr_func (tmr q' x) = tmr_func (tmr q x) \<and> tmr_arg (tmr q' x) = tmr_arg (tmr q x))"
proof -
  define q1 where "q1 = upd_tmr tp (\<lambda>t. t\<lparr>tmr_exp_time := TMR_NEVER\<rparr>) q"
  define us where "us = takeWhile (\<lambda>y. y \<noteq> tp) xs"
  define q2 where "q2 = (if tp \<in> set xs
    then cell_wr set_tmrs set_tmr_next (cell_after Head us) (tmr_nexts q1 tp) q1 else q1)"
  have nx: "tmr_nexts q1 = tmr_nexts q" and hd: "tmrs q1 = tmrs q"
    by (auto simp: q1_def)
  have c1: "chain (tmr_nexts q1) (tmrs q1) xs"
    using timer_queue_chain [OF q] by (simp add: nx hd)
  have w: "walk (\<lambda>x. x = tp) (tmr_nexts q1) (tmrs q1) Head = Some (cell_after Head us)"
    using tmr_list.walk_state [OF c1] by (simp add: us_def)
  have rd: "cell_rd (tmr_nexts q1) (tmrs q1) (cell_after Head us) = None \<longleftrightarrow> tp \<notin> set xs"
  proof (cases "tp \<in> set xs")
    case True
    then have "chain (tmr_nexts q1) (tmrs q1) (us @ tp # tl (dropWhile (\<lambda>y. y \<noteq> tp) xs))"
      using c1 takeWhile_neq [of tp xs] by (simp add: us_def)
    from tmr_list.rd_after [OF this] True show ?thesis by simp
  next
    case False
    then have "us = xs" by (simp add: us_def takeWhile_notin)
    with c1 tmr_list.rd_after [of q1 xs "[]"] False show ?thesis by simp
  qed
  have run: "tmrs_clrtimer tp q = Some (tmrs_head_time q, tmrs_head_time q2, q2)"
    by (simp add: tmrs_clrtimer_def Let_def w rd q2_def flip: q1_def)
  have ch: "chain (tmr_nexts q2) (tmrs q2) (remove1 tp xs)"
  proof (cases "tp \<in> set xs")
    case True
    with tmr_list.unlink_chain [OF c1 True] show ?thesis by (simp add: q2_def us_def)
  next
    case False
    with c1 show ?thesis by (simp add: q2_def remove1_idem)
  qed
  have e: "tmr_exp_time (tmr q2 x) = (if x = tp then TMR_NEVER else tmr_exp_time (tmr q x))"
    and f: "tmr_func (tmr q2 x) = tmr_func (tmr q x)" "tmr_arg (tmr q2 x) = tmr_arg (tmr q x)" for x
    by (auto simp: q2_def q1_def)
  have nin: "tp \<notin> set (remove1 tp xs)"
    using timer_queue_distinct [OF q] by (simp add: distinct_remove1_removeAll)
  have "sorted (map (\<lambda>x. tmr_exp_time (tmr q x)) (remove1 tp xs))"
    by (rule sorted_map_remove1 [OF timer_queue_sorted [OF q]])
  then have "sorted (map (\<lambda>x. tmr_exp_time (tmr q2 x)) (remove1 tp xs))"
    by (rule back_subst [where P = sorted]) (use nin in \<open>auto simp: e\<close>)
  with run ch e f show ?thesis by (auto simp: timer_queue_def)
qed

text \<open>Where \<^verbatim>\<open>tmrs_settimer\<close> puts a timer: behind every timer that does not expire later.\<close>

definition timer_insert :: "('i \<Rightarrow> int) \<Rightarrow> 'i \<Rightarrow> int \<Rightarrow> 'i list \<Rightarrow> 'i list" where
  "timer_insert e tp t xs = takeWhile (\<lambda>x. e x \<le> t) xs @ tp # dropWhile (\<lambda>x. e x \<le> t) xs"

lemma set_timer_insert [simp]: "set (timer_insert e tp t xs) = insert tp (set xs)"
proof -
  have "set (takeWhile (\<lambda>x. e x \<le> t) xs) \<union> set (dropWhile (\<lambda>x. e x \<le> t) xs) = set xs"
    by (simp flip: set_append)
  then show ?thesis by (simp add: timer_insert_def)
qed

lemma sorted_dropWhile_gt:
  "sorted (map e xs) \<Longrightarrow> \<forall>x \<in> set (dropWhile (\<lambda>x. e x \<le> t) xs). t < (e x :: int)"
  by (induction xs) auto

lemma sorted_timer_insert:
  assumes "sorted (map e xs)" and "e tp = t"
  shows "sorted (map e (timer_insert e tp t xs))"
proof -
  have "sorted (map e (takeWhile (\<lambda>x. e x \<le> t) xs) @ map e (dropWhile (\<lambda>x. e x \<le> t) xs))"
    using assms(1) by (simp flip: map_append)
  with sorted_dropWhile_gt [OF assms(1), of t] assms(2) show ?thesis
    by (fastforce simp: timer_insert_def sorted_append dest: set_takeWhileD)
qed

lemma settimer_spec:
  assumes q: "timer_queue q xs"
  shows "\<exists>q'. tmrs_settimer tp t w q = Some (tmrs_head_time q, tmrs_head_time q', q') \<and>
    timer_queue q' (timer_insert (\<lambda>x. tmr_exp_time (tmr q x)) tp t (remove1 tp xs)) \<and>
    tmr_exp_time (tmr q' tp) = t \<and> tmr_func (tmr q' tp) = w \<and> tmr_arg (tmr q' tp) = tmr_arg (tmr q tp) \<and>
    (\<forall>x. x \<noteq> tp \<longrightarrow> tmr_exp_time (tmr q' x) = tmr_exp_time (tmr q x) \<and>
       tmr_func (tmr q' x) = tmr_func (tmr q x) \<and> tmr_arg (tmr q' x) = tmr_arg (tmr q x))"
proof -
  obtain q1 nt where clr: "tmrs_clrtimer tp q = Some (tmrs_head_time q, nt, q1)"
    and q1: "timer_queue q1 (remove1 tp xs)"
    and a1: "tmr_arg (tmr q1 tp) = tmr_arg (tmr q tp)"
    and other: "\<And>x. x \<noteq> tp \<Longrightarrow> tmr_exp_time (tmr q1 x) = tmr_exp_time (tmr q x) \<and>
       tmr_func (tmr q1 x) = tmr_func (tmr q x) \<and> tmr_arg (tmr q1 x) = tmr_arg (tmr q x)"
    using clrtimer_spec [OF q, of tp] by auto
  define ys where "ys = remove1 tp xs"
  define q2 where "q2 = upd_tmr tp (\<lambda>u. u\<lparr>tmr_exp_time := t, tmr_func := w\<rparr>) q1"
  define us where "us = takeWhile (\<lambda>x. tmr_exp_time (tmr q2 x) \<le> t) ys"
  define vs where "vs = dropWhile (\<lambda>x. tmr_exp_time (tmr q2 x) \<le> t) ys"
  define q3 where "q3 = set_tmr_next tp (cell_rd (tmr_nexts q2) (tmrs q2) (cell_after Head us)) q2"
  define q4 where "q4 = cell_wr set_tmrs set_tmr_next (cell_after Head us) (Some tp) q3"
  have nin: "tp \<notin> set ys"
    using timer_queue_distinct [OF q] by (simp add: ys_def distinct_remove1_removeAll)
  have nx: "tmr_nexts q2 = tmr_nexts q1" and hd: "tmrs q2 = tmrs q1" by (auto simp: q2_def)
  have c2: "chain (tmr_nexts q2) (tmrs q2) (us @ vs)"
    using timer_queue_chain [OF q1] by (simp add: nx hd us_def vs_def ys_def)
  have w: "walk (\<lambda>x. t < tmr_exp_time (tmr q2 x)) (tmr_nexts q2) (tmrs q2) Head = Some (cell_after Head us)"
    using tmr_list.walk_state [of q2 ys] c2 by (simp add: us_def vs_def not_less)
  have run: "tmrs_settimer tp t w q = Some (tmrs_head_time q, tmrs_head_time q4, q4)"
    by (simp add: tmrs_settimer_def Let_def clr w q4_def q3_def del: tmr_upd_tmr tmrs_upd_tmr flip: q2_def)
  have e2: "tmr_exp_time (tmr q2 x) = tmr_exp_time (tmr q x)" if "x \<in> set ys" for x
    using that nin other by (auto simp: q2_def)
  have ins: "us @ tp # vs = timer_insert (\<lambda>x. tmr_exp_time (tmr q x)) tp t ys"
    unfolding timer_insert_def us_def vs_def using e2
    by (auto intro!: arg_cong2 [where f = append] takeWhile_cong dropWhile_cong)
  have ch: "chain (tmr_nexts q4) (tmrs q4) (us @ tp # vs)"
    unfolding q4_def q3_def using c2 nin
    by (intro tmr_list.link_chain) (auto simp: us_def vs_def dest: set_takeWhileD set_dropWhileD)
  have e4: "tmr_exp_time (tmr q4 x) = tmr_exp_time (tmr q2 x)"
    "tmr_func (tmr q4 x) = tmr_func (tmr q2 x)" "tmr_arg (tmr q4 x) = tmr_arg (tmr q2 x)" for x
    by (auto simp: q4_def q3_def set_tmr_next_def)
  have "sorted (map (\<lambda>x. tmr_exp_time (tmr q2 x)) ys)"
    by (rule back_subst [where P = sorted, OF timer_queue_sorted [OF q1]])
      (use nin in \<open>auto simp: q2_def ys_def\<close>)
  then have "sorted (map (\<lambda>x. tmr_exp_time (tmr q2 x)) (timer_insert (\<lambda>x. tmr_exp_time (tmr q2 x)) tp t ys))"
    by (rule sorted_timer_insert) (simp add: q2_def)
  then have "sorted (map (\<lambda>x. tmr_exp_time (tmr q4 x)) (us @ tp # vs))"
    by (simp add: e4 timer_insert_def us_def vs_def)
  with ch have "timer_queue q4 (us @ tp # vs)" by (simp add: timer_queue_def)
  with run ins e4 a1 other show ?thesis by (auto simp: q2_def ys_def)
qed

section \<open>Expiry\<close>

text \<open>
  The contract of a set of watchdog functions: run on an expired timer that has just been
  taken off the queue, each returns, keeps the queue and an invariant of the program that owns
  it, and leaves no more timers due at \<open>now\<close> than it found, so a function that re-arms its
  timer does so for a later time.
\<close>

definition due :: "int \<Rightarrow> ('i, 'f) tmrq \<Rightarrow> 'i list \<Rightarrow> nat" where
  "due now q xs = length (filter (\<lambda>x. tmr_exp_time (tmr q x) \<le> now) xs)"

definition expire_head :: "'i \<Rightarrow> ('i, 'f) tmrq \<Rightarrow> ('i, 'f) tmrq" where
  "expire_head tp q = upd_tmr tp (\<lambda>t. t\<lparr>tmr_exp_time := TMR_NEVER\<rparr>) (set_tmrs (tmr_nexts q tp) q)"

lemma expire_head_queue:
  assumes "timer_queue q (tp # xs)" and "tmr_exp_time (tmr q tp) \<le> now"
  shows "timer_queue (expire_head tp q) xs" and "due now q (tp # xs) = Suc (due now (expire_head tp q) xs)"
proof -
  have d: "tp \<notin> set xs" using timer_queue_distinct [OF assms(1)] by simp
  have nx: "tmr_nexts (expire_head tp q) = tmr_nexts q"
    by (auto simp: expire_head_def)
  have e: "tmr_exp_time (tmr (expire_head tp q) x) = tmr_exp_time (tmr q x)" if "x \<in> set xs" for x
    using that d by (auto simp: expire_head_def)
  have m: "map (\<lambda>x. tmr_exp_time (tmr (expire_head tp q) x)) xs = map (\<lambda>x. tmr_exp_time (tmr q x)) xs"
    by (rule map_cong [OF refl e])
  have "tmrs (expire_head tp q) = tmr_nexts q tp" by (simp add: expire_head_def)
  with assms(1) show "timer_queue (expire_head tp q) xs"
    unfolding timer_queue_def nx m by simp
  from e have "filter (\<lambda>x. tmr_exp_time (tmr (expire_head tp q) x) \<le> now) xs =
      filter (\<lambda>x. tmr_exp_time (tmr q x) \<le> now) xs"
    by (auto intro: filter_cong)
  with assms(2) show "due now q (tp # xs) = Suc (due now (expire_head tp q) xs)"
    by (simp add: due_def)
qed

locale watchdogs =
  fixes run :: "'f \<Rightarrow> 'i \<Rightarrow> ('i, 'f) tmrq \<Rightarrow> 'c \<Rightarrow> (('i, 'f) tmrq \<times> 'c) option"
    and now :: int
    and inv :: "('i, 'f) tmrq \<Rightarrow> 'c \<Rightarrow> bool"
  assumes run_ok: "timer_queue q (tp # xs) \<Longrightarrow> tmr_exp_time (tmr q tp) \<le> now \<Longrightarrow> inv q c \<Longrightarrow>
    \<exists>q' c' ys. run (tmr_func (tmr q tp)) tp (expire_head tp q) c = Some (q', c') \<and> inv q' c' \<and>
      timer_queue q' ys \<and> due now q' ys \<le> due now (expire_head tp q) xs"
begin

text \<open>Then expiry ends, and every timer left in the queue is in the future.\<close>

lemma exptimers_ends:
  assumes "timer_queue q xs" and "inv q c"
  shows "\<exists>q' c' zs. tmrs_exptimers run now q c = Some (tmrs_head_time q', q', c') \<and> inv q' c' \<and>
    timer_queue q' zs \<and> (\<forall>x \<in> set zs. now < tmr_exp_time (tmr q' x))"
  using assms
proof (induction "due now q xs" arbitrary: q xs c rule: less_induct)
  case less
  show ?case
  proof (cases "\<exists>tp ys. xs = tp # ys \<and> tmr_exp_time (tmr q tp) \<le> now")
    case True
    then obtain tp ys where xs: "xs = tp # ys" and t: "tmr_exp_time (tmr q tp) \<le> now" by auto
    have hd: "tmrs q = Some tp" using timer_queue_chain [OF less.prems(1)] xs by simp
    note eh = expire_head_queue [OF less.prems(1) [unfolded xs] t]
    obtain q' c' zs where r: "run (tmr_func (tmr q tp)) tp (expire_head tp q) c = Some (q', c')"
      and i: "inv q' c'" and tq: "timer_queue q' zs" and le: "due now q' zs \<le> due now (expire_head tp q) ys"
      using run_ok [OF less.prems(1) [unfolded xs] t less.prems(2)] by blast
    from le eh(2) xs have "due now q' zs < due now q xs" by simp
    from less.hyps [OF this tq i] show ?thesis
      using hd t r by (subst tmrs_exptimers.simps) (simp add: expire_head_def)
  next
    case False
    have gt: "\<forall>x \<in> set xs. now < tmr_exp_time (tmr q x)"
    proof (cases xs)
      case (Cons x ys)
      with False have "now < tmr_exp_time (tmr q x)" by auto
      with timer_queue_sorted [OF less.prems(1)] Cons show ?thesis by auto
    qed simp
    have "tmrs_exptimers run now q c = Some (tmrs_head_time q, q, c)"
      using timer_queue_chain [OF less.prems(1)] gt
      by (cases xs) (auto simp: tmrs_exptimers.simps [of run now q c])
    with less.prems gt show ?thesis by blast
  qed
qed

end

section \<open>Properties\<close>

text \<open>
  C30. Setting a timer, whether it is already queued or not, returns and leaves the queue sorted
  by expiry time with the timer in it once, behind every timer that does not expire later;
  other timers keep their time and function, and the reported times are those of the old and
  the new head.
\<close>

theorem settimer_keeps_order:
  assumes "timer_queue q xs"
  shows "\<exists>q'. tmrs_settimer tp t w q = Some (tmrs_head_time q, tmrs_head_time q', q') \<and>
    timer_queue q' (timer_insert (\<lambda>x. tmr_exp_time (tmr q x)) tp t (remove1 tp xs)) \<and>
    tmr_exp_time (tmr q' tp) = t \<and> tmr_func (tmr q' tp) = w \<and>
    (\<forall>x. x \<noteq> tp \<longrightarrow> tmr_exp_time (tmr q' x) = tmr_exp_time (tmr q x) \<and> tmr_func (tmr q' x) = tmr_func (tmr q x))"
  using settimer_spec [OF assms, of tp t w] by blast

definition sample_timers :: "(nat, nat) tmrq" where
  "sample_timers = \<lparr>tmrs = Some 1, tmr = (\<lambda>i. \<lparr>tmr_next = (if i = 1 then Some 2 else None),
     tmr_exp_time = (if i = 1 then 10 else if i = 2 then 30 else TMR_NEVER), tmr_func = i, tmr_arg = 0\<rparr>)\<rparr>"

lemma sample_timers_queue: "timer_queue sample_timers [1, 2]"
  by (simp add: timer_queue_def sample_timers_def)

theorem settimer_keeps_order_witness:
  "timer_queue sample_timers [1, 2] \<and>
   (\<exists>q'. tmrs_settimer 3 20 7 sample_timers = Some (10, tmrs_head_time q', q') \<and> timer_queue q' [1, 3, 2])"
proof -
  have "tmrs_head_time sample_timers = 10" by (simp add: sample_timers_def tmrs_head_time_def)
  moreover have "timer_insert (\<lambda>x. tmr_exp_time (tmr sample_timers x)) 3 20 (remove1 3 [1, 2]) = [1, 3, 2]"
    by (simp add: timer_insert_def sample_timers_def)
  ultimately show ?thesis
    using settimer_keeps_order [OF sample_timers_queue, of 3 20 7] sample_timers_queue by auto
qed

text \<open>
  Clearing a timer returns, takes exactly that timer out of the queue if it is in it, marks
  it inactive, and reports the expiry times of the old and the new head.
\<close>

lemma clrtimer_removes:
  assumes "timer_queue q xs"
  shows "\<exists>q'. tmrs_clrtimer tp q = Some (tmrs_head_time q, tmrs_head_time q', q') \<and>
    timer_queue q' (remove1 tp xs) \<and> tmr_exp_time (tmr q' tp) = TMR_NEVER \<and>
    (\<forall>x. x \<noteq> tp \<longrightarrow> tmr_exp_time (tmr q' x) = tmr_exp_time (tmr q x))"
  using clrtimer_spec [OF assms, of tp] by blast

lemma clrtimer_removes_witness:
  "timer_queue sample_timers [1, 2] \<and>
   (\<exists>q'. tmrs_clrtimer 1 sample_timers = Some (10, tmrs_head_time q', q') \<and> timer_queue q' [2])"
  using clrtimer_removes [OF sample_timers_queue, of 1] sample_timers_queue
  by (auto simp: sample_timers_def tmrs_head_time_def)

end
