(* ===== verification/Kernel_State.thy ===== *)
theory Kernel_State
  imports Timers
begin

text \<open>
  The data of the kernel: the process table (\<^verbatim>\<open>struct proc\<close>, \<^verbatim>\<open>include/kernel/proc.h\<close>), the
  privilege structures (\<^verbatim>\<open>struct priv\<close>, \<^verbatim>\<open>include/kernel/priv.h\<close>), messages
  (\<^verbatim>\<open>include/nucleos/kipc.h\<close>), the run queues, the clock and the interrupt hooks, and the
  macros that read and write them. Sizes are those of \<^verbatim>\<open>arch/x86/configs/i386_defconfig\<close>.

  A pointer to a process is its process number, a pointer to a privilege structure its
  index; \<^term>\<open>None\<close> is the null pointer. Bit masks are words of the width of the C field,
  other integers are \<^typ>\<open>int\<close> with the wrap-around of their C type written out.
\<close>

section \<open>Constants\<close>

abbreviation (input) NR_TASKS :: int where "NR_TASKS \<equiv> 4"
abbreviation (input) NR_PROCS :: int where "NR_PROCS \<equiv> 100"
abbreviation (input) NR_SYS_PROCS :: int where "NR_SYS_PROCS \<equiv> 32"
abbreviation (input) MAX_NR_TASKS :: int where "MAX_NR_TASKS \<equiv> 1023"
abbreviation (input) NR_SCHED_QUEUES :: int where "NR_SCHED_QUEUES \<equiv> 16"
abbreviation (input) BITCHUNK_BITS :: int where "BITCHUNK_BITS \<equiv> 16"
abbreviation (input) NR_SYS_CHUNKS :: int where "NR_SYS_CHUNKS \<equiv> 2"

abbreviation (input) IDLE :: int where "IDLE \<equiv> -4"
abbreviation (input) CLOCK :: int where "CLOCK \<equiv> -3"
abbreviation (input) SYSTEM :: int where "SYSTEM \<equiv> -2"
abbreviation (input) HARDWARE :: int where "HARDWARE \<equiv> -1"
abbreviation (input) PM_PROC_NR :: int where "PM_PROC_NR \<equiv> 0"
abbreviation (input) VFS_PROC_NR :: int where "VFS_PROC_NR \<equiv> 1"
abbreviation (input) VM_PROC_NR :: int where "VM_PROC_NR \<equiv> 8"
abbreviation (input) ROOT_USR_PROC_NR :: int where "ROOT_USR_PROC_NR \<equiv> 11"
abbreviation (input) NR_BOOT_PROCS :: int where "NR_BOOT_PROCS \<equiv> 16"
abbreviation (input) USER_PRIV_ID :: int where "USER_PRIV_ID \<equiv> 15"
abbreviation (input) NULL_PRIV_ID :: int where "NULL_PRIV_ID \<equiv> -1"

abbreviation (input) ENDPT_ANY :: int where "ENDPT_ANY \<equiv> 0x7ace"
abbreviation (input) ENDPT_NONE :: int where "ENDPT_NONE \<equiv> 0x6ace"
abbreviation (input) ENDPT_SELF :: int where "ENDPT_SELF \<equiv> 0x8ace"

abbreviation (input) EPERM :: int where "EPERM \<equiv> 1"
abbreviation (input) ESRCH :: int where "ESRCH \<equiv> 3"
abbreviation (input) EAGAIN :: int where "EAGAIN \<equiv> 11"
abbreviation (input) ENOMEM :: int where "ENOMEM \<equiv> 12"
abbreviation (input) EFAULT :: int where "EFAULT \<equiv> 14"
abbreviation (input) EBUSY :: int where "EBUSY \<equiv> 16"
abbreviation (input) EINVAL :: int where "EINVAL \<equiv> 22"
abbreviation (input) ENOSPC :: int where "ENOSPC \<equiv> 28"
abbreviation (input) EDOM :: int where "EDOM \<equiv> 33"
abbreviation (input) ELOCKED :: int where "ELOCKED \<equiv> 101"
abbreviation (input) EBADCALL :: int where "EBADCALL \<equiv> 102"
abbreviation (input) ECALLDENIED :: int where "ECALLDENIED \<equiv> 104"
abbreviation (input) EDEADSRCDST :: int where "EDEADSRCDST \<equiv> 105"
abbreviation (input) ENOTREADY :: int where "ENOTREADY \<equiv> 106"
abbreviation (input) ESRCDIED :: int where "ESRCDIED \<equiv> 108"
abbreviation (input) EDSTDIED :: int where "EDSTDIED \<equiv> 109"
abbreviation (input) ETRAPDENIED :: int where "ETRAPDENIED \<equiv> 110"
abbreviation (input) EDONTREPLY :: int where "EDONTREPLY \<equiv> 201"

abbreviation (input) RTS_SLOT_FREE :: "16 word" where "RTS_SLOT_FREE \<equiv> 0x01"
abbreviation (input) RTS_PROC_STOP :: "16 word" where "RTS_PROC_STOP \<equiv> 0x02"
abbreviation (input) RTS_SENDING :: "16 word" where "RTS_SENDING \<equiv> 0x04"
abbreviation (input) RTS_RECEIVING :: "16 word" where "RTS_RECEIVING \<equiv> 0x08"
abbreviation (input) RTS_SIGNALED :: "16 word" where "RTS_SIGNALED \<equiv> 0x10"
abbreviation (input) RTS_SIG_PENDING :: "16 word" where "RTS_SIG_PENDING \<equiv> 0x20"
abbreviation (input) RTS_P_STOP :: "16 word" where "RTS_P_STOP \<equiv> 0x40"
abbreviation (input) RTS_NO_PRIV :: "16 word" where "RTS_NO_PRIV \<equiv> 0x80"
abbreviation (input) RTS_NO_ENDPOINT :: "16 word" where "RTS_NO_ENDPOINT \<equiv> 0x100"
abbreviation (input) RTS_VMINHIBIT :: "16 word" where "RTS_VMINHIBIT \<equiv> 0x200"
abbreviation (input) RTS_SYS_LOCK :: "16 word" where "RTS_SYS_LOCK \<equiv> 0x2000"
abbreviation (input) RTS_PREEMPTED :: "16 word" where "RTS_PREEMPTED \<equiv> 0x4000"
abbreviation (input) RTS_NO_QUANTUM :: "16 word" where "RTS_NO_QUANTUM \<equiv> 0x8000"

abbreviation (input) MF_REPLY_PEND :: "16 word" where "MF_REPLY_PEND \<equiv> 0x001"
abbreviation (input) MF_VIRT_TIMER :: "16 word" where "MF_VIRT_TIMER \<equiv> 0x002"
abbreviation (input) MF_PROF_TIMER :: "16 word" where "MF_PROF_TIMER \<equiv> 0x004"
abbreviation (input) MF_ASYNMSG :: "16 word" where "MF_ASYNMSG \<equiv> 0x010"
abbreviation (input) MF_DELIVERMSG :: "16 word" where "MF_DELIVERMSG \<equiv> 0x040"
abbreviation (input) MF_SIG_DELAY :: "16 word" where "MF_SIG_DELAY \<equiv> 0x080"
abbreviation (input) MF_SC_ACTIVE :: "16 word" where "MF_SC_ACTIVE \<equiv> 0x100"
abbreviation (input) MF_SC_DEFER :: "16 word" where "MF_SC_DEFER \<equiv> 0x200"
abbreviation (input) MF_SC_TRACE :: "16 word" where "MF_SC_TRACE \<equiv> 0x400"
abbreviation (input) MF_FPU_INITIALIZED :: "16 word" where "MF_FPU_INITIALIZED \<equiv> 0x1000"

abbreviation (input) PREEMPTIBLE :: "16 word" where "PREEMPTIBLE \<equiv> 0x02"
abbreviation (input) BILLABLE :: "16 word" where "BILLABLE \<equiv> 0x04"
abbreviation (input) DYN_PRIV_ID :: "16 word" where "DYN_PRIV_ID \<equiv> 0x08"
abbreviation (input) SYS_PROC :: "16 word" where "SYS_PROC \<equiv> 0x10"
abbreviation (input) CHECK_IO_PORT :: "16 word" where "CHECK_IO_PORT \<equiv> 0x20"
abbreviation (input) CHECK_IRQ :: "16 word" where "CHECK_IRQ \<equiv> 0x40"
abbreviation (input) CHECK_MEM :: "16 word" where "CHECK_MEM \<equiv> 0x80"

abbreviation (input) KIPC_SEND :: int where "KIPC_SEND \<equiv> 1"
abbreviation (input) KIPC_RECEIVE :: int where "KIPC_RECEIVE \<equiv> 2"
abbreviation (input) KIPC_SENDREC :: int where "KIPC_SENDREC \<equiv> 3"
abbreviation (input) KIPC_NOTIFY :: int where "KIPC_NOTIFY \<equiv> 4"
abbreviation (input) KIPC_SENDA :: int where "KIPC_SENDA \<equiv> 5"
abbreviation (input) KIPC_SERVICES_COUNT :: int where "KIPC_SERVICES_COUNT \<equiv> 5"
abbreviation (input) KIPC_FLG_NONBLOCK :: "32 word" where "KIPC_FLG_NONBLOCK \<equiv> 1"

abbreviation (input) AMF_VALID :: "32 word" where "AMF_VALID \<equiv> 1"
abbreviation (input) AMF_DONE :: "32 word" where "AMF_DONE \<equiv> 2"
abbreviation (input) AMF_NOTIFY :: "32 word" where "AMF_NOTIFY \<equiv> 4"
abbreviation (input) AMF_NOREPLY :: "32 word" where "AMF_NOREPLY \<equiv> 8"

abbreviation (input) SIGTRAP :: int where "SIGTRAP \<equiv> 5"
abbreviation (input) SIGKILL :: int where "SIGKILL \<equiv> 9"
abbreviation (input) SIGVTALRM :: int where "SIGVTALRM \<equiv> 24"
abbreviation (input) SIGPROF :: int where "SIGPROF \<equiv> 25"
abbreviation (input) SIGKSIG :: int where "SIGKSIG \<equiv> 30"
abbreviation (input) SIGNDELAY :: int where "SIGNDELAY \<equiv> 31"

section \<open>Records\<close>

record kipc_msg =
  m_source :: int
  m_type :: int
  m_data1 :: int
  m_data2 :: int
  m_data3 :: int
  m_data4 :: int
  m_data5 :: int
  m_data6 :: int
  m_data7 :: int
  m_data8 :: int
  m_data9 :: int

record mem_map =
  mem_vir :: int
  mem_phys :: int
  mem_len :: int

text \<open>A bit map over the privilege structures: 16-bit chunks.\<close>

type_synonym sys_map = "int \<Rightarrow> 16 word"

record proc =
  p_nr :: int
  p_priv :: int
  p_rts_flags :: "16 word"
  p_misc_flags :: "16 word"
  p_priority :: int
  p_max_priority :: int
  p_ticks_left :: int
  p_quantum_size :: int
  p_memmap :: "int \<Rightarrow> mem_map"
  p_user_time :: int
  p_sys_time :: int
  p_virt_left :: int
  p_prof_left :: int
  p_nextready :: "int option"
  p_caller_q :: "int option"
  p_q_link :: "int option"
  p_getfrom_e :: int
  p_sendto_e :: int
  p_pending :: "32 word"
  p_endpoint :: int
  p_sendmsg :: kipc_msg
  p_delivermsg :: kipc_msg
  p_delivermsg_vir :: int
  p_delivermsg_lin :: int
  p_retreg :: int
  p_psw :: "32 word"
  syscall_0x80 :: bool

record io_range =
  ior_base :: int
  ior_limit :: int

record mem_range =
  mr_base :: int
  mr_limit :: int

record priv =
  s_proc_nr :: int
  s_id :: int
  s_flags :: "16 word"
  s_asyntab :: int
  s_asynsize :: int
  s_trap_mask :: "16 word"
  s_ipc_to :: sys_map
  s_k_call_mask :: sys_map
  s_notify_pending :: sys_map
  s_int_pending :: "32 word"
  s_sig_pending :: "32 word"
  s_nr_io_range :: int
  s_io_tab :: "int \<Rightarrow> io_range"
  s_nr_mem_range :: int
  s_mem_tab :: "int \<Rightarrow> mem_range"
  s_nr_irq :: int
  s_irq_tab :: "int \<Rightarrow> int"
  s_grant_table :: int
  s_grant_entries :: int

text \<open>The kernel's timers: the synchronous alarm of a privilege structure, and two statics.\<close>

datatype ktimer = Alarm int | QueueTimer | ShutdownTimer

datatype watchdog = WD_balance_queues | WD_cause_alarm | WD_shutdown

text \<open>The interrupt handlers a hook may carry: the generic one of drivers, and the clock's.\<close>

datatype irq_handler = IH_generic | IH_timer

record irq_hook =
  h_next :: "int option"
  h_handler :: irq_handler
  h_irq :: int
  h_id :: "32 word"
  h_proc_nr_e :: int
  h_notify_id :: int
  h_policy :: "32 word"

text \<open>
  The state of the kernel. The last group of fields is what the kernel sees of memory outside
  its own variables, as far as its copy routines reach it. \<open>umsg lin\<close> is the message at a
  linear address and \<open>uvmsg p a\<close> the one at address \<open>a\<close> of process \<open>p\<close>; \<open>uword p a\<close> is the
  word there and \<open>uword_wr p a\<close> says whether it can be written; copying faults where a value
  is \<^term>\<open>None\<close>. \<open>stack_junk\<close> is the indeterminate content of an uninitialised message
  variable on the kernel stack.
\<close>

record kstate =
  procs :: "int \<Rightarrow> proc"
  privs :: "int \<Rightarrow> priv"
  rdy_head :: "int \<Rightarrow> int option"
  rdy_tail :: "int \<Rightarrow> int option"
  proc_ptr :: int
  bill_ptr :: int
  intr_off :: bool
  locklevel :: int
  who_p :: int
  who_e :: int
  clock_timers :: "(ktimer, watchdog) tmrq"
  next_timeout :: int
  realtime :: int
  lost_ticks :: int
  boottime :: int
  proc_load_history :: "int \<Rightarrow> int"
  proc_last_slot :: int
  last_clock :: int
  system_hz :: int
  kernel_in_panic :: bool
  irq_hooks :: "int \<Rightarrow> irq_hook"
  irq_handlers :: "int \<Rightarrow> int option"
  irq_actids :: "int \<Rightarrow> 32 word"
  irq_use :: "32 word"
  irq_masked :: "int \<Rightarrow> bool"
  umsg :: "int \<Rightarrow> kipc_msg option"
  uvmsg :: "int \<Rightarrow> int \<Rightarrow> kipc_msg option"
  uword :: "int \<Rightarrow> int \<Rightarrow> 32 word option"
  uword_wr :: "int \<Rightarrow> int \<Rightarrow> bool"
  stack_junk :: kipc_msg

section \<open>Access to the tables\<close>

definition upd_proc :: "int \<Rightarrow> (proc \<Rightarrow> proc) \<Rightarrow> kstate \<Rightarrow> kstate" where
  "upd_proc n f s = s\<lparr>procs := (procs s)(n := f (procs s n))\<rparr>"

definition upd_priv :: "int \<Rightarrow> (priv \<Rightarrow> priv) \<Rightarrow> kstate \<Rightarrow> kstate" where
  "upd_priv i f s = s\<lparr>privs := (privs s)(i := f (privs s i))\<rparr>"

text \<open>\<^verbatim>\<open>priv(rp)\<close>\<close>

definition priv_of :: "kstate \<Rightarrow> int \<Rightarrow> priv" where
  "priv_of s n = privs s (p_priv (procs s n))"

definition upd_priv_of :: "int \<Rightarrow> (priv \<Rightarrow> priv) \<Rightarrow> kstate \<Rightarrow> kstate" where
  "upd_priv_of n f s = upd_priv (p_priv (procs s n)) f s"

definition RTS_ISSET :: "proc \<Rightarrow> 16 word \<Rightarrow> bool" where
  "RTS_ISSET p f \<longleftrightarrow> p_rts_flags p AND f = f"

definition proc_is_runnable :: "proc \<Rightarrow> bool" where
  "proc_is_runnable p \<longleftrightarrow> p_rts_flags p = 0"

definition isokprocn :: "int \<Rightarrow> bool" where
  "isokprocn n \<longleftrightarrow> uwrap32 (n + NR_TASKS) < NR_PROCS + NR_TASKS"

definition isemptyp :: "proc \<Rightarrow> bool" where
  "isemptyp p \<longleftrightarrow> p_rts_flags p = RTS_SLOT_FREE"

definition iskerneln :: "int \<Rightarrow> bool" where
  "iskerneln n \<longleftrightarrow> n < 0"

definition WILLRECEIVE :: "proc \<Rightarrow> int \<Rightarrow> bool" where
  "WILLRECEIVE p source_ep \<longleftrightarrow>
     (RTS_ISSET p RTS_RECEIVING \<and> \<not> RTS_ISSET p RTS_SENDING) \<and>
     (p_getfrom_e p = ENDPT_ANY \<or> p_getfrom_e p = source_ep)"

text \<open>
  \<^verbatim>\<open>proc_addr(n)\<close> as the pointer of a later access: with a number outside the process table
  the access is wild.
\<close>

definition valid_nr :: "int \<Rightarrow> bool" where
  "valid_nr n \<longleftrightarrow> - NR_TASKS \<le> n \<and> n < NR_PROCS"

definition proc_addr :: "int \<Rightarrow> int option" where
  "proc_addr n = (if valid_nr n then Some n else None)"

section \<open>Bit maps over privilege structures\<close>

definition get_sys_bit :: "sys_map \<Rightarrow> int \<Rightarrow> bool" where
  "get_sys_bit m b \<longleftrightarrow> bit (m (b div BITCHUNK_BITS)) (nat (b mod BITCHUNK_BITS))"

definition set_sys_bit :: "sys_map \<Rightarrow> int \<Rightarrow> sys_map" where
  "set_sys_bit m b =
     m(b div BITCHUNK_BITS := m (b div BITCHUNK_BITS) OR push_bit (nat (b mod BITCHUNK_BITS)) 1)"

definition unset_sys_bit :: "sys_map \<Rightarrow> int \<Rightarrow> sys_map" where
  "unset_sys_bit m b =
     m(b div BITCHUNK_BITS := m (b div BITCHUNK_BITS) AND NOT (push_bit (nat (b mod BITCHUNK_BITS)) 1))"

definition nr_to_id :: "kstate \<Rightarrow> int \<Rightarrow> int" where
  "nr_to_id s n = s_id (priv_of s n)"

definition may_send_to :: "kstate \<Rightarrow> int \<Rightarrow> int \<Rightarrow> bool" where
  "may_send_to s rp n \<longleftrightarrow> get_sys_bit (s_ipc_to (priv_of s rp)) (nr_to_id s n)"

section \<open>Endpoints\<close>

abbreviation (input) ENDPOINT_GENERATION_SIZE :: int where
  "ENDPOINT_GENERATION_SIZE \<equiv> MAX_NR_TASKS + ENDPT_SELF + 1"

definition ENDPOINT_MAX_GENERATION :: int where
  "ENDPOINT_MAX_GENERATION = 2147483647 div ENDPOINT_GENERATION_SIZE - 1"

definition ENDPOINT :: "int \<Rightarrow> int \<Rightarrow> int" where
  "ENDPOINT g p = wrap32 (g * ENDPOINT_GENERATION_SIZE + p)"

definition ENDPOINT_G :: "int \<Rightarrow> int" where
  "ENDPOINT_G e = c_div (wrap32 (e + MAX_NR_TASKS)) ENDPOINT_GENERATION_SIZE"

definition ENDPOINT_P :: "int \<Rightarrow> int" where
  "ENDPOINT_P e = c_rem (wrap32 (e + MAX_NR_TASKS)) ENDPOINT_GENERATION_SIZE - MAX_NR_TASKS"

text \<open>\<^verbatim>\<open>isokendpt_f\<close> without the fatal flag; \<^verbatim>\<open>okendpt\<close> panics on a bad endpoint.\<close>

definition isokendpt :: "kstate \<Rightarrow> int \<Rightarrow> int option" where
  "isokendpt s e =
     (let p = ENDPOINT_P e in
      if \<not> isokprocn p then None
      else if isemptyp (procs s p) then None
      else if p_endpoint (procs s p) \<noteq> e then None
      else Some p)"

definition okendpt :: "kstate \<Rightarrow> int \<Rightarrow> int option" where
  "okendpt s e = isokendpt s e"

definition endpoint_lookup :: "kstate \<Rightarrow> int \<Rightarrow> int option" where
  "endpoint_lookup s e = isokendpt s e"

section \<open>Disabling interrupts\<close>

definition reallock :: "kstate \<Rightarrow> kstate option" where
  "reallock s =
     (let d = intr_off s; s1 = s\<lparr>intr_off := True, locklevel := locklevel s + 1\<rparr>
      in if d \<and> locklevel s1 = 1 then None else Some s1)"

definition realunlock :: "kstate \<Rightarrow> kstate option" where
  "realunlock s =
     (if \<not> intr_off s then None
      else if locklevel s < 1 then None
      else (let s1 = s\<lparr>locklevel := locklevel s - 1\<rparr>
            in Some (if locklevel s1 = 0 then s1\<lparr>intr_off := False\<rparr> else s1)))"

end
