(* ===== verification/Kernel_Sched.thy ===== *)
theory Kernel_Sched
  imports Kernel_State
begin

text \<open>
  Scheduling, \<^verbatim>\<open>kernel/proc.c\<close>: the ready queues and the macros of
  \<^verbatim>\<open>include/kernel/proc.h\<close> that set and clear runtime flags. The main result is that every
  operation keeps the run queue invariant: the queue of each priority is a list without
  repetition of exactly the runnable processes of that priority.
\<close>

section \<open>Run queues\<close>

abbreviation nextreadys :: "kstate \<Rightarrow> int \<Rightarrow> int option" where
  "nextreadys s x \<equiv> p_nextready (procs s x)"

definition set_nextready :: "int \<Rightarrow> int option \<Rightarrow> kstate \<Rightarrow> kstate" where
  "set_nextready x v s = upd_proc x (\<lambda>p. p\<lparr>p_nextready := v\<rparr>) s"

definition set_rdy_head :: "int \<Rightarrow> int option \<Rightarrow> kstate \<Rightarrow> kstate" where
  "set_rdy_head q v s = s\<lparr>rdy_head := (rdy_head s)(q := v)\<rparr>"

definition set_rdy_tail :: "int \<Rightarrow> int option \<Rightarrow> kstate \<Rightarrow> kstate" where
  "set_rdy_tail q v s = s\<lparr>rdy_tail := (rdy_tail s)(q := v)\<rparr>"

definition dequeue :: "int \<Rightarrow> kstate \<Rightarrow> kstate option" where
  "dequeue rp s = do {
     let q = p_priority (procs s rp);
     xpp \<leftarrow> walk (\<lambda>x. x = rp) (nextreadys s) (rdy_head s q) Head;
     case cell_rd (nextreadys s) (rdy_head s q) xpp of
       None \<Rightarrow> Some s
     | Some _ \<Rightarrow>
         (let s1 = cell_wr (set_rdy_head q) set_nextready xpp (nextreadys s rp) s
          in Some (if rdy_tail s1 q = Some rp then set_rdy_tail q (cell_owner xpp) s1 else s1))
   }"

definition set_rts :: "int \<Rightarrow> 16 word \<Rightarrow> kstate \<Rightarrow> kstate" where
  "set_rts rp f s = upd_proc rp (\<lambda>p. p\<lparr>p_rts_flags := f\<rparr>) s"

definition RTS_SET :: "int \<Rightarrow> 16 word \<Rightarrow> kstate \<Rightarrow> kstate option" where
  "RTS_SET rp f s = do {
     s1 \<leftarrow> (if proc_is_runnable (procs s rp) then dequeue rp s else Some s);
     Some (set_rts rp (p_rts_flags (procs s1 rp) OR f) s1)
   }"

text \<open>\<^verbatim>\<open>sched\<close>: the queue, whether to insert in front, and the updated process.\<close>

definition sched :: "int \<Rightarrow> kstate \<Rightarrow> int \<times> bool \<times> kstate" where
  "sched rp s =
     (let time_left = p_ticks_left (procs s rp) > 0;
          s1 = (if \<not> time_left then
                  (let s0 = upd_proc rp (\<lambda>p. p\<lparr>p_ticks_left := p_quantum_size p\<rparr>) s
                   in if p_priority (procs s0 rp) < NR_SCHED_QUEUES - 1
                      then upd_proc rp (\<lambda>p. p\<lparr>p_priority := wrap8 (p_priority p + 1)\<rparr>) s0
                      else s0)
                else s)
      in (p_priority (procs s1 rp), time_left, s1))"

text \<open>Linking a process into its queue; writing through a null tail pointer does not return.\<close>

definition link_ready :: "int \<Rightarrow> int \<Rightarrow> bool \<Rightarrow> kstate \<Rightarrow> kstate option" where
  "link_ready rp q front s =
     (if rdy_head s q = None then
        Some (set_nextready rp None (set_rdy_head q (Some rp) (set_rdy_tail q (Some rp) s)))
      else if front then
        Some (set_rdy_head q (Some rp) (set_nextready rp (rdy_head s q) s))
      else
        (case rdy_tail s q of
           None \<Rightarrow> None
         | Some t \<Rightarrow>
             Some (set_nextready rp None (set_rdy_tail q (Some rp) (set_nextready t (Some rp) s)))))"

definition enqueue :: "int \<Rightarrow> kstate \<Rightarrow> kstate option" where
  "enqueue rp s = do {
     let (q, front, s1) = sched rp s;
     s2 \<leftarrow> link_ready rp q front s1;
     if p_priority (procs s2 (proc_ptr s2)) > p_priority (procs s2 rp) \<and>
        has_any (s_flags (priv_of s2 (proc_ptr s2))) PREEMPTIBLE
     then RTS_SET (proc_ptr s2) RTS_PREEMPTED s2
     else Some s2
   }"

definition enqueue_head :: "int \<Rightarrow> kstate \<Rightarrow> kstate" where
  "enqueue_head rp s =
     (let q = p_priority (procs s rp);
          s1 = (if rdy_head s q = None
                then set_nextready rp None (set_rdy_head q (Some rp) (set_rdy_tail q (Some rp) s))
                else set_nextready rp (rdy_head s q) s)
      in set_rdy_head q (Some rp) s1)"

definition RTS_UNSET :: "int \<Rightarrow> 16 word \<Rightarrow> kstate \<Rightarrow> kstate option" where
  "RTS_UNSET rp f s =
     (let rts = p_rts_flags (procs s rp);
          s1 = set_rts rp (rts AND NOT f) s
      in if rts \<noteq> 0 \<and> proc_is_runnable (procs s1 rp) then enqueue rp s1 else Some s1)"

definition RTS_LOCK_SET :: "int \<Rightarrow> 16 word \<Rightarrow> kstate \<Rightarrow> kstate option" where
  "RTS_LOCK_SET rp f s = do {
     let u = (\<not> intr_off s);
     s1 \<leftarrow> (if u then reallock s else Some s);
     s2 \<leftarrow> (if proc_is_runnable (procs s1 rp) then dequeue rp s1 else Some s1);
     let s3 = set_rts rp (p_rts_flags (procs s2 rp) OR f) s2;
     if u then realunlock s3 else Some s3
   }"

definition RTS_LOCK_UNSET :: "int \<Rightarrow> 16 word \<Rightarrow> kstate \<Rightarrow> kstate option" where
  "RTS_LOCK_UNSET rp f s = do {
     let u = (\<not> intr_off s);
     s1 \<leftarrow> (if u then reallock s else Some s);
     let rts = p_rts_flags (procs s1 rp);
     let s2 = set_rts rp (rts AND NOT f) s1;
     s3 \<leftarrow> (if rts \<noteq> 0 \<and> proc_is_runnable (procs s2 rp) then enqueue rp s2 else Some s2);
     if u then realunlock s3 else Some s3
   }"

definition RTS_LOCK_SETFLAGS :: "int \<Rightarrow> 16 word \<Rightarrow> kstate \<Rightarrow> kstate option" where
  "RTS_LOCK_SETFLAGS rp f s = do {
     let u = (\<not> intr_off s);
     s1 \<leftarrow> (if u then reallock s else Some s);
     s2 \<leftarrow> (if proc_is_runnable (procs s1 rp) \<and> f \<noteq> 0 then dequeue rp s1 else Some s1);
     let s3 = set_rts rp f s2;
     if u then realunlock s3 else Some s3
   }"

fun pick_from :: "int list \<Rightarrow> kstate \<Rightarrow> int option \<times> kstate" where
  "pick_from [] s = (None, s)"
| "pick_from (q # qs) s =
     (case rdy_head s q of
        None \<Rightarrow> pick_from qs s
      | Some rp \<Rightarrow>
          (Some rp, if has_any (s_flags (priv_of s rp)) BILLABLE then s\<lparr>bill_ptr := rp\<rparr> else s))"

definition pick_proc :: "kstate \<Rightarrow> int option \<times> kstate" where
  "pick_proc s = pick_from [0..NR_SCHED_QUEUES - 1] s"

text \<open>
  The same loop for a kernel configured with or without \<^verbatim>\<open>CONFIG_DEBUG_KERNEL_VMASSERT\<close>: with it, the
  assertion on the process found is checked, and panics if it fails.
\<close>

fun pick_from_cfg :: "bool \<Rightarrow> int list \<Rightarrow> kstate \<Rightarrow> (int option \<times> kstate) option" where
  "pick_from_cfg dbg [] s = Some (None, s)"
| "pick_from_cfg dbg (q # qs) s =
     (case rdy_head s q of
        None \<Rightarrow> pick_from_cfg dbg qs s
      | Some rp \<Rightarrow>
          if dbg \<and> \<not> (\<not> proc_is_runnable (procs s rp)) then None
          else Some (Some rp, if has_any (s_flags (priv_of s rp)) BILLABLE then s\<lparr>bill_ptr := rp\<rparr> else s))"

definition pick_proc_cfg :: "bool \<Rightarrow> kstate \<Rightarrow> (int option \<times> kstate) option" where
  "pick_proc_cfg dbg s = pick_from_cfg dbg [0..NR_SCHED_QUEUES - 1] s"

section \<open>The clock's timer queue\<close>

definition get_uptime :: "kstate \<Rightarrow> int" where
  "get_uptime s = realtime s"

text \<open>\<^verbatim>\<open>set_timer\<close> reads the head of the queue, which is not empty after an insertion.\<close>

definition set_timer :: "ktimer \<Rightarrow> int \<Rightarrow> watchdog \<Rightarrow> kstate \<Rightarrow> kstate option" where
  "set_timer tp exp_time wd s = do {
     (_, _, q) \<leftarrow> tmrs_settimer tp exp_time wd (clock_timers s);
     h \<leftarrow> tmrs q;
     Some (s\<lparr>clock_timers := q, next_timeout := tmr_exp_time (tmr q h)\<rparr>)
   }"

definition reset_timer :: "ktimer \<Rightarrow> kstate \<Rightarrow> kstate option" where
  "reset_timer tp s = do {
     (_, _, q) \<leftarrow> tmrs_clrtimer tp (clock_timers s);
     Some (s\<lparr>clock_timers := q,
             next_timeout := (case tmrs q of None \<Rightarrow> TMR_NEVER | Some h \<Rightarrow> tmr_exp_time (tmr q h))\<rparr>)
   }"

section \<open>Balancing the queues\<close>

definition balance_one :: "int \<Rightarrow> int \<Rightarrow> kstate \<Rightarrow> (int \<times> kstate) option" where
  "balance_one rp ticks_added s =
     (if isemptyp (procs s rp) then Some (ticks_added, s)
      else if p_priority (procs s rp) > p_max_priority (procs s rp) then do {
        s1 \<leftarrow> (if proc_is_runnable (procs s rp) then dequeue rp s else Some s);
        let ticks = wrap32 (ticks_added + p_quantum_size (procs s1 rp));
        let s2 = upd_proc rp (\<lambda>p. p\<lparr>p_priority := wrap8 (p_priority p - 1)\<rparr>) s1;
        s3 \<leftarrow> (if proc_is_runnable (procs s2 rp) then enqueue rp s2 else Some s2);
        Some (ticks, s3)
      }
      else
        Some (wrap32 (ticks_added + (p_quantum_size (procs s rp) - p_ticks_left (procs s rp))),
              upd_proc rp (\<lambda>p. p\<lparr>p_ticks_left := p_quantum_size p\<rparr>) s))"

fun balance_loop :: "int list \<Rightarrow> int \<Rightarrow> kstate \<Rightarrow> (int \<times> kstate) option" where
  "balance_loop [] ticks_added s = Some (ticks_added, s)"
| "balance_loop (rp # rps) ticks_added s =
     Option.bind (balance_one rp ticks_added s) (\<lambda>(t, s'). balance_loop rps t s')"

definition balance_queues :: "kstate \<Rightarrow> kstate option" where
  "balance_queues s = do {
     s1 \<leftarrow> reallock s;
     (ticks_added, s2) \<leftarrow> balance_loop [- NR_TASKS..NR_PROCS - 1] 0 s1;
     s3 \<leftarrow> realunlock s2;
     let next_period = max 100 ticks_added;
     set_timer QueueTimer (wrap32 (get_uptime s3 + next_period)) WD_balance_queues s3
   }"

section \<open>What the queue operations leave unchanged\<close>

lemma procs_upd_proc [simp]: "procs (upd_proc n f s) m = (if m = n then f (procs s n) else procs s m)"
  by (simp add: upd_proc_def)

text \<open>The state without the links of the run queues.\<close>

definition link_view :: "kstate \<Rightarrow> kstate" where
  "link_view s = s\<lparr>rdy_head := (\<lambda>_. None), rdy_tail := (\<lambda>_. None),
     procs := (\<lambda>n. (procs s n)\<lparr>p_nextready := None\<rparr>)\<rparr>"

text \<open>
  The state without anything the scheduler may change on its own account: the links, the
  priority and the ticks of a process, and the mark that it was preempted.
\<close>

definition sched_view :: "kstate \<Rightarrow> kstate" where
  "sched_view s = s\<lparr>rdy_head := (\<lambda>_. None), rdy_tail := (\<lambda>_. None),
     procs := (\<lambda>n. (procs s n)\<lparr>p_nextready := None, p_priority := 0, p_ticks_left := 0,
       p_rts_flags := p_rts_flags (procs s n) AND NOT RTS_PREEMPTED\<rparr>)\<rparr>"

lemma link_view_set [simp]:
  "link_view (set_nextready x v s) = link_view s"
  "link_view (set_rdy_head q v s) = link_view s"
  "link_view (set_rdy_tail q v s) = link_view s"
  by (simp_all add: link_view_def set_nextready_def set_rdy_head_def set_rdy_tail_def upd_proc_def fun_eq_iff)

lemma link_view_cell_wr [simp]: "link_view (cell_wr (set_rdy_head q) set_nextready c v s) = link_view s"
  by (simp add: cell_wr_def split: cell.splits)

lemma dequeue_link_view: "dequeue rp s = Some s' \<Longrightarrow> link_view s' = link_view s"
  by (auto simp: dequeue_def Let_def opt_simps split: option.splits if_splits)

lemma link_ready_link_view: "link_ready rp q f s = Some s' \<Longrightarrow> link_view s' = link_view s"
  by (auto simp: link_ready_def split: option.splits if_splits)

lemma enqueue_head_link_view: "link_view (enqueue_head rp s) = link_view s"
  by (simp add: enqueue_head_def Let_def)

lemma link_view_procs: "link_view s' = link_view s \<Longrightarrow> (procs s' n)\<lparr>p_nextready := None\<rparr> = (procs s n)\<lparr>p_nextready := None\<rparr>"
  unfolding link_view_def by (drule arg_cong [where f = procs]) (simp add: fun_eq_iff)

lemma link_viewD:
  assumes "link_view s' = link_view s"
  shows "p_rts_flags (procs s' n) = p_rts_flags (procs s n)"
    and "p_priority (procs s' n) = p_priority (procs s n)"
    and "p_max_priority (procs s' n) = p_max_priority (procs s n)"
    and "p_ticks_left (procs s' n) = p_ticks_left (procs s n)"
    and "p_quantum_size (procs s' n) = p_quantum_size (procs s n)"
    and "p_priv (procs s' n) = p_priv (procs s n)"
    and "proc_ptr s' = proc_ptr s" and "privs s' = privs s"
    and "intr_off s' = intr_off s" and "locklevel s' = locklevel s"
proof -
  note e = link_view_procs [OF assms, of n]
  show "p_rts_flags (procs s' n) = p_rts_flags (procs s n)" using arg_cong [OF e, of p_rts_flags] by simp
  show "p_priority (procs s' n) = p_priority (procs s n)" using arg_cong [OF e, of p_priority] by simp
  show "p_max_priority (procs s' n) = p_max_priority (procs s n)" using arg_cong [OF e, of p_max_priority] by simp
  show "p_ticks_left (procs s' n) = p_ticks_left (procs s n)" using arg_cong [OF e, of p_ticks_left] by simp
  show "p_quantum_size (procs s' n) = p_quantum_size (procs s n)" using arg_cong [OF e, of p_quantum_size] by simp
  show "p_priv (procs s' n) = p_priv (procs s n)" using arg_cong [OF e, of p_priv] by simp
  show "proc_ptr s' = proc_ptr s" using arg_cong [OF assms, of proc_ptr] by (simp add: link_view_def)
  show "privs s' = privs s" using arg_cong [OF assms, of privs] by (simp add: link_view_def)
  show "intr_off s' = intr_off s" using arg_cong [OF assms, of intr_off] by (simp add: link_view_def)
  show "locklevel s' = locklevel s" using arg_cong [OF assms, of locklevel] by (simp add: link_view_def)
qed

lemma sched_view_link: "sched_view (link_view s) = sched_view s"
  by (simp add: sched_view_def link_view_def)

lemma link_sched_view: "link_view s' = link_view s \<Longrightarrow> sched_view s' = sched_view s"
  by (metis sched_view_link)

text \<open>Setting flags, seen through \<^const>\<open>sched_view\<close>.\<close>

lemma sched_view_upd_proc:
  "(\<And>p. (g p)\<lparr>p_nextready := None, p_priority := 0, p_ticks_left := 0, p_rts_flags := p_rts_flags (g p) AND NOT RTS_PREEMPTED\<rparr> =
     g' (p\<lparr>p_nextready := None, p_priority := 0, p_ticks_left := 0, p_rts_flags := p_rts_flags p AND NOT RTS_PREEMPTED\<rparr>)) \<Longrightarrow>
   sched_view (upd_proc rp g s) = upd_proc rp g' (sched_view s)"
  by (simp add: sched_view_def upd_proc_def fun_eq_iff)

lemma sched_view_set_rts:
  "sched_view (set_rts rp f s) = set_rts rp (f AND NOT RTS_PREEMPTED) (sched_view s)"
  unfolding set_rts_def by (rule sched_view_upd_proc) simp

lemma sched_view_rts: "p_rts_flags (procs (sched_view s) n) = p_rts_flags (procs s n) AND NOT RTS_PREEMPTED"
  by (simp add: sched_view_def)

lemma RTS_SET_sched_view:
  assumes "RTS_SET rp f s = Some s'"
  shows "sched_view s' = sched_view (set_rts rp (p_rts_flags (procs s rp) OR f) s)"
proof -
  obtain s1 where s1: "(if proc_is_runnable (procs s rp) then dequeue rp s else Some s) = Some s1"
    and s': "s' = set_rts rp (p_rts_flags (procs s1 rp) OR f) s1"
    using assms by (auto simp: RTS_SET_def opt_simps)
  from s1 have l: "link_view s1 = link_view s"
    by (auto dest: dequeue_link_view split: if_splits)
  show ?thesis
    by (simp add: s' sched_view_set_rts link_sched_view [OF l] link_viewD [OF l])
qed

lemma RTS_SET_preempted_view: "RTS_SET rp RTS_PREEMPTED s = Some s' \<Longrightarrow> sched_view s' = sched_view s"
  by (drule RTS_SET_sched_view)
     (simp add: sched_view_set_rts flag_simps, simp add: set_rts_def upd_proc_def sched_view_def fun_eq_iff)

lemma sched_sched_view: "sched rp s = (q, fr, s') \<Longrightarrow> sched_view s' = sched_view s"
  by (auto simp: sched_def Let_def upd_proc_def sched_view_def fun_eq_iff split: if_splits)

lemma enqueue_sched_view:
  assumes "enqueue rp s = Some s'"
  shows "sched_view s' = sched_view s"
proof -
  obtain q fr s1 where sch: "sched rp s = (q, fr, s1)" by (metis prod_cases3)
  then obtain s2 where l: "link_ready rp q fr s1 = Some s2"
    and "s' = s2 \<or> RTS_SET (proc_ptr s2) RTS_PREEMPTED s2 = Some s'"
    using assms by (auto simp: enqueue_def opt_simps split: if_splits)
  then have "sched_view s' = sched_view s2" by (auto dest: RTS_SET_preempted_view)
  with link_sched_view [OF link_ready_link_view [OF l]] sched_sched_view [OF sch]
  show ?thesis by simp
qed

lemma RTS_UNSET_sched_view:
  "RTS_UNSET rp f s = Some s' \<Longrightarrow>
   sched_view s' = sched_view (set_rts rp (p_rts_flags (procs s rp) AND NOT f) s)"
  by (auto simp: RTS_UNSET_def Let_def dest: enqueue_sched_view split: if_splits)

section \<open>Operations under the interrupt lock\<close>

text \<open>
  Interrupts are enabled only when no lock is held. Then the locking variants of the macros
  do what the plain ones do, and restore the interrupt state.
\<close>

definition lock_ok :: "kstate \<Rightarrow> bool" where
  "lock_ok s \<longleftrightarrow> 0 \<le> locklevel s \<and> (\<not> intr_off s \<longrightarrow> locklevel s = 0)"

definition with_lock :: "bool \<Rightarrow> int \<Rightarrow> kstate \<Rightarrow> kstate" where
  "with_lock a b s = s\<lparr>intr_off := a, locklevel := b\<rparr>"

lemma with_lock_sel [simp]:
  "procs (with_lock a b s) = procs s" "privs (with_lock a b s) = privs s"
  "rdy_head (with_lock a b s) = rdy_head s" "rdy_tail (with_lock a b s) = rdy_tail s"
  "proc_ptr (with_lock a b s) = proc_ptr s" "priv_of (with_lock a b s) n = priv_of s n"
  "intr_off (with_lock a b s) = a" "locklevel (with_lock a b s) = b"
  by (simp_all add: with_lock_def priv_of_def)

lemma with_lock_upd [simp]:
  "set_nextready x v (with_lock a b s) = with_lock a b (set_nextready x v s)"
  "set_rdy_head q v (with_lock a b s) = with_lock a b (set_rdy_head q v s)"
  "set_rdy_tail q v (with_lock a b s) = with_lock a b (set_rdy_tail q v s)"
  "upd_proc n g (with_lock a b s) = with_lock a b (upd_proc n g s)"
  "set_rts rp f (with_lock a b s) = with_lock a b (set_rts rp f s)"
  "cell_wr (set_rdy_head q) set_nextready c v (with_lock a b s) = with_lock a b (cell_wr (set_rdy_head q) set_nextready c v s)"
  by (simp_all add: with_lock_def set_nextready_def set_rdy_head_def set_rdy_tail_def upd_proc_def set_rts_def
      cell_wr_def split: cell.splits)

lemma dequeue_with_lock: "dequeue rp (with_lock a b s) = map_option (with_lock a b) (dequeue rp s)"
  by (auto simp: dequeue_def Let_def split: option.splits Option.bind_splits)

lemma RTS_SET_with_lock: "RTS_SET rp f (with_lock a b s) = map_option (with_lock a b) (RTS_SET rp f s)"
  by (auto simp: RTS_SET_def dequeue_with_lock split: Option.bind_splits option.splits)

lemma sched_with_lock: "sched rp (with_lock a b s) = (case sched rp s of (q, fr, t) \<Rightarrow> (q, fr, with_lock a b t))"
  by (auto simp: sched_def Let_def)

lemma link_ready_with_lock: "link_ready rp q fr (with_lock a b s) = map_option (with_lock a b) (link_ready rp q fr s)"
  by (auto simp: link_ready_def split: option.splits)

lemma enqueue_with_lock: "enqueue rp (with_lock a b s) = map_option (with_lock a b) (enqueue rp s)"
  by (auto simp: enqueue_def sched_with_lock link_ready_with_lock RTS_SET_with_lock
      split: option.splits Option.bind_splits prod.splits)

lemma reallock_eq: "\<not> intr_off s \<Longrightarrow> reallock s = Some (with_lock True (locklevel s + 1) s)"
  by (simp add: reallock_def with_lock_def)

lemma link_view_lock: "link_view s' = link_view s \<Longrightarrow> intr_off s' = intr_off s \<and> locklevel s' = locklevel s"
  by (intro conjI link_viewD)

lemma sched_view_sel:
  "intr_off (sched_view s) = intr_off s" "locklevel (sched_view s) = locklevel s"
  "proc_ptr (sched_view s) = proc_ptr s" "privs (sched_view s) = privs s"
  by (simp_all add: sched_view_def)

lemma sched_view_lock: "sched_view s' = sched_view s \<Longrightarrow> intr_off s' = intr_off s \<and> locklevel s' = locklevel s"
  by (metis sched_view_sel)

lemma with_lock_same: "intr_off s = a \<Longrightarrow> locklevel s = b \<Longrightarrow> with_lock a b s = s"
  by (simp add: with_lock_def)

lemma realunlock_eq:
  "0 \<le> b \<Longrightarrow> realunlock (with_lock True (b + 1) s) = Some (with_lock (b \<noteq> 0) b s)"
  by (simp add: realunlock_def with_lock_def Let_def)

lemma set_rts_lock [simp]: "intr_off (set_rts rp f s) = intr_off s" "locklevel (set_rts rp f s) = locklevel s"
  by (simp_all add: set_rts_def upd_proc_def)

lemma RTS_LOCK_SET_eq:
  assumes "lock_ok s"
  shows "RTS_LOCK_SET rp f s = RTS_SET rp f s"
proof (cases "intr_off s")
  case True
  then show ?thesis by (simp add: RTS_LOCK_SET_def RTS_SET_def Let_def)
next
  case False
  with assms have l: "locklevel s = 0" by (simp add: lock_ok_def)
  define D where "D = (if proc_is_runnable (procs s rp) then dequeue rp s else Some s)"
  have D': "(if proc_is_runnable (procs (with_lock True 1 s) rp) then dequeue rp (with_lock True 1 s)
      else Some (with_lock True 1 s)) = map_option (with_lock True 1) D"
    by (simp add: D_def dequeue_with_lock)
  show ?thesis
  proof (cases D)
    case None
    with False l D' show ?thesis by (simp add: RTS_LOCK_SET_def RTS_SET_def reallock_eq flip: D_def)
  next
    case (Some t)
    then have "intr_off t = intr_off s \<and> locklevel t = locklevel s"
      by (auto simp: D_def dest: dequeue_link_view [THEN link_view_lock] split: if_splits)
    with Some False l D' realunlock_eq [of 0] show ?thesis
      by (simp add: RTS_LOCK_SET_def RTS_SET_def reallock_eq with_lock_same flip: D_def)
  qed
qed

lemma RTS_LOCK_UNSET_eq:
  assumes "lock_ok s"
  shows "RTS_LOCK_UNSET rp f s = RTS_UNSET rp f s"
proof (cases "intr_off s")
  case True
  then show ?thesis by (simp add: RTS_LOCK_UNSET_def RTS_UNSET_def Let_def)
next
  case False
  with assms have l: "locklevel s = 0" by (simp add: lock_ok_def)
  define s2 where "s2 = set_rts rp (p_rts_flags (procs s rp) AND NOT f) s"
  define D where "D = (if p_rts_flags (procs s rp) \<noteq> 0 \<and> proc_is_runnable (procs s2 rp) then enqueue rp s2 else Some s2)"
  have D': "(if p_rts_flags (procs s rp) \<noteq> 0 \<and> proc_is_runnable (procs s2 rp)
      then enqueue rp (with_lock True 1 s2) else Some (with_lock True 1 s2)) = map_option (with_lock True 1) D"
    by (simp add: D_def enqueue_with_lock)
  have U: "RTS_UNSET rp f s = D" by (simp add: RTS_UNSET_def D_def Let_def s2_def)
  have L: "RTS_LOCK_UNSET rp f s = Option.bind (map_option (with_lock True 1) D) realunlock"
    unfolding D' [symmetric] using False l by (simp add: RTS_LOCK_UNSET_def reallock_eq s2_def)
  show ?thesis
  proof (cases D)
    case None
    then show ?thesis by (simp add: U L)
  next
    case (Some t)
    then have "intr_off t = intr_off s \<and> locklevel t = locklevel s"
      by (auto simp: D_def s2_def dest: enqueue_sched_view [THEN sched_view_lock] split: if_splits)
    with Some False l realunlock_eq [of 0 t] show ?thesis
      by (simp add: U L with_lock_same)
  qed
qed

section \<open>The run queue invariant\<close>

definition valid_q :: "int \<Rightarrow> bool" where
  "valid_q q \<longleftrightarrow> 0 \<le> q \<and> q < NR_SCHED_QUEUES"

text \<open>The queues \<open>Q\<close> hold the processes of \<open>A\<close>, each in the queue of its priority.\<close>

definition queues :: "kstate \<Rightarrow> int set \<Rightarrow> (int \<Rightarrow> int list) \<Rightarrow> bool" where
  "queues s A Q \<longleftrightarrow> (\<forall>q. valid_q q \<longrightarrow>
     chain (nextreadys s) (rdy_head s q) (Q q) \<and>
     (Q q \<noteq> [] \<longrightarrow> rdy_tail s q = Some (last (Q q))) \<and>
     set (Q q) = {n \<in> A. p_priority (procs s n) = q})"

definition prio_ok :: "kstate \<Rightarrow> bool" where
  "prio_ok s \<longleftrightarrow> (\<forall>n. valid_nr n \<longrightarrow> valid_q (p_priority (procs s n)) \<and> 0 \<le> p_max_priority (procs s n))"

definition runnables :: "kstate \<Rightarrow> int set" where
  "runnables s = {n. valid_nr n \<and> proc_is_runnable (procs s n)}"

definition runq_inv :: "kstate \<Rightarrow> bool" where
  "runq_inv s \<longleftrightarrow> (\<exists>Q. queues s (runnables s) Q) \<and> prio_ok s \<and> valid_nr (proc_ptr s)"

interpretation rdy: ptr_list "\<lambda>s. rdy_head s q" "set_rdy_head q" "\<lambda>s x. nextreadys s x" set_nextready for q
  by unfold_locales (auto simp: set_rdy_head_def set_nextready_def upd_proc_def)

lemma queuesD:
  assumes "queues s A Q" and "valid_q q"
  shows queues_chain: "chain (nextreadys s) (rdy_head s q) (Q q)"
    and queues_tail: "Q q \<noteq> [] \<Longrightarrow> rdy_tail s q = Some (last (Q q))"
    and queues_set: "set (Q q) = {n \<in> A. p_priority (procs s n) = q}"
    and queues_distinct: "distinct (Q q)"
  using assms by (auto simp: queues_def dest: chain_distinct)

text \<open>Writing a cell of one queue leaves the other queues alone.\<close>

lemma rdy_wr_other:
  fixes s :: kstate and v :: "int option"
  assumes "us \<noteq> [] \<Longrightarrow> last us \<notin> set xs" and "q' \<noteq> q"
  defines "s' \<equiv> cell_wr (set_rdy_head q) set_nextready (cell_after Head us) v s"
  shows "chain (nextreadys s') (rdy_head s' q') xs = chain (nextreadys s) (rdy_head s q') xs"
proof (cases "us = []")
  case True
  with assms(2) show ?thesis by (simp add: s'_def cell_wr_def set_rdy_head_def)
next
  case False
  have "nextreadys s' = (nextreadys s)(last us := v)" and "rdy_head s' = rdy_head s"
    using False by (auto simp: s'_def cell_wr_def cell_after_last set_nextready_def upd_proc_def)
  with assms(1) False show ?thesis by simp
qed

lemma rdy_tail_cell_wr [simp]: "rdy_tail (cell_wr (set_rdy_head q) set_nextready c v s) = rdy_tail s"
  by (simp add: cell_wr_def set_rdy_head_def set_nextready_def upd_proc_def split: cell.splits)

lemma set_rdy_tail_sel [simp]:
  "procs (set_rdy_tail q v s) = procs s" "rdy_head (set_rdy_tail q v s) = rdy_head s"
  "rdy_tail (set_rdy_tail q v s) = (rdy_tail s)(q := v)" "proc_ptr (set_rdy_tail q v s) = proc_ptr s"
  by (simp_all add: set_rdy_tail_def)

lemma dequeue_queues:
  assumes Q: "queues s A Q" and A: "rp \<in> A" and v: "valid_q (p_priority (procs s rp))"
  shows "\<exists>s'. dequeue rp s = Some s' \<and>
    queues s' (A - {rp}) (Q(p_priority (procs s rp) := remove1 rp (Q (p_priority (procs s rp)))))"
proof -
  define q where "q = p_priority (procs s rp)"
  define us where "us = takeWhile (\<lambda>x. x \<noteq> rp) (Q q)"
  define vs where "vs = tl (dropWhile (\<lambda>x. x \<noteq> rp) (Q q))"
  define s1 where "s1 = cell_wr (set_rdy_head q) set_nextready (cell_after Head us) (nextreadys s rp) s"
  define s' where "s' = (if rdy_tail s1 q = Some rp then set_rdy_tail q (cell_owner (cell_after Head us)) s1 else s1)"
  have vq: "valid_q q" using v by (simp add: q_def)
  have mem: "rp \<in> set (Q q)" using queues_set [OF Q vq] A by (simp add: q_def)
  have split: "Q q = us @ rp # vs" using takeWhile_neq [OF mem] by (simp add: us_def vs_def)
  have nin: "rp \<notin> set us" using set_takeWhileD by (fastforce simp: us_def)
  have rem: "remove1 rp (Q q) = us @ vs" by (simp add: split remove1_split nin)
  note c = queues_chain [OF Q vq]
  have w: "walk (\<lambda>x. x = rp) (nextreadys s) (rdy_head s q) Head = Some (cell_after Head us)"
    using rdy.walk_state [OF c] by (simp add: us_def)
  have rd: "cell_rd (nextreadys s) (rdy_head s q) (cell_after Head us) = Some rp"
    using rdy.rd_after [OF c [unfolded split]] by simp
  have deq: "dequeue rp s = Some s'"
    by (simp add: dequeue_def w rd s'_def s1_def flip: q_def)
  have lv: "link_view s1 = link_view s" by (simp add: s1_def)
  have ch1: "chain (nextreadys s1) (rdy_head s1 q) (remove1 rp (Q q))"
    using rdy.unlink_chain [OF c mem] by (simp add: s1_def us_def)
  have other: "chain (nextreadys s1) (rdy_head s1 q') (Q q')" if "valid_q q'" "q' \<noteq> q" for q'
  proof -
    have "last us \<notin> set (Q q')" if "us \<noteq> []"
    proof -
      have "last us \<in> set (Q q)" using that by (simp add: split)
      then show ?thesis
        using queues_set [OF Q vq] queues_set [OF Q \<open>valid_q q'\<close>] \<open>q' \<noteq> q\<close> by auto
    qed
    with rdy_wr_other [of us "Q q'" q' q "nextreadys s rp" s] queues_chain [OF Q that(1)] that(2)
    show ?thesis by (simp add: s1_def)
  qed
  have tail: "rdy_tail s q = Some (last (Q q))" using queues_tail [OF Q vq] by (simp add: split)
  have same: "procs s' = procs s1" "rdy_head s' = rdy_head s1" by (simp_all add: s'_def)
  have t1: "rdy_tail s1 = rdy_tail s" by (simp add: s1_def)
  have "rdy_tail s' q = Some (last (us @ vs))" if "us @ vs \<noteq> []"
  proof (cases "vs = []")
    case True
    then show ?thesis using that tail by (simp add: s'_def t1 split cell_after_last)
  next
    case False
    have "last vs \<noteq> rp"
      using queues_distinct [OF Q vq] False by (auto simp: split)
    with False tail show ?thesis by (simp add: s'_def t1 split)
  qed
  then have tl': "remove1 rp (Q q) \<noteq> [] \<Longrightarrow> rdy_tail s' q = Some (last (remove1 rp (Q q)))"
    unfolding rem by blast
  have tlo: "rdy_tail s' q' = rdy_tail s q'" if "q' \<noteq> q" for q'
    using that by (simp add: s'_def t1)
  have "queues s' (A - {rp}) (Q(q := remove1 rp (Q q)))"
    unfolding queues_def
  proof (intro allI impI conjI)
    fix q' assume vq': "valid_q q'"
    show "chain (nextreadys s') (rdy_head s' q') ((Q(q := remove1 rp (Q q))) q')"
      using ch1 other [OF vq'] by (simp add: same)
    show "rdy_tail s' q' = Some (last ((Q(q := remove1 rp (Q q))) q'))"
      if "(Q(q := remove1 rp (Q q))) q' \<noteq> []"
      using that tl' tlo queues_tail [OF Q vq'] by (cases "q' = q") auto
    show "set ((Q(q := remove1 rp (Q q))) q') = {n \<in> A - {rp}. p_priority (procs s' n) = q'}"
      using queues_set [OF Q vq'] queues_distinct [OF Q vq]
      by (auto simp: same link_viewD [OF lv] q_def)
  qed
  with deq show ?thesis by (simp add: q_def)
qed

text \<open>Linking a process into the queue of its priority, in front or at the end.\<close>

lemma link_ready_queues:
  fixes fr :: bool
  assumes Q: "queues s A Q" and A: "rp \<notin> A" and vq: "valid_q q" and pr: "p_priority (procs s rp) = q"
  defines "xs \<equiv> (if fr then rp # Q q else Q q @ [rp])"
  shows "\<exists>s'. link_ready rp q fr s = Some s' \<and> queues s' (insert rp A) (Q(q := xs))"
proof -
  note c = queues_chain [OF Q vq]
  have nin: "rp \<notin> set (Q q')" if "valid_q q'" for q'
    using queues_set [OF Q that] A by auto
  have disj: "t \<notin> set (Q q')" if "t \<in> set (Q q)" "valid_q q'" "q' \<noteq> q" for t q'
    using that queues_set [OF Q vq] queues_set [OF Q that(2)] by auto
  define us where "us = (if fr then [] else Q q)"
  define vs where "vs = (if fr then Q q else [])"
  have uv: "us @ vs = Q q" "us @ rp # vs = xs" by (simp_all add: us_def vs_def xs_def)
  define s1 where "s1 = set_nextready rp (cell_rd (nextreadys s) (rdy_head s q) (cell_after Head us)) s"
  define s2 where "s2 = cell_wr (set_rdy_head q) set_nextready (cell_after Head us) (Some rp) s1"
  define s' where "s' = (if vs = [] then set_rdy_tail q (Some rp) s2 else s2)"
  have ch: "chain (nextreadys s2) (rdy_head s2 q) (us @ rp # vs)"
    unfolding s2_def s1_def by (rule rdy.link_chain) (use c nin [OF vq] uv in auto)
  have rd: "cell_rd (nextreadys s) (rdy_head s q) (cell_after Head us) = (case vs of [] \<Rightarrow> None | v # _ \<Rightarrow> Some v)"
    by (rule rdy.rd_after) (use c uv in simp)
  have hd: "rdy_head s q = None \<longleftrightarrow> Q q = []" using c by (cases "Q q") auto
  have run: "link_ready rp q fr s = Some s'"
  proof (cases "Q q = []")
    case True
    then have "us = []" "vs = []" "rdy_head s q = None" using hd by (auto simp: us_def vs_def)
    then show ?thesis
      by (simp add: link_ready_def s'_def s2_def s1_def cell_wr_def set_nextready_def set_rdy_head_def
          set_rdy_tail_def upd_proc_def)
  next
    case False
    then have h: "rdy_head s q \<noteq> None" and t: "rdy_tail s q = Some (last (Q q))"
      using hd queues_tail [OF Q vq] by auto
    have "last (Q q) \<noteq> rp" using nin [OF vq] False by auto
    with False h t rd show ?thesis
      by (auto simp: link_ready_def s'_def s2_def s1_def us_def vs_def cell_wr_def cell_after_last set_nextready_def
          set_rdy_head_def set_rdy_tail_def upd_proc_def fun_upd_twist)
  qed
  have lv: "link_view s' = link_view s" by (rule link_ready_link_view [OF run])
  have other: "chain (nextreadys s2) (rdy_head s2 q') (Q q')" if "valid_q q'" "q' \<noteq> q" for q'
  proof -
    have "nextreadys s1 = (nextreadys s)(rp := cell_rd (nextreadys s) (rdy_head s q) (cell_after Head us))"
      and "rdy_head s1 = rdy_head s"
      by (auto simp: s1_def set_nextready_def upd_proc_def)
    then have "chain (nextreadys s1) (rdy_head s1 q') (Q q')"
      using queues_chain [OF Q that(1)] nin [OF that(1)] by simp
    moreover have "us \<noteq> [] \<Longrightarrow> last us \<notin> set (Q q')"
      using that disj by (auto simp: us_def split: if_splits)
    ultimately show ?thesis
      using rdy_wr_other [of us "Q q'" q' q "Some rp" s1] that(2) by (simp add: s2_def)
  qed
  have same: "procs s' = procs s2" "rdy_head s' = rdy_head s2" by (simp_all add: s'_def)
  have t2: "rdy_tail s2 = rdy_tail s" by (simp add: s2_def s1_def set_nextready_def upd_proc_def)
  have "queues s' (insert rp A) (Q(q := xs))"
    unfolding queues_def
  proof (intro allI impI conjI)
    fix q' assume vq': "valid_q q'"
    show "chain (nextreadys s') (rdy_head s' q') ((Q(q := xs)) q')"
      using ch other [OF vq'] uv by (simp add: same)
    show "rdy_tail s' q' = Some (last ((Q(q := xs)) q'))" if "(Q(q := xs)) q' \<noteq> []"
      using that queues_tail [OF Q vq'] by (auto simp: s'_def t2 vs_def xs_def split: if_splits)
    show "set ((Q(q := xs)) q') = {n \<in> insert rp A. p_priority (procs s' n) = q'}"
      using queues_set [OF Q vq'] pr by (auto simp: link_viewD [OF lv] xs_def)
  qed
  with run show ?thesis by blast
qed

section \<open>Every operation keeps the invariant\<close>

lemma set_rts_sel [simp]:
  "rdy_head (set_rts rp f s) = rdy_head s" "rdy_tail (set_rts rp f s) = rdy_tail s"
  "proc_ptr (set_rts rp f s) = proc_ptr s" "privs (set_rts rp f s) = privs s"
  "p_rts_flags (procs (set_rts rp f s) n) = (if n = rp then f else p_rts_flags (procs s n))"
  "p_nextready (procs (set_rts rp f s) n) = p_nextready (procs s n)"
  "p_priority (procs (set_rts rp f s) n) = p_priority (procs s n)"
  "p_max_priority (procs (set_rts rp f s) n) = p_max_priority (procs s n)"
  "p_ticks_left (procs (set_rts rp f s) n) = p_ticks_left (procs s n)"
  by (simp_all add: set_rts_def upd_proc_def)

lemma queues_set_rts [simp]: "queues (set_rts rp f s) A Q = queues s A Q"
  by (simp add: queues_def)

lemma prio_ok_set_rts [simp]: "prio_ok (set_rts rp f s) = prio_ok s"
  by (simp add: prio_ok_def)

lemma prio_ok_link:
  assumes "link_view s' = link_view s"
  shows "prio_ok s' = prio_ok s"
  by (simp add: prio_ok_def link_viewD [OF assms])

lemma runnables_set_rts:
  "valid_nr rp \<Longrightarrow> runnables (set_rts rp f s) = (if f = 0 then insert rp (runnables s) else runnables s - {rp})"
  by (auto simp: runnables_def proc_is_runnable_def)

lemma runnables_link:
  assumes "link_view s' = link_view s"
  shows "runnables s' = runnables s"
  by (simp add: runnables_def proc_is_runnable_def link_viewD [OF assms])

lemma runq_invD: "runq_inv s \<Longrightarrow> prio_ok s" "runq_inv s \<Longrightarrow> valid_nr (proc_ptr s)"
  by (simp_all add: runq_inv_def)

lemma prio_okD: "prio_ok s \<Longrightarrow> valid_nr n \<Longrightarrow> valid_q (p_priority (procs s n))"
  "prio_ok s \<Longrightarrow> valid_nr n \<Longrightarrow> 0 \<le> p_max_priority (procs s n)"
  by (simp_all add: prio_ok_def)

text \<open>Taking a runnable process off its queue.\<close>

lemma dequeue_inv:
  assumes "runq_inv s" and "valid_nr rp" and "proc_is_runnable (procs s rp)"
  shows "\<exists>s' Q. dequeue rp s = Some s' \<and> queues s' (runnables s - {rp}) Q \<and> link_view s' = link_view s"
proof -
  from assms obtain Q where Q: "queues s (runnables s) Q" and p: "prio_ok s"
    by (auto simp: runq_inv_def)
  have "rp \<in> runnables s" using assms by (simp add: runnables_def)
  from dequeue_queues [OF Q this prio_okD(1) [OF p assms(2)]] dequeue_link_view
  show ?thesis by blast
qed

lemma RTS_SET_inv:
  assumes "runq_inv s" and "valid_nr rp" and "f \<noteq> 0"
  shows "\<exists>s'. RTS_SET rp f s = Some s' \<and> runq_inv s'"
proof (cases "proc_is_runnable (procs s rp)")
  case True
  from dequeue_inv [OF assms(1,2) True] obtain s1 Q where d: "dequeue rp s = Some s1"
    and q: "queues s1 (runnables s - {rp}) Q" and l: "link_view s1 = link_view s" by blast
  have "p_rts_flags (procs s1 rp) OR f \<noteq> 0" using assms(3) by simp
  with q assms runnables_link [OF l] prio_ok_link [OF l] link_viewD [OF l] True d show ?thesis
    by (auto simp: RTS_SET_def runq_inv_def runnables_set_rts)
next
  case False
  then have "rp \<notin> runnables s" by (simp add: runnables_def)
  with False assms show ?thesis
    by (auto simp: RTS_SET_def runq_inv_def runnables_set_rts)
qed

lemma sched_spec:
  assumes "sched rp s = (q, fr, s1)" and "valid_q (p_priority (procs s rp))"
  shows "q = p_priority (procs s1 rp) \<and> valid_q q \<and> rdy_head s1 = rdy_head s \<and> rdy_tail s1 = rdy_tail s \<and>
    proc_ptr s1 = proc_ptr s \<and> privs s1 = privs s \<and> nextreadys s1 = nextreadys s \<and>
    (\<forall>n. p_rts_flags (procs s1 n) = p_rts_flags (procs s n) \<and> p_max_priority (procs s1 n) = p_max_priority (procs s n)) \<and>
    (\<forall>n. n \<noteq> rp \<longrightarrow> procs s1 n = procs s n)"
  using assms
  by (auto simp: sched_def Let_def valid_q_def upd_proc_def wrap8_id fun_eq_iff split: if_splits)

lemma enqueue_inv:
  assumes Q: "queues s (runnables s - {rp}) Q" and p: "prio_ok s" and ptr: "valid_nr (proc_ptr s)"
    and v: "valid_nr rp" and r: "proc_is_runnable (procs s rp)"
  shows "\<exists>s'. enqueue rp s = Some s' \<and> runq_inv s'"
proof -
  obtain q fr s1 where sch: "sched rp s = (q, fr, s1)" by (metis prod_cases3)
  note S = sched_spec [OF sch prio_okD(1) [OF p v]]
  have Q1: "queues s1 (runnables s - {rp}) Q"
    using Q S unfolding queues_def by auto
  have run1: "runnables s1 = runnables s"
    using S by (simp add: runnables_def proc_is_runnable_def)
  have p1: "prio_ok s1"
    unfolding prio_ok_def
  proof (intro allI impI)
    fix n assume "valid_nr n"
    with prio_okD [OF p this] S show "valid_q (p_priority (procs s1 n)) \<and> 0 \<le> p_max_priority (procs s1 n)"
      by (cases "n = rp") auto
  qed
  have nin: "rp \<notin> runnables s - {rp}" and q: "valid_q q" "p_priority (procs s1 rp) = q"
    using S by auto
  from link_ready_queues [OF Q1 nin q, of fr] obtain s2 where l: "link_ready rp q fr s1 = Some s2"
    and Q2: "\<exists>Q'. queues s2 (insert rp (runnables s - {rp})) Q'" by blast
  note lv = link_ready_link_view [OF l]
  have "insert rp (runnables s - {rp}) = runnables s2"
    using v r run1 runnables_link [OF lv] by (auto simp: runnables_def)
  with Q2 have inv2: "runq_inv s2"
    using p1 prio_ok_link [OF lv] link_viewD(7) [OF lv] S ptr by (simp add: runq_inv_def)
  show ?thesis
  proof (cases "p_priority (procs s2 (proc_ptr s2)) > p_priority (procs s2 rp) \<and>
        has_any (s_flags (priv_of s2 (proc_ptr s2))) PREEMPTIBLE")
    case True
    with RTS_SET_inv [OF inv2 runq_invD(2) [OF inv2], of RTS_PREEMPTED] sch l show ?thesis
      by (simp add: enqueue_def)
  next
    case False
    with inv2 sch l show ?thesis by (auto simp: enqueue_def)
  qed
qed

lemma RTS_UNSET_inv:
  assumes "runq_inv s" and "valid_nr rp"
  shows "\<exists>s'. RTS_UNSET rp f s = Some s' \<and> runq_inv s'"
proof -
  define s1 where "s1 = set_rts rp (p_rts_flags (procs s rp) AND NOT f) s"
  obtain Q where Q: "queues s (runnables s) Q" and p: "prio_ok s" and ptr: "valid_nr (proc_ptr s)"
    using assms by (auto simp: runq_inv_def)
  show ?thesis
  proof (cases "p_rts_flags (procs s rp) \<noteq> 0 \<and> proc_is_runnable (procs s1 rp)")
    case True
    then have "runnables s1 - {rp} = runnables s"
      using assms(2) by (auto simp: s1_def runnables_def proc_is_runnable_def)
    with Q have "queues s1 (runnables s1 - {rp}) Q" by (simp add: s1_def)
    from enqueue_inv [OF this] p ptr assms(2) True show ?thesis
      by (auto simp: RTS_UNSET_def Let_def s1_def)
  next
    case False
    then have "runnables s1 = runnables s"
      using assms(2) by (auto simp: s1_def runnables_def proc_is_runnable_def)
    with Q p ptr have "runq_inv s1" by (auto simp: runq_inv_def s1_def)
    with False show ?thesis by (auto simp: RTS_UNSET_def Let_def s1_def)
  qed
qed

text \<open>The scheduler picks the first process of the highest priority queue that is not empty.\<close>

lemma pick_from_spec:
  assumes "\<forall>q \<in> set qs. valid_q q" and "queues s A Q"
  shows "case fst (pick_from qs s) of
      None \<Rightarrow> \<forall>q \<in> set qs. Q q = []
    | Some rp \<Rightarrow> \<exists>us q vs. qs = us @ q # vs \<and> (\<forall>x \<in> set us. Q x = []) \<and> Q q \<noteq> [] \<and> rp = hd (Q q)"
  using assms(1)
proof (induction qs)
  case (Cons q qs)
  from queues_chain [OF assms(2), of q] Cons.prems have c: "chain (nextreadys s) (rdy_head s q) (Q q)" by simp
  show ?case
  proof (cases "Q q")
    case Nil
    with c Cons show ?thesis
      by (auto split: option.splits) (metis Cons_eq_appendI set_ConsD)+
  next
    case (Cons a list)
    with c show ?thesis by (auto intro: exI [of _ "[]"])
  qed
qed simp

lemma reallock_off: "intr_off s \<Longrightarrow> 0 < locklevel s \<Longrightarrow> reallock s = Some (with_lock True (locklevel s + 1) s)"
  by (simp add: reallock_def with_lock_def)

lemma queues_with_lock [simp]: "queues (with_lock a b s) A Q = queues s A Q"
  by (simp add: queues_def)

lemma runq_inv_with_lock [simp]: "runq_inv (with_lock a b s) = runq_inv s"
  by (simp add: runq_inv_def prio_ok_def runnables_def)

text \<open>Replacing all flags at once, with interrupts off.\<close>

lemma RTS_LOCK_SETFLAGS_inv:
  assumes "runq_inv s" and "valid_nr rp" and "f \<noteq> 0" and "lock_ok s"
  shows "\<exists>s'. RTS_LOCK_SETFLAGS rp f s = Some s' \<and> runq_inv s' \<and>
    sched_view s' = sched_view (set_rts rp f s)"
proof -
  define D where "D = (if proc_is_runnable (procs s rp) \<and> f \<noteq> 0 then dequeue rp s else Some s)"
  have "\<exists>t Q. D = Some t \<and> queues t (runnables s - {rp}) Q \<and> link_view t = link_view s"
  proof (cases "proc_is_runnable (procs s rp)")
    case True
    with dequeue_inv [OF assms(1,2)] assms(3) show ?thesis by (simp add: D_def)
  next
    case False
    then have "runnables s - {rp} = runnables s" by (auto simp: runnables_def)
    with False assms(1) show ?thesis by (auto simp: D_def runq_inv_def)
  qed
  then obtain t Q where t: "D = Some t" and q: "queues t (runnables s - {rp}) Q"
    and l: "link_view t = link_view s" by blast
  define s' where "s' = set_rts rp f t"
  have inv: "runq_inv s'"
    using q assms(1-3) runnables_link [OF l] prio_ok_link [OF l] link_viewD [OF l]
    by (auto simp: s'_def runq_inv_def runnables_set_rts)
  have v: "sched_view s' = sched_view (set_rts rp f s)"
    by (simp add: s'_def sched_view_set_rts link_sched_view [OF l])
  have "RTS_LOCK_SETFLAGS rp f s = Some s'"
  proof (cases "intr_off s")
    case True
    with t show ?thesis by (simp add: RTS_LOCK_SETFLAGS_def Let_def s'_def D_def)
  next
    case False
    with assms(4) have ll: "locklevel s = 0" by (simp add: lock_ok_def)
    have D': "(if proc_is_runnable (procs s rp) \<and> f \<noteq> 0 then dequeue rp (with_lock True 1 s)
        else Some (with_lock True 1 s)) = Some (with_lock True 1 t)"
      using t by (auto simp: D_def dequeue_with_lock)
    have "with_lock False 0 s' = s'"
      by (rule with_lock_same) (use link_view_lock [OF l] False ll in \<open>auto simp: s'_def\<close>)
    with False ll D' realunlock_eq [of 0 s'] show ?thesis
      by (simp add: RTS_LOCK_SETFLAGS_def reallock_eq s'_def)
  qed
  with inv v show ?thesis by blast
qed

text \<open>A preempted process goes back to the front of its queue.\<close>

lemma enqueue_head_inv:
  assumes Q: "queues s (runnables s - {rp}) Q" and p: "prio_ok s" and ptr: "valid_nr (proc_ptr s)"
    and v: "valid_nr rp" and r: "proc_is_runnable (procs s rp)"
  shows "runq_inv (enqueue_head rp s)"
proof -
  let ?q = "p_priority (procs s rp)"
  have vq: "valid_q ?q" by (rule prio_okD(1) [OF p v])
  have nin: "rp \<notin> runnables s - {rp}" by simp
  have "link_ready rp ?q True s = Some (enqueue_head rp s)"
    by (simp add: link_ready_def enqueue_head_def Let_def set_nextready_def set_rdy_head_def
        set_rdy_tail_def upd_proc_def)
  with link_ready_queues [OF Q nin vq refl, of True]
  have "\<exists>Q'. queues (enqueue_head rp s) (insert rp (runnables s - {rp})) Q'" by auto
  moreover have "insert rp (runnables s - {rp}) = runnables (enqueue_head rp s)"
    using v r runnables_link [OF enqueue_head_link_view, of rp s] by (auto simp: runnables_def)
  ultimately show ?thesis
    using p ptr prio_ok_link [OF enqueue_head_link_view, of rp s] link_viewD(7) [OF enqueue_head_link_view, of rp s]
    by (simp add: runq_inv_def)
qed

section \<open>Balancing keeps the invariant\<close>

lemma queues_prio:
  "rp \<notin> A \<Longrightarrow> queues (upd_proc rp (\<lambda>p. p\<lparr>p_priority := k p\<rparr>) s) A Q = queues s A Q"
proof -
  assume a: "rp \<notin> A"
  let ?s = "upd_proc rp (\<lambda>p. p\<lparr>p_priority := k p\<rparr>) s"
  have n: "nextreadys ?s = nextreadys s" by (auto simp: upd_proc_def)
  have "{n \<in> A. p_priority (procs ?s n) = q} = {n \<in> A. p_priority (procs s n) = q}" for q
    using a by auto
  then show ?thesis unfolding queues_def n by (simp add: upd_proc_def)
qed

lemma runnables_upd_prio [simp]:
  "runnables (upd_proc rp (\<lambda>p. p\<lparr>p_priority := k p\<rparr>) s) = runnables s"
  by (auto simp: runnables_def proc_is_runnable_def)

lemma sched_view_prio: "sched_view (upd_proc rp (\<lambda>p. p\<lparr>p_priority := k p\<rparr>) s) = sched_view s"
  by (simp add: sched_view_def upd_proc_def fun_eq_iff)

lemma balance_one_inv:
  assumes i: "runq_inv s" and v: "valid_nr rp"
  shows "\<exists>t' s'. balance_one rp t s = Some (t', s') \<and> runq_inv s' \<and> sched_view s' = sched_view s"
proof -
  obtain Q where Q: "queues s (runnables s) Q" and p: "prio_ok s" and ptr: "valid_nr (proc_ptr s)"
    using i by (auto simp: runq_inv_def)
  consider (empty) "isemptyp (procs s rp)"
    | (raise) "\<not> isemptyp (procs s rp)" "p_priority (procs s rp) > p_max_priority (procs s rp)"
    | (renew) "\<not> isemptyp (procs s rp)" "\<not> p_priority (procs s rp) > p_max_priority (procs s rp)"
    by blast
  then show ?thesis
  proof cases
    case empty
    with i show ?thesis by (simp add: balance_one_def)
  next
    case renew
    define s' where "s' = upd_proc rp (\<lambda>p. p\<lparr>p_ticks_left := p_quantum_size p\<rparr>) s"
    have n: "nextreadys s' = nextreadys s" and pr: "\<And>n. p_priority (procs s' n) = p_priority (procs s n)"
      and mx: "\<And>n. p_max_priority (procs s' n) = p_max_priority (procs s n)"
      and fl: "\<And>n. p_rts_flags (procs s' n) = p_rts_flags (procs s n)"
      by (auto simp: s'_def)
    have "queues s' (runnables s) Q"
      using Q unfolding queues_def n pr by (simp add: s'_def upd_proc_def)
    moreover have "runnables s' = runnables s" by (simp add: runnables_def proc_is_runnable_def fl)
    moreover have "prio_ok s'" using p by (simp add: prio_ok_def pr mx)
    ultimately have "runq_inv s'" using ptr by (auto simp: runq_inv_def s'_def upd_proc_def)
    moreover have "sched_view s' = sched_view s"
      by (simp add: s'_def sched_view_def upd_proc_def fun_eq_iff)
    ultimately show ?thesis using renew by (simp add: balance_one_def s'_def)
  next
    case raise
    define D where "D = (if proc_is_runnable (procs s rp) then dequeue rp s else Some s)"
    have "\<exists>s1 Q1. D = Some s1 \<and> queues s1 (runnables s - {rp}) Q1 \<and> link_view s1 = link_view s"
    proof (cases "proc_is_runnable (procs s rp)")
      case True
      with dequeue_inv [OF i v] show ?thesis by (simp add: D_def)
    next
      case False
      then have "runnables s - {rp} = runnables s" by (auto simp: runnables_def)
      with False Q show ?thesis by (auto simp: D_def)
    qed
    then obtain s1 Q1 where s1: "D = Some s1" and Q1: "queues s1 (runnables s - {rp}) Q1"
      and l: "link_view s1 = link_view s" by blast
    define s2 where "s2 = upd_proc rp (\<lambda>p. p\<lparr>p_priority := wrap8 (p_priority p - 1)\<rparr>) s1"
    have run2: "runnables s2 = runnables s" using runnables_link [OF l] by (simp add: s2_def)
    have Q2: "queues s2 (runnables s2 - {rp}) Q1"
      unfolding s2_def using Q1 runnables_link [OF l] by (simp add: queues_prio)
    have "valid_q (p_priority (procs s rp))" "0 \<le> p_max_priority (procs s rp)"
      using prio_okD [OF p v] by auto
    then have "valid_q (wrap8 (p_priority (procs s rp) - 1))"
      using raise(2) by (simp add: valid_q_def wrap8_id)
    then have p2: "prio_ok s2"
      using p unfolding prio_ok_def s2_def by (auto simp: link_viewD [OF l])
    have ptr2: "valid_nr (proc_ptr s2)" using ptr link_viewD(7) [OF l] by (simp add: s2_def upd_proc_def)
    have v2: "sched_view s2 = sched_view s"
      using link_sched_view [OF l] by (simp add: s2_def sched_view_prio)
    have r2: "proc_is_runnable (procs s2 rp) \<longleftrightarrow> proc_is_runnable (procs s rp)"
      using link_viewD(1) [OF l] by (simp add: s2_def proc_is_runnable_def)
    have b: "balance_one rp t s = Option.bind (if proc_is_runnable (procs s2 rp) then enqueue rp s2 else Some s2)
        (\<lambda>s3. Some (wrap32 (t + p_quantum_size (procs s1 rp)), s3))"
      using raise s1 by (simp add: balance_one_def D_def s2_def Let_def)
    show ?thesis
    proof (cases "proc_is_runnable (procs s2 rp)")
      case True
      from enqueue_inv [OF Q2 p2 ptr2 v True] obtain s3 where s3: "enqueue rp s2 = Some s3" "runq_inv s3" by blast
      with enqueue_sched_view [OF s3(1)] v2 b True show ?thesis by simp
    next
      case False
      then have "runnables s2 - {rp} = runnables s2" by (auto simp: runnables_def)
      with Q2 p2 ptr2 have "runq_inv s2" by (auto simp: runq_inv_def)
      with False b v2 show ?thesis by simp
    qed
  qed
qed

lemma balance_loop_inv:
  assumes "runq_inv s" and "\<forall>rp \<in> set rps. valid_nr rp"
  shows "\<exists>t' s'. balance_loop rps t s = Some (t', s') \<and> runq_inv s' \<and> sched_view s' = sched_view s"
  using assms
proof (induction rps arbitrary: t s)
  case (Cons rp rps)
  from balance_one_inv [OF Cons.prems(1), of rp t] Cons.prems(2) obtain t1 s1
    where b: "balance_one rp t s = Some (t1, s1)" and i: "runq_inv s1" and v: "sched_view s1 = sched_view s"
    by auto
  from Cons.IH [OF i, of t1] Cons.prems(2) b v show ?case by auto
qed simp

section \<open>Picking a process\<close>

lemma pick_from_state:
  "snd (pick_from qs s) = s \<or> (\<exists>rp. fst (pick_from qs s) = Some rp \<and> snd (pick_from qs s) = s\<lparr>bill_ptr := rp\<rparr>)"
  by (induction qs s rule: pick_from.induct) (auto split: option.splits)

lemma pick_from_cfg_off: "pick_from_cfg False qs s = Some (pick_from qs s)"
  by (induction qs s rule: pick_from.induct) (auto split: option.splits)

lemma pick_from_cfg_on:
  "pick_from_cfg True qs s =
     (case fst (pick_from qs s) of None \<Rightarrow> Some (pick_from qs s)
      | Some rp \<Rightarrow> if proc_is_runnable (procs s rp) then None else Some (pick_from qs s))"
  by (induction qs s rule: pick_from.induct) (auto split: option.splits)

lemma pick_proc_empty:
  assumes i: "runq_inv s" and n: "fst (pick_proc s) = None"
  shows "runnables s = {}"
proof -
  obtain Q where Q: "queues s (runnables s) Q" and p: "prio_ok s" using i by (auto simp: runq_inv_def)
  from pick_from_spec [OF _ Q, of "[0..NR_SCHED_QUEUES - 1]"] n
  have e: "\<And>q. valid_q q \<Longrightarrow> Q q = []" by (auto simp: pick_proc_def valid_q_def)
  have "m \<notin> runnables s" for m
  proof
    assume m: "m \<in> runnables s"
    then have v: "valid_q (p_priority (procs s m))" using prio_okD(1) [OF p] by (simp add: runnables_def)
    from queues_set [OF Q v] e [OF v] m show False by auto
  qed
  then show ?thesis by blast
qed

lemma upto_split_less:
  assumes "[a..b] = us @ q # vs" and "(a::int) \<le> x" and "x < q"
  shows "x \<in> set us"
proof -
  have "sorted [a..b]" by simp
  then have s: "sorted (us @ q # vs)" unfolding assms(1) .
  have "q \<in> set [a..b]" unfolding assms(1) by simp
  with assms(2,3) have "x \<in> set [a..b]" by simp
  then have "x \<in> set (us @ q # vs)" unfolding assms(1) .
  with s assms(3) show ?thesis by (auto simp: sorted_append)
qed

lemma pick_proc_best:
  assumes i: "runq_inv s" and n: "fst (pick_proc s) = Some rp"
  shows "rp \<in> runnables s" and "\<And>m. m \<in> runnables s \<Longrightarrow> p_priority (procs s rp) \<le> p_priority (procs s m)"
    and "rdy_head s (p_priority (procs s rp)) = Some rp"
proof -
  obtain Q where Q: "queues s (runnables s) Q" and p: "prio_ok s" using i by (auto simp: runq_inv_def)
  from pick_from_spec [OF _ Q, of "[0..NR_SCHED_QUEUES - 1]"] n obtain us q vs
    where split: "[0..NR_SCHED_QUEUES - 1] = us @ q # vs" and e: "\<And>x. x \<in> set us \<Longrightarrow> Q x = []"
      and ne: "Q q \<noteq> []" and rp: "rp = hd (Q q)"
    by (auto simp: pick_proc_def valid_q_def)
  have "q \<in> set [0..NR_SCHED_QUEUES - 1]" by (simp only: split) simp
  then have v: "valid_q q" by (simp add: valid_q_def)
  from ne rp have "rp \<in> set (Q q)" by simp
  with queues_set [OF Q v] have r: "rp \<in> runnables s" and pr: "p_priority (procs s rp) = q" by auto
  show "rp \<in> runnables s" by (rule r)
  show "rdy_head s (p_priority (procs s rp)) = Some rp"
    using queues_chain [OF Q v] ne rp pr by (cases "Q q") auto
  fix m assume m: "m \<in> runnables s"
  then have vm: "valid_q (p_priority (procs s m))" using prio_okD(1) [OF p] by (simp add: runnables_def)
  show "p_priority (procs s rp) \<le> p_priority (procs s m)"
  proof (rule ccontr)
    assume "\<not> ?thesis"
    then have "p_priority (procs s m) \<in> set us"
      using upto_split_less [OF split, of "p_priority (procs s m)"] vm pr by (simp add: valid_q_def)
    from e [OF this] queues_set [OF Q vm] m show False by auto
  qed
qed

section \<open>The timer queue of the kernel\<close>

definition timers_ok :: "kstate \<Rightarrow> bool" where
  "timers_ok s \<longleftrightarrow> (\<exists>xs. timer_queue (clock_timers s) xs \<and>
     next_timeout s = (case xs of [] \<Rightarrow> TMR_NEVER | x # _ \<Rightarrow> tmr_exp_time (tmr (clock_timers s) x)))"

text \<open>The state without the timer queue.\<close>

definition timer_view :: "kstate \<Rightarrow> kstate" where
  "timer_view s = s\<lparr>clock_timers := \<lparr>tmrs = None, tmr = (\<lambda>_. \<lparr>tmr_next = None, tmr_exp_time = 0,
     tmr_func = WD_shutdown, tmr_arg = 0\<rparr>)\<rparr>, next_timeout := 0\<rparr>"

lemma set_timer_spec:
  assumes q: "timer_queue (clock_timers s) xs"
  shows "\<exists>s'. set_timer tp t w s = Some s' \<and> timers_ok s' \<and> timer_view s' = timer_view s \<and>
    timer_queue (clock_timers s') (timer_insert (\<lambda>x. tmr_exp_time (tmr (clock_timers s) x)) tp t (remove1 tp xs)) \<and>
    tmr_exp_time (tmr (clock_timers s') tp) = t \<and> tmr_func (tmr (clock_timers s') tp) = w \<and>
    (\<forall>x. tmr_arg (tmr (clock_timers s') x) = tmr_arg (tmr (clock_timers s) x)) \<and>
    (\<forall>x. x \<noteq> tp \<longrightarrow> tmr_exp_time (tmr (clock_timers s') x) = tmr_exp_time (tmr (clock_timers s) x) \<and>
       tmr_func (tmr (clock_timers s') x) = tmr_func (tmr (clock_timers s) x))"
proof -
  let ?ys = "timer_insert (\<lambda>x. tmr_exp_time (tmr (clock_timers s) x)) tp t (remove1 tp xs)"
  from settimer_spec [OF q, of tp t w] obtain q'
    where run: "tmrs_settimer tp t w (clock_timers s) = Some (tmrs_head_time (clock_timers s), tmrs_head_time q', q')"
      and tq: "timer_queue q' ?ys" and tp: "tmr_exp_time (tmr q' tp) = t" "tmr_func (tmr q' tp) = w"
      "tmr_arg (tmr q' tp) = tmr_arg (tmr (clock_timers s) tp)"
      and o: "\<And>x. x \<noteq> tp \<Longrightarrow> tmr_exp_time (tmr q' x) = tmr_exp_time (tmr (clock_timers s) x) \<and>
       tmr_func (tmr q' x) = tmr_func (tmr (clock_timers s) x) \<and> tmr_arg (tmr q' x) = tmr_arg (tmr (clock_timers s) x)"
    by blast
  have "?ys \<noteq> []" by (simp add: timer_insert_def)
  then obtain h zs where ys: "?ys = h # zs" by (cases ?ys) auto
  with timer_queue_chain [OF tq] have h: "tmrs q' = Some h" by simp
  define s' where "s' = s\<lparr>clock_timers := q', next_timeout := tmr_exp_time (tmr q' h)\<rparr>"
  have "set_timer tp t w s = Some s'" by (simp add: set_timer_def run h s'_def)
  moreover have "timers_ok s'"
    unfolding timers_ok_def using tq ys by (auto simp: s'_def intro!: exI [of _ ?ys])
  moreover have "timer_view s' = timer_view s" by (simp add: s'_def timer_view_def)
  moreover have "tmr_arg (tmr q' x) = tmr_arg (tmr (clock_timers s) x)" for x
    using o [of x] tp(3) by (cases "x = tp") auto
  ultimately show ?thesis using tq tp o by (auto simp: s'_def)
qed

lemma reset_timer_spec:
  assumes q: "timer_queue (clock_timers s) xs"
  shows "\<exists>s'. reset_timer tp s = Some s' \<and> timers_ok s' \<and> timer_view s' = timer_view s \<and>
    timer_queue (clock_timers s') (remove1 tp xs) \<and> tmr_exp_time (tmr (clock_timers s') tp) = TMR_NEVER \<and>
    (\<forall>x. tmr_arg (tmr (clock_timers s') x) = tmr_arg (tmr (clock_timers s) x) \<and>
       tmr_func (tmr (clock_timers s') x) = tmr_func (tmr (clock_timers s) x))"
proof -
  from clrtimer_spec [OF q, of tp] obtain q' nt
    where run: "tmrs_clrtimer tp (clock_timers s) = Some (tmrs_head_time (clock_timers s), nt, q')"
      and tq: "timer_queue q' (remove1 tp xs)" and tp: "tmr_exp_time (tmr q' tp) = TMR_NEVER"
      and f: "tmr_func (tmr q' tp) = tmr_func (tmr (clock_timers s) tp)"
      "tmr_arg (tmr q' tp) = tmr_arg (tmr (clock_timers s) tp)"
      and o: "\<And>x. x \<noteq> tp \<Longrightarrow> tmr_func (tmr q' x) = tmr_func (tmr (clock_timers s) x) \<and>
        tmr_arg (tmr q' x) = tmr_arg (tmr (clock_timers s) x)"
    by blast
  define s' where "s' = s\<lparr>clock_timers := q', next_timeout :=
    (case tmrs q' of None \<Rightarrow> TMR_NEVER | Some h \<Rightarrow> tmr_exp_time (tmr q' h))\<rparr>"
  have "reset_timer tp s = Some s'" by (simp add: reset_timer_def run s'_def)
  moreover have "timers_ok s'"
    unfolding timers_ok_def using tq timer_queue_chain [OF tq]
    by (auto simp: s'_def intro!: exI [of _ "remove1 tp xs"] split: list.splits)
  moreover have "timer_view s' = timer_view s" by (simp add: s'_def timer_view_def)
  moreover have "tmr_arg (tmr q' x) = tmr_arg (tmr (clock_timers s) x) \<and> tmr_func (tmr q' x) = tmr_func (tmr (clock_timers s) x)" for x
    using o [of x] f by (cases "x = tp") auto
  ultimately show ?thesis using tq tp by (auto simp: s'_def)
qed

lemma runq_inv_timer_view:
  assumes "timer_view s' = timer_view s"
  shows "runq_inv s' = runq_inv s"
proof -
  from arg_cong [OF assms, of procs] arg_cong [OF assms, of rdy_head] arg_cong [OF assms, of rdy_tail]
    arg_cong [OF assms, of proc_ptr]
  have "procs s' = procs s" "rdy_head s' = rdy_head s" "rdy_tail s' = rdy_tail s" "proc_ptr s' = proc_ptr s"
    by (simp_all add: timer_view_def)
  then show ?thesis by (simp add: runq_inv_def queues_def prio_ok_def runnables_def)
qed

lemma sched_view_timers:
  assumes "sched_view s' = sched_view s"
  shows "clock_timers s' = clock_timers s" "next_timeout s' = next_timeout s" "realtime s' = realtime s"
    "intr_off s' = intr_off s" "locklevel s' = locklevel s"
  using arg_cong [OF assms, of clock_timers] arg_cong [OF assms, of next_timeout]
    arg_cong [OF assms, of realtime] arg_cong [OF assms, of intr_off] arg_cong [OF assms, of locklevel]
  by (simp_all add: sched_view_def)

lemma balance_queues_inv:
  assumes i: "runq_inv s" and t: "timers_ok s" and l: "lock_ok s" and off: "\<not> intr_off s"
  shows "\<exists>s' n. balance_queues s = Some s' \<and> runq_inv s' \<and> timers_ok s' \<and> 100 \<le> n \<and>
    tmr_exp_time (tmr (clock_timers s') QueueTimer) = wrap32 (realtime s + n) \<and>
    tmr_func (tmr (clock_timers s') QueueTimer) = WD_balance_queues"
proof -
  have ll: "locklevel s = 0" using l off by (simp add: lock_ok_def)
  define s1 where "s1 = with_lock True 1 s"
  have r: "reallock s = Some s1" using off ll by (simp add: reallock_eq s1_def)
  have "runq_inv s1" using i by (simp add: s1_def)
  from balance_loop_inv [OF this, of "[- NR_TASKS..NR_PROCS - 1]" 0] obtain ta s2
    where b: "balance_loop [- NR_TASKS..NR_PROCS - 1] 0 s1 = Some (ta, s2)"
      and i2: "runq_inv s2" and v2: "sched_view s2 = sched_view s1"
    by (auto simp: valid_nr_def)
  note e2 = sched_view_timers [OF v2]
  define s3 where "s3 = with_lock False 0 s2"
  have s3: "realunlock s2 = Some s3"
    using e2(4,5) by (simp add: realunlock_def s3_def s1_def with_lock_def Let_def)
  have i3: "runq_inv s3" using i2 by (simp add: s3_def)
  from t obtain xs where "timer_queue (clock_timers s) xs" by (auto simp: timers_ok_def)
  then have q3: "timer_queue (clock_timers s3) xs" using e2(1) by (simp add: s3_def s1_def with_lock_def)
  have u3: "get_uptime s3 = realtime s" using e2(3) by (simp add: s3_def s1_def with_lock_def get_uptime_def)
  from set_timer_spec [OF q3, of QueueTimer "wrap32 (realtime s + max 100 ta)" WD_balance_queues]
  obtain s' where s': "set_timer QueueTimer (wrap32 (realtime s + max 100 ta)) WD_balance_queues s3 = Some s'"
    and t': "timers_ok s'" and v': "timer_view s' = timer_view s3"
    and e': "tmr_exp_time (tmr (clock_timers s') QueueTimer) = wrap32 (realtime s + max 100 ta)"
      "tmr_func (tmr (clock_timers s') QueueTimer) = WD_balance_queues"
    by blast
  have "balance_queues s = Some s'"
    by (simp only: balance_queues_def r b s3 s' u3 Let_def Option.bind.simps prod.case)
  moreover have "runq_inv s'" using runq_inv_timer_view [OF v'] i3 by simp
  ultimately show ?thesis using t' e' by (intro exI [of _ s'] exI [of _ "max 100 ta"]) simp
qed

section \<open>A small system\<close>

text \<open>
  A concrete kernel state for the examples: the idle task, the process manager and a user
  process are ready, the clock and system tasks and the file server wait for any message, the
  slot that stands for the hardware is stopped, and every other slot is free.
\<close>

definition msg0 :: kipc_msg where
  "msg0 = \<lparr>m_source = 0, m_type = 0, m_data1 = 0, m_data2 = 0, m_data3 = 0, m_data4 = 0,
     m_data5 = 0, m_data6 = 0, m_data7 = 0, m_data8 = 0, m_data9 = 0\<rparr>"

definition sample_proc :: "int \<Rightarrow> proc" where
  "sample_proc n = \<lparr>p_nr = n,
     p_priv = (if n < 12 then n + 4 else USER_PRIV_ID),
     p_rts_flags = (if n = -4 \<or> n = 0 \<or> n = 11 then 0
       else if n = -3 \<or> n = -2 \<or> n = 1 then RTS_RECEIVING else if n = -1 then RTS_PROC_STOP
       else RTS_SLOT_FREE),
     p_misc_flags = 0,
     p_priority = (if n = -4 then 15 else if n = 11 then 7 else if n = 0 then 3 else 0),
     p_max_priority = 0, p_ticks_left = 8, p_quantum_size = 8,
     p_memmap = (\<lambda>_. \<lparr>mem_vir = 0, mem_phys = 0, mem_len = 16\<rparr>),
     p_user_time = 0, p_sys_time = 0, p_virt_left = 0, p_prof_left = 0,
     p_nextready = None, p_caller_q = None, p_q_link = None,
     p_getfrom_e = ENDPT_ANY, p_sendto_e = ENDPT_NONE, p_pending = 0, p_endpoint = n,
     p_sendmsg = msg0, p_delivermsg = msg0, p_delivermsg_vir = 0, p_delivermsg_lin = 0,
     p_retreg = 0, p_psw = 0, syscall_0x80 = False\<rparr>"

definition sample_priv :: "int \<Rightarrow> priv" where
  "sample_priv i = \<lparr>s_proc_nr = i - 4, s_id = i, s_flags = (if i < 15 then SYS_PROC OR PREEMPTIBLE else 0),
     s_asyntab = 0, s_asynsize = 0, s_trap_mask = 0xffff, s_ipc_to = unset_sys_bit (\<lambda>_. 0xffff) i,
     s_k_call_mask = (\<lambda>_. 0xffff), s_notify_pending = (\<lambda>_. 0), s_int_pending = 0, s_sig_pending = 0,
     s_nr_io_range = 0, s_io_tab = (\<lambda>_. \<lparr>ior_base = 0, ior_limit = 0\<rparr>),
     s_nr_mem_range = 0, s_mem_tab = (\<lambda>_. \<lparr>mr_base = 0, mr_limit = 0\<rparr>),
     s_nr_irq = 0, s_irq_tab = (\<lambda>_. 0), s_grant_table = 0, s_grant_entries = 0\<rparr>"

definition sample :: kstate where
  "sample = \<lparr>procs = sample_proc, privs = sample_priv,
     rdy_head = (\<lambda>q. if q = 15 then Some (-4) else if q = 7 then Some 11 else if q = 3 then Some 0 else None),
     rdy_tail = (\<lambda>q. if q = 15 then Some (-4) else if q = 7 then Some 11 else if q = 3 then Some 0 else None),
     proc_ptr = 0, bill_ptr = -4, intr_off = False, locklevel = 0, who_p = 0, who_e = 0,
     clock_timers = \<lparr>tmrs = None, tmr = (\<lambda>t. \<lparr>tmr_next = None, tmr_exp_time = TMR_NEVER,
       tmr_func = WD_cause_alarm, tmr_arg = 0\<rparr>)\<rparr>,
     next_timeout = TMR_NEVER, realtime = 0, lost_ticks = 0, boottime = 0,
     proc_load_history = (\<lambda>_. 0), proc_last_slot = 0, last_clock = 0,
     system_hz = 60, kernel_in_panic = False,
     irq_hooks = (\<lambda>_. \<lparr>h_next = None, h_handler = IH_generic, h_irq = 0, h_id = 0, h_proc_nr_e = ENDPT_NONE, h_notify_id = 0,
       h_policy = 0\<rparr>),
     irq_handlers = (\<lambda>_. None), irq_actids = (\<lambda>_. 0), irq_use = 0, irq_masked = (\<lambda>_. True),
     umsg = (\<lambda>a. if 0 \<le> a \<and> a < 4096 then Some msg0 else None), uvmsg = (\<lambda>_ _. None),
     uword = (\<lambda>_ _. None), uword_wr = (\<lambda>_ _. False), stack_junk = msg0\<rparr>"

lemma sample_runq_inv: "runq_inv sample"
proof -
  let ?Q = "\<lambda>q. if q = 15 then [-4] else if q = 7 then [11] else if q = 3 then [0] else [] :: int list"
  have run: "runnables sample = {-4, 0, 11}"
    by (auto simp: runnables_def sample_def sample_proc_def proc_is_runnable_def valid_nr_def)
  have "queues sample {-4, 0, 11} ?Q"
    by (auto simp: queues_def sample_def sample_proc_def)
  moreover have "prio_ok sample"
    by (simp add: prio_ok_def sample_def sample_proc_def valid_q_def)
  moreover have "valid_nr (proc_ptr sample)" by (simp add: sample_def valid_nr_def)
  ultimately show ?thesis unfolding runq_inv_def run by blast
qed

lemma sample_lock_ok: "lock_ok sample" "\<not> intr_off sample"
  by (simp_all add: lock_ok_def sample_def)

lemma sample_timers_ok: "timers_ok sample"
  by (auto simp: timers_ok_def timer_queue_def sample_def intro!: exI [of _ "[]"])

section \<open>Properties of the scheduler\<close>

text \<open>
  C8. Setting and clearing runtime flags keeps the run queues: whatever flags a process has,
  \<^verbatim>\<open>RTS_SET\<close> and \<^verbatim>\<open>RTS_UNSET\<close> return, the queue of each priority holds afterwards exactly the
  runnable processes of that priority in a linked list with a correct tail, and apart from
  what the scheduler owns (links, priority, ticks, the preemption mark) only the flags of
  that process have changed, as asked.
\<close>

theorem rts_flags_keep_runq:
  assumes "runq_inv s" and "valid_nr rp" and "f \<noteq> 0"
  shows "(\<exists>s'. RTS_SET rp f s = Some s' \<and> runq_inv s' \<and>
      sched_view s' = sched_view (set_rts rp (p_rts_flags (procs s rp) OR f) s)) \<and>
    (\<exists>s'. RTS_UNSET rp f s = Some s' \<and> runq_inv s' \<and>
      sched_view s' = sched_view (set_rts rp (p_rts_flags (procs s rp) AND NOT f) s))"
  using RTS_SET_inv [OF assms] RTS_UNSET_inv [OF assms(1,2), of f] RTS_SET_sched_view RTS_UNSET_sched_view
  by blast

theorem rts_flags_keep_runq_witness:
  "runq_inv sample \<and> (\<exists>s'. RTS_SET 11 RTS_RECEIVING sample = Some s' \<and> runq_inv s') \<and>
   (\<exists>s'. RTS_UNSET 1 RTS_RECEIVING sample = Some s' \<and> runq_inv s')"
  using rts_flags_keep_runq [OF sample_runq_inv, of 11 RTS_RECEIVING]
    rts_flags_keep_runq [OF sample_runq_inv, of 1 RTS_RECEIVING] sample_runq_inv
  by (auto simp: valid_nr_def)

text \<open>
  C27. \<^verbatim>\<open>pick_proc\<close> schedules by priority. In a kernel without \<^verbatim>\<open>CONFIG_DEBUG_KERNEL_VMASSERT\<close>, which is the
  one modelled elsewhere, it returns a process that is runnable and whose priority no runnable process beats, the
  head of its queue, and returns none only when nothing is runnable; it changes at most the process to bill.
  With that option it panics whenever any process is runnable: the assertion on the process picked is the
  negation of what holds of it.
\<close>

theorem pick_proc_highest:
  assumes "runq_inv s"
  shows "pick_proc_cfg False s = Some (pick_proc s) \<and>
    (case pick_proc s of
      (None, s') \<Rightarrow> runnables s = {} \<and> s' = s
    | (Some rp, s') \<Rightarrow> rp \<in> runnables s \<and> rdy_head s (p_priority (procs s rp)) = Some rp \<and>
        (\<forall>n \<in> runnables s. p_priority (procs s rp) \<le> p_priority (procs s n)) \<and>
        (s' = s \<or> s' = s\<lparr>bill_ptr := rp\<rparr>)) \<and>
    (pick_proc_cfg True s = None \<longleftrightarrow> runnables s \<noteq> {})"
proof (cases "fst (pick_proc s)")
  case None
  then show ?thesis
    using pick_proc_empty [OF assms] pick_from_state [of "[0..NR_SCHED_QUEUES - 1]" s]
    by (auto simp: pick_proc_def pick_proc_cfg_def pick_from_cfg_off pick_from_cfg_on split: prod.splits)
next
  case (Some rp)
  then have "rp \<in> runnables s" using pick_proc_best [OF assms Some] by blast
  then have "pick_proc_cfg True s = None \<and> runnables s \<noteq> {}"
    using Some by (auto simp: pick_proc_def pick_proc_cfg_def pick_from_cfg_on runnables_def)
  then show ?thesis
    using Some pick_proc_best [OF assms Some] pick_from_state [of "[0..NR_SCHED_QUEUES - 1]" s]
    by (auto simp: pick_proc_def pick_proc_cfg_def pick_from_cfg_off split: prod.splits)
qed

theorem pick_proc_highest_witness:
  "runq_inv sample \<and> fst (pick_proc sample) = Some 0 \<and> p_priority (procs sample 0) \<le> p_priority (procs sample 11) \<and>
   pick_proc_cfg True sample = None"
proof -
  have p: "fst (pick_proc sample) = Some 0"
    by (simp add: pick_proc_def sample_def upto.simps)
  have r: "11 \<in> runnables sample"
    by (simp add: runnables_def valid_nr_def sample_def sample_proc_def proc_is_runnable_def)
  from pick_proc_highest [OF sample_runq_inv] have "case pick_proc sample of (None, s') \<Rightarrow> True
      | (Some rp, s') \<Rightarrow> \<forall>n \<in> runnables sample. p_priority (procs sample rp) \<le> p_priority (procs sample n)"
    and n: "pick_proc_cfg True sample = None \<longleftrightarrow> runnables sample \<noteq> {}"
    by (auto split: prod.splits option.splits)
  with p r have "p_priority (procs sample 0) \<le> p_priority (procs sample 11)" by (auto split: prod.splits)
  with p r n sample_runq_inv show ?thesis by blast
qed

text \<open>
  C31. The locking variants of the flag macros do exactly what the plain ones do, and restore
  the interrupt state, when the lock is used as intended (interrupts are enabled only when
  no lock is held).
\<close>

theorem rts_lock_equiv:
  assumes "lock_ok s"
  shows "RTS_LOCK_SET rp f s = RTS_SET rp f s \<and> RTS_LOCK_UNSET rp f s = RTS_UNSET rp f s"
  using RTS_LOCK_SET_eq [OF assms] RTS_LOCK_UNSET_eq [OF assms] by blast

theorem rts_lock_equiv_witness:
  "lock_ok sample \<and> RTS_LOCK_SET 11 RTS_RECEIVING sample = RTS_SET 11 RTS_RECEIVING sample"
  using rts_lock_equiv [OF sample_lock_ok(1), of 11 RTS_RECEIVING] sample_lock_ok by blast



end
