(* ===== verification/Ipc_View.thy ===== *)
theory Ipc_View
  imports Kernel_State
begin

text \<open>
  The contract of blocking interprocess communication, apart from messages and scheduling:
  for each process whether it is blocked sending or receiving and with whom, and the queue of
  its blocked callers. Two facts hold together: the callers of a process are queued on it,
  each once, and nobody waits in a circle. This is what makes \<^verbatim>\<open>deadlock\<close> end and every
  blocked process reachable. \<^verbatim>\<open>Kernel_Ipc\<close> shows that the routines of \<^verbatim>\<open>kernel/proc.c\<close>
  implement the operations on this view.
\<close>

section \<open>The view\<close>

record ipcst =
  i_empty :: bool
  i_recv :: bool
  i_send :: bool
  i_dead :: bool
  i_sendto :: int
  i_getfrom :: int
  i_ep :: int
  i_callq :: "int option"
  i_link :: "int option"

type_synonym ipcview = "int \<Rightarrow> ipcst"

definition ipcp :: "proc \<Rightarrow> ipcst" where
  "ipcp p = \<lparr>i_empty = has_any (p_rts_flags p) RTS_SLOT_FREE,
     i_recv = has_any (p_rts_flags p) RTS_RECEIVING, i_send = has_any (p_rts_flags p) RTS_SENDING,
     i_dead = has_any (p_rts_flags p) RTS_NO_ENDPOINT,
     i_sendto = p_sendto_e p, i_getfrom = p_getfrom_e p, i_ep = p_endpoint p,
     i_callq = p_caller_q p, i_link = p_q_link p\<rparr>"

definition ipcv :: "kstate \<Rightarrow> ipcview" where
  "ipcv s n = ipcp (procs s n)"

abbreviation i_links :: "ipcview \<Rightarrow> int \<Rightarrow> int option" where
  "i_links v x \<equiv> i_link (v x)"

definition v_set_link :: "int \<Rightarrow> int option \<Rightarrow> ipcview \<Rightarrow> ipcview" where
  "v_set_link x l v = v(x := (v x)\<lparr>i_link := l\<rparr>)"

definition v_set_callq :: "int \<Rightarrow> int option \<Rightarrow> ipcview \<Rightarrow> ipcview" where
  "v_set_callq d l v = v(d := (v d)\<lparr>i_callq := l\<rparr>)"

interpretation callq: ptr_list "\<lambda>v. i_callq (v d)" "v_set_callq d" "\<lambda>v x. i_links v x" v_set_link for d
  by unfold_locales (auto simp: v_set_link_def v_set_callq_def)

section \<open>Who waits for whom\<close>

definition waits :: "ipcview \<Rightarrow> int \<Rightarrow> int option" where
  "waits v n =
     (if i_recv (v n) then (if i_getfrom (v n) = ENDPT_ANY then None else Some (ENDPOINT_P (i_getfrom (v n))))
      else if i_send (v n) then Some (ENDPOINT_P (i_sendto (v n)))
      else None)"

definition acyc :: "(int \<Rightarrow> int option) \<Rightarrow> bool" where
  "acyc w \<longleftrightarrow> (\<forall>n. valid_nr n \<longrightarrow> (\<exists>xs. chain w (Some n) xs))"

lemma acyc_upd:
  assumes a: "acyc w" and c: "chain w r zs" and n: "x \<notin> set zs"
  shows "acyc (w(x := r))"
  unfolding acyc_def
proof (intro allI impI)
  fix m assume "valid_nr m"
  with a obtain xs where xs: "chain w (Some m) xs" by (auto simp: acyc_def)
  show "\<exists>xs. chain (w(x := r)) (Some m) xs"
  proof (cases "x \<in> set xs")
    case False
    with xs show ?thesis by (auto intro: exI [of _ xs])
  next
    case True
    then obtain us vs where "xs = us @ x # vs" by (auto dest: split_list)
    with xs have "chain w (Some m) ((us @ [x]) @ vs)" by simp
    from chain_splice [OF this _ _ c] n have "chain (w(x := r)) (Some m) ((us @ [x]) @ zs)" by simp
    then show ?thesis by blast
  qed
qed

section \<open>The invariant\<close>

text \<open>\<open>e\<close> is the endpoint of a process that can be waited for.\<close>

definition ep_ok :: "ipcview \<Rightarrow> int \<Rightarrow> bool" where
  "ep_ok v e \<longleftrightarrow> (let d = ENDPOINT_P e in
     valid_nr d \<and> \<not> i_empty (v d) \<and> \<not> i_dead (v d) \<and> i_ep (v d) = e)"

definition blocked_ok :: "ipcview \<Rightarrow> bool" where
  "blocked_ok v \<longleftrightarrow> (\<forall>n. valid_nr n \<longrightarrow>
     (i_send (v n) \<longrightarrow> \<not> i_empty (v n) \<and> ep_ok v (i_sendto (v n))) \<and>
     (i_recv (v n) \<longrightarrow> \<not> i_empty (v n) \<and> (i_getfrom (v n) = ENDPT_ANY \<or> ep_ok v (i_getfrom (v n)))) \<and>
     (i_send (v n) \<longrightarrow> i_recv (v n) \<longrightarrow> i_getfrom (v n) = i_sendto (v n)) \<and>
     (\<not> i_empty (v n) \<longrightarrow> ENDPOINT_P (i_ep (v n)) = n))"

definition senders :: "ipcview \<Rightarrow> int \<Rightarrow> int set" where
  "senders v d = {n. valid_nr n \<and> i_send (v n) \<and> ENDPOINT_P (i_sendto (v n)) = d}"

definition reachable_ep :: "ipcview \<Rightarrow> int \<Rightarrow> bool" where
  "reachable_ep v d \<longleftrightarrow> valid_nr d \<and> \<not> i_empty (v d) \<and> \<not> i_dead (v d)"

definition callers_ok :: "ipcview \<Rightarrow> (int \<Rightarrow> int list) \<Rightarrow> bool" where
  "callers_ok v C \<longleftrightarrow> (\<forall>d. reachable_ep v d \<longrightarrow>
     chain (i_links v) (i_callq (v d)) (C d) \<and> set (C d) = senders v d)"

definition ipc_ok :: "ipcview \<Rightarrow> bool" where
  "ipc_ok v \<longleftrightarrow> blocked_ok v \<and> acyc (waits v) \<and> (\<exists>C. callers_ok v C)"

lemma blocked_okD:
  assumes "blocked_ok v" and "valid_nr n"
  shows "i_send (v n) \<Longrightarrow> \<not> i_empty (v n)" "i_send (v n) \<Longrightarrow> ep_ok v (i_sendto (v n))"
    "i_recv (v n) \<Longrightarrow> \<not> i_empty (v n)"
    "i_recv (v n) \<Longrightarrow> i_getfrom (v n) \<noteq> ENDPT_ANY \<Longrightarrow> ep_ok v (i_getfrom (v n))"
    "i_send (v n) \<Longrightarrow> i_recv (v n) \<Longrightarrow> i_getfrom (v n) = i_sendto (v n)"
    "\<not> i_empty (v n) \<Longrightarrow> ENDPOINT_P (i_ep (v n)) = n"
  using assms unfolding blocked_ok_def by blast+

lemma callers_okD:
  assumes "callers_ok v C" and "reachable_ep v d"
  shows "chain (i_links v) (i_callq (v d)) (C d)" "set (C d) = senders v d" "distinct (C d)"
  using assms by (auto simp: callers_ok_def dest: chain_distinct)

lemma ep_ok_reachable: "ep_ok v e \<Longrightarrow> reachable_ep v (ENDPOINT_P e)"
  by (simp add: ep_ok_def reachable_ep_def Let_def)

lemma waits_valid:
  assumes "blocked_ok v" and "valid_nr n" and "waits v n = Some m"
  shows "valid_nr m"
  using assms blocked_okD [OF assms(1,2)]
  by (auto simp: waits_def ep_ok_def Let_def split: if_splits)

lemma path_valid:
  assumes "blocked_ok v" and "valid_nr n" and "chain (waits v) (Some n) xs"
  shows "set xs \<subseteq> {x. valid_nr x}"
  using assms(2,3)
proof (induction xs arbitrary: n)
  case (Cons x xs)
  then have x: "valid_nr x" and c: "chain (waits v) (waits v x) xs" by auto
  show ?case
  proof (cases "waits v x")
    case None
    with c x show ?thesis by simp
  next
    case (Some m)
    with Cons.IH [of m] waits_valid [OF assms(1) x Some] c x show ?thesis by simp
  qed
qed simp

text \<open>Other queues do not see a write to a cell of one queue.\<close>

lemma callq_wr_other:
  fixes v :: ipcview and l :: "int option"
  assumes "us \<noteq> [] \<Longrightarrow> last us \<notin> set xs" and "d' \<noteq> d"
  defines "v' \<equiv> cell_wr (v_set_callq d) v_set_link (cell_after Head us) l v"
  shows "chain (i_links v') (i_callq (v' d')) xs = chain (i_links v) (i_callq (v d')) xs"
proof (cases "us = []")
  case True
  have "i_links v' = i_links v" "i_callq (v' d') = i_callq (v d')"
    using True assms(2) by (auto simp: v'_def cell_wr_def v_set_callq_def)
  then show ?thesis by simp
next
  case False
  have "i_links v' = (i_links v)(last us := l)" and "i_callq (v' d') = i_callq (v d')"
    using False by (auto simp: v'_def cell_wr_def cell_after_last v_set_link_def)
  with assms(1) False show ?thesis by simp
qed

text \<open>What a write to a cell changes: nothing but links.\<close>

lemma cell_wr_view [simp]:
  fixes v :: ipcview
  defines "v' \<equiv> \<lambda>d c l. cell_wr (v_set_callq d) v_set_link c l v"
  shows "i_empty (v' d c l n) = i_empty (v n)" "i_recv (v' d c l n) = i_recv (v n)"
    "i_send (v' d c l n) = i_send (v n)" "i_dead (v' d c l n) = i_dead (v n)"
    "i_sendto (v' d c l n) = i_sendto (v n)" "i_getfrom (v' d c l n) = i_getfrom (v n)"
    "i_ep (v' d c l n) = i_ep (v n)"
  by (auto simp: v'_def cell_wr_def v_set_callq_def v_set_link_def split: cell.splits)

lemma view_cong:
  assumes "\<And>n. i_empty (v' n) = i_empty (v n)" "\<And>n. i_dead (v' n) = i_dead (v n)"
    "\<And>n. i_ep (v' n) = i_ep (v n)"
  shows "ep_ok v' = ep_ok v" "reachable_ep v' = reachable_ep v"
  using assms by (auto simp: ep_ok_def reachable_ep_def fun_eq_iff Let_def)

section \<open>The operations\<close>

text \<open>A receiver gets its message.\<close>

definition v_unrecv :: "int \<Rightarrow> ipcview \<Rightarrow> ipcview" where
  "v_unrecv d v = v(d := (v d)\<lparr>i_recv := False\<rparr>)"

lemma v_unrecv_ok:
  assumes i: "ipc_ok v" and ns: "\<not> i_send (v d)"
  shows "ipc_ok (v_unrecv d v)"
proof -
  let ?v = "v_unrecv d v"
  have f: "i_empty (?v n) = i_empty (v n)" "i_dead (?v n) = i_dead (v n)" "i_ep (?v n) = i_ep (v n)"
    "i_send (?v n) = i_send (v n)" "i_sendto (?v n) = i_sendto (v n)" "i_getfrom (?v n) = i_getfrom (v n)"
    "i_callq (?v n) = i_callq (v n)" "i_link (?v n) = i_link (v n)"
    "i_recv (?v n) \<longleftrightarrow> n \<noteq> d \<and> i_recv (v n)" for n
    by (auto simp: v_unrecv_def)
  note vc = view_cong [of ?v v, OF f(1-3)]
  have "waits ?v = (waits v)(d := None)"
    using ns by (auto simp: waits_def f fun_eq_iff)
  then have "acyc (waits ?v)" using i acyc_upd [of "waits v" None "[]" d] by (simp add: ipc_ok_def)
  moreover have "blocked_ok ?v" using i by (simp add: ipc_ok_def blocked_ok_def f vc)
  moreover have "callers_ok ?v = callers_ok v"
    by (simp add: callers_ok_def senders_def f vc fun_eq_iff)
  ultimately show ?thesis using i by (simp add: ipc_ok_def)
qed

text \<open>A process blocks receiving, from anyone or from a process that does not wait for it.\<close>

definition v_recv :: "int \<Rightarrow> int \<Rightarrow> ipcview \<Rightarrow> ipcview" where
  "v_recv c e v = v(c := (v c)\<lparr>i_getfrom := e, i_recv := True\<rparr>)"

lemma v_recv_ok:
  assumes i: "ipc_ok v" and live: "\<not> i_empty (v c)"
    and s: "i_send (v c) \<Longrightarrow> i_sendto (v c) = e \<and> \<not> i_recv (v c)"
    and e: "e = ENDPT_ANY \<or> ep_ok v e"
    and path: "e \<noteq> ENDPT_ANY \<Longrightarrow> \<exists>ds. chain (waits v) (Some (ENDPOINT_P e)) ds \<and> c \<notin> set ds"
    and any: "e = ENDPT_ANY \<Longrightarrow> \<not> i_send (v c)"
  shows "ipc_ok (v_recv c e v)"
proof -
  let ?v = "v_recv c e v"
  have f: "i_empty (?v n) = i_empty (v n)" "i_dead (?v n) = i_dead (v n)" "i_ep (?v n) = i_ep (v n)"
    "i_send (?v n) = i_send (v n)" "i_sendto (?v n) = i_sendto (v n)"
    "i_getfrom (?v n) = (if n = c then e else i_getfrom (v n))"
    "i_callq (?v n) = i_callq (v n)" "i_link (?v n) = i_link (v n)"
    "i_recv (?v n) \<longleftrightarrow> n = c \<or> i_recv (v n)" for n
    by (auto simp: v_recv_def)
  note vc = view_cong [of ?v v, OF f(1-3)]
  define r where "r = (if e = ENDPT_ANY then None else Some (ENDPOINT_P e))"
  have "waits ?v = (waits v)(c := r)" by (rule ext) (simp add: waits_def f r_def)
  moreover have "\<exists>ds. chain (waits v) r ds \<and> c \<notin> set ds"
    using path by (cases "e = ENDPT_ANY") (auto simp: r_def)
  ultimately have "acyc (waits ?v)" using i acyc_upd by (auto simp: ipc_ok_def)
  moreover have "blocked_ok ?v"
    using i live s e any by (auto simp: ipc_ok_def blocked_ok_def f vc)
  moreover have "callers_ok ?v = callers_ok v"
    by (simp add: callers_ok_def senders_def f vc fun_eq_iff)
  ultimately show ?thesis using i by (simp add: ipc_ok_def)
qed

text \<open>A process blocks sending and is queued last on the destination.\<close>

definition v_send :: "int \<Rightarrow> int \<Rightarrow> int cell \<Rightarrow> ipcview \<Rightarrow> ipcview" where
  "v_send c e xpp v =
     v_set_link c None (cell_wr (v_set_callq (ENDPOINT_P e)) v_set_link xpp (Some c)
       (v(c := (v c)\<lparr>i_send := True, i_sendto := e\<rparr>)))"

lemma v_send_sel:
  "i_empty (v_send c e x v n) = i_empty (v n)" "i_dead (v_send c e x v n) = i_dead (v n)"
  "i_ep (v_send c e x v n) = i_ep (v n)" "i_recv (v_send c e x v n) = i_recv (v n)"
  "i_getfrom (v_send c e x v n) = i_getfrom (v n)"
  "i_send (v_send c e x v n) = (n = c \<or> i_send (v n))"
  "i_sendto (v_send c e x v n) = (if n = c then e else i_sendto (v n))"
  by (auto simp: v_send_def v_set_link_def cell_wr_def v_set_callq_def split: cell.splits)

lemma v_send_ok:
  assumes i: "ipc_ok v" and c: "valid_nr c" and live: "\<not> i_empty (v c)" and ns: "\<not> i_send (v c)"
    and nr: "\<not> i_recv (v c)" and e: "ep_ok v e"
    and path: "chain (waits v) (Some (ENDPOINT_P e)) ds" "c \<notin> set ds"
    and C: "callers_ok v C"
  defines "x \<equiv> cell_after Head (C (ENDPOINT_P e))"
  shows "ipc_ok (v_send c e x v)" and "callers_ok (v_send c e x v) (C(ENDPOINT_P e := C (ENDPOINT_P e) @ [c]))"
proof -
  define d where "d = ENDPOINT_P e"
  let ?v = "v_send c e x v"
  note f = v_send_sel [of c e x v]
  note vc = view_cong [of ?v v, OF f(1-3)]
  have rd: "reachable_ep v d" using ep_ok_reachable [OF e] by (simp add: d_def)
  have x_d: "x = cell_after Head (C d)" by (simp add: x_def d_def)
  note cd = callers_okD [OF C rd]
  have cn: "c \<notin> set (C d')" if "reachable_ep v d'" for d'
    using callers_okD(2) [OF C that] ns by (simp add: senders_def)
  define v2 where "v2 = v_set_link c None (v(c := (v c)\<lparr>i_send := True, i_sendto := e\<rparr>))"
  have x: "x \<noteq> Next c" using cn [OF rd] by (auto simp: x_def cell_after_last d_def split: if_splits)
  have eq: "?v = cell_wr (v_set_callq d) v_set_link x (Some c) v2"
    using x unfolding v_send_def v2_def d_def
    by (cases x) (auto simp: cell_wr_def v_set_callq_def v_set_link_def fun_eq_iff)
  have l2: "i_links v2 = (i_links v)(c := None)" and h2: "\<And>d. i_callq (v2 d) = i_callq (v d)"
    by (auto simp: v2_def v_set_link_def)
  have ch: "chain (i_links ?v) (i_callq (?v d)) (C d @ [c])"
  proof -
    have "chain (i_links v2) (i_callq (v2 d)) (C d @ [])"
      using cd(1) cn [OF rd] by (simp add: l2 h2)
    moreover have "C d \<noteq> [] \<Longrightarrow> last (C d) \<notin> set [c]"
      using cn [OF rd] last_in_set by fastforce
    moreover have "chain (i_links v2) (Some c) [c]" by (simp add: l2)
    ultimately show ?thesis unfolding eq unfolding x_d by (rule callq.wr_after)
  qed
  have other: "chain (i_links ?v) (i_callq (?v d')) (C d')" if "reachable_ep v d'" "d' \<noteq> d" for d'
  proof -
    have "last (C d) \<notin> set (C d')" if "C d \<noteq> []"
      using last_in_set [OF that] cd(2) callers_okD(2) [OF C \<open>reachable_ep v d'\<close>] \<open>d' \<noteq> d\<close>
      by (auto simp: senders_def)
    from callq_wr_other [OF this that(2), where v = v2 and l = "Some c"]
    have "chain (i_links ?v) (i_callq (?v d')) (C d') = chain (i_links v2) (i_callq (v2 d')) (C d')"
      unfolding eq unfolding x_d .
    with callers_okD(1) [OF C that(1)] cn [OF that(1)] show ?thesis by (simp add: l2 h2)
  qed
  show co: "callers_ok ?v (C(ENDPOINT_P e := C (ENDPOINT_P e) @ [c]))"
    unfolding callers_ok_def d_def [symmetric] vc
  proof (intro allI impI)
    fix d' assume r: "reachable_ep v d'"
    have "set ((C(d := C d @ [c])) d') = senders ?v d'"
      using callers_okD(2) [OF C r] cd(2) c ns by (auto simp: senders_def f d_def)
    with ch other [OF r] show "chain (i_links ?v) (i_callq (?v d')) ((C(d := C d @ [c])) d') \<and>
      set ((C(d := C d @ [c])) d') = senders ?v d'" by simp
  qed
  have "waits ?v = (waits v)(c := Some d)"
    using nr by (auto simp: waits_def f fun_eq_iff d_def)
  with i acyc_upd [OF _ path] have "acyc (waits ?v)" by (simp add: ipc_ok_def d_def)
  moreover have "blocked_ok ?v"
    using i live e nr by (auto simp: ipc_ok_def blocked_ok_def f vc)
  ultimately show "ipc_ok ?v" using co by (auto simp: ipc_ok_def)
qed

text \<open>A receiver takes the message of a queued caller \<open>x\<close>, found in the cell \<open>xpp\<close>.\<close>

definition v_take :: "int \<Rightarrow> int cell \<Rightarrow> int \<Rightarrow> ipcview \<Rightarrow> ipcview" where
  "v_take d xpp x v =
     cell_wr (v_set_callq d) v_set_link xpp (i_links v x) (v(x := (v x)\<lparr>i_send := False\<rparr>))"

lemma v_take_sel:
  "i_empty (v_take d c x v n) = i_empty (v n)" "i_dead (v_take d c x v n) = i_dead (v n)"
  "i_ep (v_take d c x v n) = i_ep (v n)" "i_recv (v_take d c x v n) = i_recv (v n)"
  "i_getfrom (v_take d c x v n) = i_getfrom (v n)"
  "i_send (v_take d c x v n) = (n \<noteq> x \<and> i_send (v n))"
  "i_sendto (v_take d c x v n) = i_sendto (v n)"
  by (auto simp: v_take_def v_set_link_def cell_wr_def v_set_callq_def split: cell.splits)

lemma v_take_ok:
  assumes i: "ipc_ok v" and C: "callers_ok v C" and r: "reachable_ep v d" and x: "x \<in> set (C d)"
  defines "xpp \<equiv> cell_after Head (takeWhile (\<lambda>y. y \<noteq> x) (C d))"
  shows "ipc_ok (v_take d xpp x v)" and "callers_ok (v_take d xpp x v) (C(d := remove1 x (C d)))"
proof -
  let ?v = "v_take d xpp x v"
  note f = v_take_sel [of d xpp x v]
  note vc = view_cong [of ?v v, OF f(1-3)]
  define us where "us = takeWhile (\<lambda>y. y \<noteq> x) (C d)"
  define v1 where "v1 = v(x := (v x)\<lparr>i_send := False\<rparr>)"
  have l1: "i_links v1 = i_links v" "\<And>d. i_callq (v1 d) = i_callq (v d)" by (auto simp: v1_def)
  have eq: "?v = cell_wr (v_set_callq d) v_set_link (cell_after Head us) (i_links v1 x) v1"
    by (simp add: v_take_def xpp_def us_def v1_def)
  note cd = callers_okD [OF C r]
  have ch: "chain (i_links ?v) (i_callq (?v d)) (remove1 x (C d))"
    using callq.unlink_chain [of v1 d "C d" x] cd(1) x by (simp add: l1 eq us_def)
  have other: "chain (i_links ?v) (i_callq (?v d')) (C d')" if "reachable_ep v d'" "d' \<noteq> d" for d'
  proof -
    have "last us \<notin> set (C d')" if "us \<noteq> []"
    proof -
      have "last us \<in> set (C d)" using last_in_set [OF that] by (auto simp: us_def dest: set_takeWhileD)
      then show ?thesis
        using cd(2) callers_okD(2) [OF C \<open>reachable_ep v d'\<close>] \<open>d' \<noteq> d\<close> by (auto simp: senders_def)
    qed
    from callq_wr_other [OF this that(2), where v = v1 and l = "i_links v1 x"]
    have "chain (i_links ?v) (i_callq (?v d')) (C d') = chain (i_links v1) (i_callq (v1 d')) (C d')"
      by (simp add: eq)
    with callers_okD(1) [OF C that(1)] show ?thesis by (simp add: l1)
  qed
  have xs: "x \<in> senders v d" using cd(2) x by simp
  show co: "callers_ok ?v (C(d := remove1 x (C d)))"
    unfolding callers_ok_def vc
  proof (intro allI impI)
    fix d' assume r': "reachable_ep v d'"
    have "set ((C(d := remove1 x (C d))) d') = senders ?v d'"
      using callers_okD(2,3) [OF C r'] cd(2,3) xs by (auto simp: senders_def f)
    with ch other [OF r'] show "chain (i_links ?v) (i_callq (?v d')) ((C(d := remove1 x (C d))) d') \<and>
      set ((C(d := remove1 x (C d))) d') = senders ?v d'" by simp
  qed
  have w: "waits ?v = (if i_recv (v x) then waits v else (waits v)(x := None))"
    by (auto simp: waits_def f fun_eq_iff)
  have "acyc (waits ?v)"
    unfolding w using i acyc_upd [of "waits v" None "[]" x] by (simp add: ipc_ok_def)
  moreover have "blocked_ok ?v" using i by (simp add: ipc_ok_def blocked_ok_def f vc)
  ultimately show "ipc_ok ?v" using co by (auto simp: ipc_ok_def)
qed

end
