(* ===== verification/Kernel_Ipc.thy ===== *)
theory Kernel_Ipc
  imports Kernel_Sched Ipc_View
begin

text \<open>
  Interprocess communication, \<^verbatim>\<open>kernel/proc.c\<close>: rendezvous send and receive, notifications,
  asynchronous sends and the system call gate \<^verbatim>\<open>kipc_call\<close>; with the signal routines of
  \<^verbatim>\<open>kernel/system.c\<close> that receiving calls, and the address translation \<^verbatim>\<open>umap_local\<close> of
  \<^verbatim>\<open>arch/x86/kernel/memory.c\<close>. An operation returns the C result and the new state;
  \<^term>\<open>None\<close> is a kernel panic, a wild access or an endless loop.
\<close>

section \<open>Addresses and message buffers\<close>

abbreviation (input) SEG_T :: int where "SEG_T \<equiv> 0"
abbreviation (input) SEG_D :: int where "SEG_D \<equiv> 1"
abbreviation (input) SEG_S :: int where "SEG_S \<equiv> 2"
abbreviation (input) CLICK_SIZE :: int where "CLICK_SIZE \<equiv> 4096"
abbreviation (input) MSG_SIZE :: int where "MSG_SIZE \<equiv> 44"
abbreviation (input) ASYN_SIZE :: int where "ASYN_SIZE \<equiv> 56"

definition umap_local :: "proc \<Rightarrow> int \<Rightarrow> int \<Rightarrow> int \<Rightarrow> int option" where
  "umap_local rp seg vir_addr bytes =
     (let seg_end = (\<lambda>g. uwrap32 (mem_vir (p_memmap rp g) + mem_len (p_memmap rp g)))
      in if seg \<noteq> SEG_T \<and> seg \<noteq> SEG_D \<and> seg \<noteq> SEG_S then None
      else if bytes \<le> 0 then Some 0
      else if uwrap32 (vir_addr + bytes) \<le> vir_addr then Some 0
      else
        (let vc = uwrap32 (vir_addr + bytes - 1) div CLICK_SIZE;
             g = (if seg \<noteq> SEG_T then (if vc < seg_end SEG_D then SEG_D else SEG_S)
                  else if mem_len (p_memmap rp SEG_T) = 0 then SEG_D else seg)
         in if vir_addr div CLICK_SIZE \<ge> seg_end g then Some 0
            else if vc \<ge> seg_end g then Some 0
            else Some (uwrap32 (mem_phys (p_memmap rp g) * CLICK_SIZE +
                        (vir_addr - mem_vir (p_memmap rp g) * CLICK_SIZE)))))"

text \<open>
  Where a message to deliver lies: in a variable of the kernel, or at a linear address of
  user memory.
\<close>

datatype msg_ref = KBuf kipc_msg | Lin int

fun fetch :: "kstate \<Rightarrow> msg_ref \<Rightarrow> kipc_msg option" where
  "fetch s (KBuf m) = Some m"
| "fetch s (Lin a) = umsg s a"

text \<open>
  A destination that entered through interrupt 0x80 gets the message by a plain assignment:
  a fault is then not caught.
\<close>

definition QueueMess :: "int \<Rightarrow> msg_ref \<Rightarrow> int \<Rightarrow> kstate \<Rightarrow> (int \<times> kstate) option" where
  "QueueMess ep msg dst s =
     (case fetch s msg of
        None \<Rightarrow> if syscall_0x80 (procs s dst) then None else Some (- EFAULT, s)
      | Some m \<Rightarrow>
          Some (0, upd_proc dst (\<lambda>p. p\<lparr>p_delivermsg := m\<lparr>m_source := ep\<rparr>,
                                      p_misc_flags := p_misc_flags p OR MF_DELIVERMSG\<rparr>) s))"

text \<open>
  The macro \<^verbatim>\<open>BuildNotifyMessage\<close> fills a message variable of the caller, which is not
  initialised, and clears what it reports.
\<close>

definition BuildNotifyMessage :: "int \<Rightarrow> int \<Rightarrow> kstate \<Rightarrow> kipc_msg \<times> kstate" where
  "BuildNotifyMessage src dst s =
     (let m = (stack_junk s)\<lparr>m_type := 0x1000 OR (src + NR_TASKS), m_data5 := get_uptime s\<rparr>
      in if src = HARDWARE then
           (m\<lparr>m_data4 := sint (s_int_pending (priv_of s dst))\<rparr>,
            upd_priv_of dst (\<lambda>pr. pr\<lparr>s_int_pending := 0\<rparr>) s)
         else if src = SYSTEM then
           (m\<lparr>m_data4 := sint (s_sig_pending (priv_of s dst))\<rparr>,
            upd_priv_of dst (\<lambda>pr. pr\<lparr>s_sig_pending := 0\<rparr>) s)
         else (m, s))"

section \<open>Deadlock detection\<close>

text \<open>
  The loop of \<^verbatim>\<open>deadlock\<close>. The trace array has one entry per process table slot; running
  off its end is a wild write.
\<close>

partial_function (option) deadlock_loop :: "int \<Rightarrow> int \<Rightarrow> int \<Rightarrow> int \<Rightarrow> kstate \<Rightarrow> int option" where
  "deadlock_loop fn cp src_dst group_size s =
     (if src_dst = ENDPT_ANY then Some 0
      else if \<not> valid_nr src_dst \<or> group_size \<ge> NR_TASKS + NR_PROCS then None
      else
        (let xp = src_dst; g = group_size + 1; p = procs s xp
         in Option.bind
              (if RTS_ISSET p RTS_RECEIVING then
                 (if p_getfrom_e p = ENDPT_ANY then Some (Some ENDPT_ANY)
                  else map_option Some (okendpt s (p_getfrom_e p)))
               else if RTS_ISSET p RTS_SENDING then map_option Some (okendpt s (p_sendto_e p))
               else Some None)
              (\<lambda>dep. case dep of
                 None \<Rightarrow> Some 0
               | Some next \<Rightarrow>
                   if next = p_nr (procs s cp) then
                     (if g = 2 \<and>
                         has_any (p_rts_flags p XOR push_bit 2 (word_of_int fn)) RTS_SENDING
                      then Some 0 else Some g)
                   else deadlock_loop fn cp next g s)))"

definition deadlock :: "int \<Rightarrow> int \<Rightarrow> int \<Rightarrow> kstate \<Rightarrow> int option" where
  "deadlock fn cp src_dst s = deadlock_loop fn cp src_dst 1 s"

section \<open>Notifications and signals\<close>

definition mini_notify :: "int \<Rightarrow> int \<Rightarrow> kstate \<Rightarrow> (int \<times> kstate) option" where
  "mini_notify caller dst_e s =
     (case isokendpt s dst_e of
        None \<Rightarrow> Some (- EDEADSRCDST, s)
      | Some dst \<Rightarrow>
          if WILLRECEIVE (procs s dst) (p_endpoint (procs s caller)) \<and>
             \<not> has_any (p_misc_flags (procs s dst)) MF_REPLY_PEND
          then do {
            let (m, s1) = BuildNotifyMessage (p_nr (procs s caller)) dst s;
            (r, s2) \<leftarrow> QueueMess (p_endpoint (procs s1 caller)) (KBuf m) dst s1;
            if r \<noteq> 0 then None
            else do { s3 \<leftarrow> RTS_UNSET dst RTS_RECEIVING s2; Some (0, s3) }
          }
          else
            Some (0, upd_priv_of dst (\<lambda>pr. pr\<lparr>s_notify_pending :=
                       set_sys_bit (s_notify_pending pr) (s_id (priv_of s caller))\<rparr>) s))"

definition lock_notify :: "int \<Rightarrow> int \<Rightarrow> kstate \<Rightarrow> (int \<times> kstate) option" where
  "lock_notify src_e dst_e s =
     (case isokendpt s src_e of
        None \<Rightarrow> Some (- EDEADSRCDST, s)
      | Some src_p \<Rightarrow> do {
          s1 \<leftarrow> reallock s;
          (result, s2) \<leftarrow> mini_notify src_p dst_e s1;
          s3 \<leftarrow> realunlock s2;
          Some (result, s3)
        })"

text \<open>\<^verbatim>\<open>1 << sig\<close> on a 32-bit machine.\<close>

definition sig_bit :: "int \<Rightarrow> 32 word" where
  "sig_bit sig_nr = push_bit (nat (sig_nr mod 32)) 1"

definition send_sig :: "int \<Rightarrow> int \<Rightarrow> kstate \<Rightarrow> kstate option" where
  "send_sig nr sig_nr s =
     (if \<not> isokprocn nr \<or> isemptyp (procs s nr) then None
      else do {
        let s1 = upd_priv_of nr (\<lambda>pr. pr\<lparr>s_sig_pending := s_sig_pending pr OR sig_bit sig_nr\<rparr>) s;
        (_, s2) \<leftarrow> (if \<not> intr_off s1 then lock_notify SYSTEM (p_endpoint (procs s1 nr)) s1
                    else mini_notify SYSTEM (p_endpoint (procs s1 nr)) s1);
        Some s2
      })"

definition cause_sig :: "int \<Rightarrow> int \<Rightarrow> kstate \<Rightarrow> kstate option" where
  "cause_sig nr sig_nr s =
     (if nr = PM_PROC_NR then None
      else do {
        rp \<leftarrow> proc_addr nr;
        if has_any (p_pending (procs s rp)) (sig_bit sig_nr) then Some s
        else do {
          let s1 = upd_proc rp (\<lambda>p. p\<lparr>p_pending := p_pending p OR sig_bit sig_nr\<rparr>) s;
          if RTS_ISSET (procs s1 rp) RTS_SIGNALED then Some s1
          else do {
            s2 \<leftarrow> RTS_LOCK_SET rp (RTS_SIGNALED OR RTS_SIG_PENDING) s1;
            send_sig PM_PROC_NR SIGKSIG s2
          }
        }
      })"

definition sig_delay_done :: "int \<Rightarrow> kstate \<Rightarrow> kstate option" where
  "sig_delay_done rp s =
     (let s1 = upd_proc rp (\<lambda>p. p\<lparr>p_misc_flags := p_misc_flags p AND NOT MF_SIG_DELAY\<rparr>) s
      in cause_sig (p_nr (procs s1 rp)) SIGNDELAY s1)"

section \<open>Send\<close>

text \<open>The caller queues: \<^verbatim>\<open>p_caller_q\<close> of a destination, linked through \<^verbatim>\<open>p_q_link\<close>.\<close>

abbreviation q_links :: "kstate \<Rightarrow> int \<Rightarrow> int option" where
  "q_links s x \<equiv> p_q_link (procs s x)"

definition set_q_link :: "int \<Rightarrow> int option \<Rightarrow> kstate \<Rightarrow> kstate" where
  "set_q_link x v s = upd_proc x (\<lambda>p. p\<lparr>p_q_link := v\<rparr>) s"

definition set_caller_q :: "int \<Rightarrow> int option \<Rightarrow> kstate \<Rightarrow> kstate" where
  "set_caller_q d v s = upd_proc d (\<lambda>p. p\<lparr>p_caller_q := v\<rparr>) s"

definition mini_send :: "int \<Rightarrow> int \<Rightarrow> int \<Rightarrow> 32 word \<Rightarrow> kstate \<Rightarrow> (int \<times> kstate) option" where
  "mini_send caller dst_e m_ptr flags s = do {
     let c = procs s caller;
     linaddr \<leftarrow> umap_local c SEG_D m_ptr MSG_SIZE;
     let msg = (if syscall_0x80 c then KBuf (p_sendmsg c) else Lin linaddr);
     if \<not> syscall_0x80 c \<and> linaddr = 0 then Some (- EFAULT, s)
     else do {
       let dst_p = ENDPOINT_P dst_e;
       dst \<leftarrow> proc_addr dst_p;
       if RTS_ISSET (procs s dst) RTS_NO_ENDPOINT then Some (- EDSTDIED, s)
       else if WILLRECEIVE (procs s dst) (p_endpoint c) then do {
         (r, s1) \<leftarrow> QueueMess (p_endpoint c) msg dst s;
         if r \<noteq> 0 then Some (r, s1)
         else do { s2 \<leftarrow> RTS_UNSET dst RTS_RECEIVING s1; Some (0, s2) }
       }
       else if has_any flags KIPC_FLG_NONBLOCK then Some (- ENOTREADY, s)
       else do {
         d \<leftarrow> deadlock KIPC_SEND caller dst_p s;
         if d \<noteq> 0 then Some (- ELOCKED, s)
         else (case fetch s msg of
             None \<Rightarrow> Some (- EFAULT, s)
           | Some m \<Rightarrow> do {
               let s1 = upd_proc caller (\<lambda>p. p\<lparr>p_sendmsg := m\<rparr>) s;
               s2 \<leftarrow> RTS_SET caller RTS_SENDING s1;
               let s3 = upd_proc caller (\<lambda>p. p\<lparr>p_sendto_e := dst_e\<rparr>) s2;
               xpp \<leftarrow> walk (\<lambda>_. False) (q_links s3) (p_caller_q (procs s3 dst)) Head;
               let s4 = cell_wr (set_caller_q dst) set_q_link xpp (Some caller) s3;
               Some (0, set_q_link caller None s4)
             })
       }
     }
   }"

definition lock_send :: "int \<Rightarrow> int \<Rightarrow> kstate \<Rightarrow> (int \<times> kstate) option" where
  "lock_send dst_e m_ptr s = do {
     s1 \<leftarrow> reallock s;
     (result, s2) \<leftarrow> mini_send (proc_ptr s1) dst_e m_ptr 0 s1;
     s3 \<leftarrow> realunlock s2;
     Some (result, s3)
   }"

section \<open>Asynchronous sends\<close>

text \<open>Entry \<open>i\<close> of a table: the flags at offset 0, the destination at 4, the result at 8, the message at 12.\<close>

definition asyn_addr :: "int \<Rightarrow> int \<Rightarrow> int \<Rightarrow> int" where
  "asyn_addr table_v i off = uwrap32 (table_v + i * ASYN_SIZE + off)"

text \<open>\<^verbatim>\<open>A_INSERT\<close> of the result and then of the flags; \<^term>\<open>False\<close> when a copy fails.\<close>

definition put_word :: "int \<Rightarrow> int \<Rightarrow> 32 word \<Rightarrow> kstate \<Rightarrow> kstate" where
  "put_word p a w s = s\<lparr>uword := (uword s)(p := (uword s p)(a := Some w))\<rparr>"

definition asyn_done :: "int \<Rightarrow> int \<Rightarrow> int \<Rightarrow> int \<Rightarrow> 32 word \<Rightarrow> kstate \<Rightarrow> bool \<times> kstate" where
  "asyn_done p table_v i result flags s =
     (if \<not> uword_wr s p (asyn_addr table_v i 8) then (False, s)
      else
        (let s1 = put_word p (asyn_addr table_v i 8) (word_of_int result) s
         in if \<not> uword_wr s1 p (asyn_addr table_v i 0) then (False, s1)
            else (True, put_word p (asyn_addr table_v i 0) (flags OR AMF_DONE) s1)))"

definition bad_amf :: "32 word \<Rightarrow> bool" where
  "bad_amf flags \<longleftrightarrow>
     has_any flags (NOT (AMF_VALID OR AMF_DONE OR AMF_NOTIFY OR AMF_NOREPLY)) \<or> \<not> has_any flags AMF_VALID"

fun try_one_loop :: "int \<Rightarrow> int \<Rightarrow> int \<Rightarrow> int list \<Rightarrow> bool \<Rightarrow> bool \<Rightarrow> kstate \<Rightarrow> (int \<times> bool \<times> kstate) option" where
  "try_one_loop src dst table_v [] don postponed s =
     Some (- EAGAIN, postponed, if don then upd_priv_of src (\<lambda>pr. pr\<lparr>s_asynsize := 0\<rparr>) s else s)"
| "try_one_loop src dst table_v (i # is) don postponed s =
     (case uword s src (asyn_addr table_v i 0) of
        None \<Rightarrow> Some (- EFAULT, postponed, s)
      | Some flags \<Rightarrow>
          if flags = 0 then try_one_loop src dst table_v is don postponed s
          else if bad_amf flags then
            Some (- EINVAL, postponed, upd_priv_of src (\<lambda>pr. pr\<lparr>s_asynsize := 0\<rparr>) s)
          else if has_any flags AMF_DONE then try_one_loop src dst table_v is don postponed s
          else
            (case uword s src (asyn_addr table_v i 4) of
               None \<Rightarrow> Some (- EFAULT, postponed, s)
             | Some dst_w \<Rightarrow>
                 if sint dst_w \<noteq> p_endpoint (procs s dst) then
                   try_one_loop src dst table_v is False postponed s
                 else if has_any flags AMF_NOREPLY \<and> has_any (p_misc_flags (procs s dst)) MF_REPLY_PEND then
                   try_one_loop src dst table_v is False True s
                 else
                   (case uvmsg s src (asyn_addr table_v i 12) of
                      None \<Rightarrow> Some (- EFAULT, postponed, s)
                    | Some m \<Rightarrow> do {
                        (r, s1) \<leftarrow> QueueMess (p_endpoint (procs s src)) (KBuf m) dst s;
                        (case asyn_done src table_v i r flags s1 of
                           (False, s2) \<Rightarrow> Some (- EFAULT, postponed, s2)
                         | (True, s2) \<Rightarrow> Some (0, postponed, s2))
                      })))"

definition try_one :: "int \<Rightarrow> int \<Rightarrow> bool \<Rightarrow> kstate \<Rightarrow> (int \<times> bool \<times> kstate) option" where
  "try_one src dst postponed s =
     (let privp = priv_of s src
      in if s_id privp = USER_PRIV_ID then Some (- EAGAIN, postponed, s)
         else if s_asynsize privp = 0 then Some (- EAGAIN, postponed, s)
         else if \<not> may_send_to s src (p_nr (procs s dst)) then Some (- EAGAIN, postponed, s)
         else try_one_loop src dst (s_asyntab privp) [0..s_asynsize privp - 1] True postponed s)"

fun try_async_loop :: "int \<Rightarrow> int list \<Rightarrow> bool \<Rightarrow> kstate \<Rightarrow> (int \<times> kstate) option" where
  "try_async_loop caller [] postponed s =
     Some (- ESRCH, if \<not> postponed
                    then upd_proc caller (\<lambda>p. p\<lparr>p_misc_flags := p_misc_flags p AND NOT MF_ASYNMSG\<rparr>) s
                    else s)"
| "try_async_loop caller (i # is) postponed s =
     (if s_proc_nr (privs s i) = ENDPT_NONE then try_async_loop caller is postponed s
      else do {
        src \<leftarrow> proc_addr (s_proc_nr (privs s i));
        (r, postponed', s1) \<leftarrow> try_one src caller postponed s;
        if r = 0 then Some (0, s1) else try_async_loop caller is postponed' s1
      })"

definition try_async :: "int \<Rightarrow> kstate \<Rightarrow> (int \<times> kstate) option" where
  "try_async caller s = try_async_loop caller [0..NR_SYS_PROCS - 1] False s"

section \<open>Receive\<close>

text \<open>The first bit set in a chunk: the loop \<^verbatim>\<open>for (i=0; !(*chunk & (1<<i)); ++i)\<close>.\<close>

definition lowest_bit :: "16 word \<Rightarrow> nat option" where
  "lowest_bit w = find (bit w) [0..<16]"

text \<open>
  The scan of the pending notifications: the privilege id whose notification is taken, if
  any. Of each chunk only the first bit is looked at.
\<close>

fun notify_scan :: "int list \<Rightarrow> int \<Rightarrow> int \<Rightarrow> kstate \<Rightarrow> int \<Rightarrow> int option" where
  "notify_scan [] src_e src_p s caller = None"
| "notify_scan (c # cs) src_e src_p s caller =
     (case lowest_bit (s_notify_pending (priv_of s caller) c) of
        None \<Rightarrow> notify_scan cs src_e src_p s caller
      | Some i \<Rightarrow>
          (let src_id = c * BITCHUNK_BITS + int i
           in if src_id \<ge> NR_SYS_PROCS then None
              else if src_e \<noteq> ENDPT_ANY \<and> src_p \<noteq> s_proc_nr (privs s src_id)
                   then notify_scan cs src_e src_p s caller
              else Some src_id))"

definition receive_notify :: "int \<Rightarrow> int \<Rightarrow> kstate \<Rightarrow> (int \<times> kstate) option" where
  "receive_notify caller src_id s = do {
     let s1 = upd_priv_of caller (\<lambda>pr. pr\<lparr>s_notify_pending := unset_sys_bit (s_notify_pending pr) src_id\<rparr>) s;
     let src_proc_nr = s_proc_nr (privs s1 src_id);
     let (m, s2) = BuildNotifyMessage src_proc_nr caller s1;
     src \<leftarrow> proc_addr src_proc_nr;
     (r, s3) \<leftarrow> QueueMess (p_endpoint (procs s2 src)) (KBuf m) caller s2;
     if r \<noteq> 0 then None else Some (0, s3)
   }"

text \<open>Taking the message of a sender \<open>x\<close> in the caller queue, found in the cell \<open>xpp\<close>.\<close>

definition receive_queued :: "int \<Rightarrow> int cell \<Rightarrow> int \<Rightarrow> kstate \<Rightarrow> (int \<times> kstate) option" where
  "receive_queued caller xpp x s = do {
     (_, s1) \<leftarrow> QueueMess (p_endpoint (procs s x)) (KBuf (p_sendmsg (procs s x))) caller s;
     s2 \<leftarrow> (if has_any (p_misc_flags (procs s1 x)) MF_SIG_DELAY then sig_delay_done x s1 else Some s1);
     s3 \<leftarrow> RTS_UNSET x RTS_SENDING s2;
     Some (0, cell_wr (set_caller_q caller) set_q_link xpp (q_links s3 x) s3)
   }"

definition receive_async :: "int \<Rightarrow> int \<Rightarrow> int \<Rightarrow> kstate \<Rightarrow> (int \<times> kstate) option" where
  "receive_async caller src_e src_p s =
     (if src_e \<noteq> ENDPT_ANY
      then map_option (\<lambda>(r, _, s'). (r, s')) (try_one src_p caller False s)
      else try_async caller s)"

definition receive_block :: "int \<Rightarrow> int \<Rightarrow> int \<Rightarrow> 32 word \<Rightarrow> kstate \<Rightarrow> (int \<times> kstate) option" where
  "receive_block caller src_e src_p flags s =
     (if has_any flags KIPC_FLG_NONBLOCK then Some (- ENOTREADY, s)
      else do {
        d \<leftarrow> deadlock KIPC_RECEIVE caller src_p s;
        if d \<noteq> 0 then Some (- ELOCKED, s)
        else do {
          let s1 = upd_proc caller (\<lambda>p. p\<lparr>p_getfrom_e := src_e\<rparr>) s;
          s2 \<leftarrow> RTS_SET caller RTS_RECEIVING s1;
          Some (0, s2)
        }
      })"

text \<open>
  \<^verbatim>\<open>mini_receive\<close>. \<open>kaddr\<close> is the address of the kernel buffer \<^verbatim>\<open>p_delivermsg\<close>, whose value
  plays no role here.
\<close>

definition receive_search :: "int \<Rightarrow> int \<Rightarrow> int \<Rightarrow> 32 word \<Rightarrow> kstate \<Rightarrow> (int \<times> kstate) option" where
  "receive_search caller src_e src_p flags s =
     (case (if has_any (p_misc_flags (procs s caller)) MF_REPLY_PEND then None
            else notify_scan [0..NR_SYS_CHUNKS - 1] src_e src_p s caller) of
        Some src_id \<Rightarrow> receive_notify caller src_id s
      | None \<Rightarrow> do {
          xpp \<leftarrow> walk (\<lambda>x. src_e = ENDPT_ANY \<or> src_p = p_nr (procs s x)) (q_links s)
                  (p_caller_q (procs s caller)) Head;
          (case cell_rd (q_links s) (p_caller_q (procs s caller)) xpp of
             Some x \<Rightarrow> receive_queued caller xpp x s
           | None \<Rightarrow>
               if has_any (p_misc_flags (procs s caller)) MF_ASYNMSG then do {
                 (r, s1) \<leftarrow> receive_async caller src_e src_p s;
                 if r = 0 then Some (0, s1) else receive_block caller src_e src_p flags s1
               }
               else receive_block caller src_e src_p flags s)
        })"

definition mini_receive :: "int \<Rightarrow> int \<Rightarrow> int \<Rightarrow> int \<Rightarrow> 32 word \<Rightarrow> kstate \<Rightarrow> (int \<times> kstate) option" where
  "mini_receive kaddr caller src_e m_ptr flags s = do {
     let c = procs s caller;
     linaddr \<leftarrow> (if syscall_0x80 c then Some kaddr else umap_local c SEG_D m_ptr MSG_SIZE);
     if \<not> syscall_0x80 c \<and> linaddr = 0 then Some (- EFAULT, s)
     else do {
       let s1 = upd_proc caller (\<lambda>p. p\<lparr>p_delivermsg_lin := linaddr,
                  p_delivermsg_vir := (if syscall_0x80 c then kaddr else m_ptr)\<rparr>) s;
       src_p \<leftarrow> (if src_e = ENDPT_ANY then Some ENDPT_ANY else okendpt s1 src_e);
       if src_e \<noteq> ENDPT_ANY \<and> RTS_ISSET (procs s1 src_p) RTS_NO_ENDPOINT then Some (- ESRCDIED, s1)
       else if RTS_ISSET (procs s1 caller) RTS_SENDING then receive_block caller src_e src_p flags s1
       else receive_search caller src_e src_p flags s1
     }
   }"

section \<open>The table of asynchronous sends\<close>

text \<open>
  The reason why an entry is finished without a delivery attempt, in the order of the checks.
\<close>

definition senda_reject :: "int \<Rightarrow> int \<Rightarrow> kstate \<Rightarrow> int option" where
  "senda_reject caller dst_e s =
     (case isokendpt s dst_e of
        None \<Rightarrow> Some (- EDEADSRCDST)
      | Some dst_p \<Rightarrow>
          if iskerneln dst_p then Some (- ECALLDENIED)
          else if \<not> may_send_to s caller dst_p then Some (- ECALLDENIED)
          else if has_any (p_rts_flags (procs s dst_p)) RTS_NO_ENDPOINT then Some (- EDSTDIED)
          else None)"

fun senda_loop :: "int \<Rightarrow> int \<Rightarrow> int \<Rightarrow> int list \<Rightarrow> bool \<Rightarrow> kstate \<Rightarrow> (int \<times> bool \<times> kstate) option" where
  "senda_loop caller table linaddr [] don s = Some (0, don, s)"
| "senda_loop caller table linaddr (i # is) don s =
     (case uword s caller (asyn_addr table i 0) of
        None \<Rightarrow> Some (- EFAULT, don, s)
      | Some flags \<Rightarrow>
          if flags = 0 then senda_loop caller table linaddr is don s
          else if bad_amf flags then Some (- EINVAL, don, s)
          else if has_any flags AMF_DONE then senda_loop caller table linaddr is don s
          else
            (case uword s caller (asyn_addr table i 4) of
               None \<Rightarrow> Some (- EFAULT, don, s)
             | Some dst_w \<Rightarrow>
                 (case senda_reject caller (sint dst_w) s of
                    Some result \<Rightarrow>
                      (case asyn_done caller table i result flags s of
                         (False, s1) \<Rightarrow> Some (- EFAULT, don, s1)
                       | (True, s1) \<Rightarrow> senda_loop caller table linaddr is don s1)
                  | None \<Rightarrow>
                      (let dst = ENDPOINT_P (sint dst_w)
                       in if WILLRECEIVE (procs s dst) (p_endpoint (procs s caller)) \<and>
                             (\<not> has_any flags AMF_NOREPLY \<or> \<not> has_any (p_misc_flags (procs s dst)) MF_REPLY_PEND)
                          then do {
                            (result, s1) \<leftarrow> QueueMess (p_endpoint (procs s caller))
                                             (Lin (uwrap32 (linaddr + i * ASYN_SIZE + 12))) dst s;
                            s2 \<leftarrow> (if result = 0 then RTS_UNSET dst RTS_RECEIVING s1 else Some s1);
                            (case asyn_done caller table i result flags s2 of
                               (False, s3) \<Rightarrow> Some (- EFAULT, don, s3)
                             | (True, s3) \<Rightarrow> senda_loop caller table linaddr is don s3)
                          }
                          else
                            senda_loop caller table linaddr is False
                              (upd_proc dst (\<lambda>p. p\<lparr>p_misc_flags := p_misc_flags p OR MF_ASYNMSG\<rparr>) s)))))"

definition mini_senda :: "int \<Rightarrow> int \<Rightarrow> int \<Rightarrow> kstate \<Rightarrow> (int \<times> kstate) option" where
  "mini_senda caller table count s =
     (if \<not> has_any (s_flags (priv_of s caller)) SYS_PROC then Some (- EPERM, s)
      else do {
        let s1 = upd_priv_of caller (\<lambda>pr. pr\<lparr>s_asyntab := uwrap32 (- 1), s_asynsize := 0\<rparr>) s;
        if count = 0 then Some (0, s1)
        else do {
          linaddr \<leftarrow> umap_local (procs s1 caller) SEG_D table (uwrap32 (count * ASYN_SIZE));
          if linaddr = 0 then Some (- EFAULT, s1)
          else if count > 16 * (NR_TASKS + NR_PROCS) then Some (- EDOM, s1)
          else do {
            (r, don, s2) \<leftarrow> senda_loop caller table linaddr [0..count - 1] True s1;
            if r \<noteq> 0 then Some (r, s2)
            else Some (0, if don then s2
                          else upd_priv_of caller (\<lambda>pr. pr\<lparr>s_asyntab := table, s_asynsize := count\<rparr>) s2)
          }
        }
      })"

section \<open>The system call gate\<close>

text \<open>The checks on the arguments: \<^term>\<open>Inl\<close> an error, \<^term>\<open>Inr\<close> the process slot meant.\<close>

definition kipc_check :: "int \<Rightarrow> 32 word \<Rightarrow> int \<Rightarrow> kstate \<Rightarrow> int + int" where
  "kipc_check call_type flags endpt s =
     (let caller = proc_ptr s;
          dest =
            (if call_type = KIPC_SENDA then Inr 0
             else if endpt = ENDPT_ANY then (if call_type \<noteq> KIPC_RECEIVE then Inl (- EINVAL) else Inr endpt)
             else (case isokendpt s endpt of
                     None \<Rightarrow> Inl (- EDEADSRCDST)
                   | Some src_dst_p \<Rightarrow>
                       if call_type \<noteq> KIPC_RECEIVE \<and> \<not> may_send_to s caller src_dst_p
                       then Inl (- ECALLDENIED) else Inr src_dst_p))
      in case dest of
           Inl e \<Rightarrow> Inl e
         | Inr src_dst_p \<Rightarrow>
             if call_type < 0 \<or> call_type > KIPC_SERVICES_COUNT then Inl (- ETRAPDENIED)
             else if \<not> bit (s_trap_mask (priv_of s caller)) (nat call_type) then Inl (- ETRAPDENIED)
             else if call_type \<noteq> KIPC_SENDREC \<and> call_type \<noteq> KIPC_RECEIVE \<and> call_type \<noteq> KIPC_SENDA \<and>
                     iskerneln src_dst_p then Inl (- ETRAPDENIED)
             else if call_type = KIPC_SENDA \<and> uint flags > 16 * (NR_TASKS + NR_PROCS) then Inl (- EDOM)
             else Inr src_dst_p)"

definition set_misc :: "int \<Rightarrow> 16 word \<Rightarrow> kstate \<Rightarrow> kstate" where
  "set_misc n f s = upd_proc n (\<lambda>p. p\<lparr>p_misc_flags := f\<rparr>) s"

definition kipc_dispatch :: "int \<Rightarrow> int \<Rightarrow> 32 word \<Rightarrow> int \<Rightarrow> int \<Rightarrow> kstate \<Rightarrow> (int \<times> kstate) option" where
  "kipc_dispatch kaddr call_type flags endpt msg s =
     (let caller = proc_ptr s; mf = p_misc_flags (procs s caller)
      in if call_type = KIPC_SENDREC then do {
           (result, s1) \<leftarrow> mini_send caller endpt msg flags (set_misc caller (mf OR MF_REPLY_PEND) s);
           if result \<noteq> 0 then Some (result, s1) else mini_receive kaddr caller endpt msg 0 s1
         }
         else if call_type = KIPC_SEND then mini_send caller endpt msg flags s
         else if call_type = KIPC_RECEIVE then
           mini_receive kaddr caller endpt msg 0 (set_misc caller (mf AND NOT MF_REPLY_PEND) s)
         else if call_type = KIPC_NOTIFY then mini_notify caller endpt s
         else if call_type = KIPC_SENDA then mini_senda caller msg (sint flags) s
         else Some (- EBADCALL, s))"

definition kipc_call :: "int \<Rightarrow> int \<Rightarrow> 32 word \<Rightarrow> int \<Rightarrow> int \<Rightarrow> kstate \<Rightarrow> (int \<times> kstate) option" where
  "kipc_call kaddr call_type flags endpt msg s =
     (let caller = proc_ptr s; mf = p_misc_flags (procs s caller); trace = MF_SC_TRACE OR MF_SC_DEFER
      in if has_any mf trace \<and> mf AND trace = MF_SC_TRACE then do {
           s1 \<leftarrow> cause_sig (p_nr (procs s caller)) SIGTRAP
                  (set_misc caller ((mf AND NOT MF_SC_TRACE) OR MF_SC_DEFER) s);
           Some (p_retreg (procs s1 caller), s1)
         }
         else
           (let s1 = (if has_any mf trace
                      then set_misc caller ((mf AND NOT MF_SC_DEFER) OR MF_SC_ACTIVE) s else s)
            in case kipc_check call_type flags endpt s1 of
                 Inl e \<Rightarrow> Some (e, s1)
               | Inr _ \<Rightarrow> kipc_dispatch kaddr call_type flags endpt msg s1))"

end
