(* ===== verification/Kernel_Inv.thy ===== *)
theory Kernel_Inv
  imports Kernel_Ipc
begin

text \<open>
  The invariant of the kernel that communication keeps: the run queue invariant, sane tables,
  and the contract of \<^verbatim>\<open>Ipc_View\<close> for the blocked processes; the elementary updates that keep
  it; and that the search for a deadlock ends.
\<close>

section \<open>The scheduler does not disturb communication\<close>

text \<open>
  After \<^verbatim>\<open>RTS_SET\<close> and \<^verbatim>\<open>RTS_UNSET\<close> nothing but what the scheduler owns has changed, and only the
  current process may have been marked preempted.
\<close>

definition sched_rel :: "kstate \<Rightarrow> kstate \<Rightarrow> bool" where
  "sched_rel s s' \<longleftrightarrow> sched_view s' = sched_view s \<and>
     (\<forall>n. n \<noteq> proc_ptr s \<longrightarrow> p_rts_flags (procs s' n) = p_rts_flags (procs s n))"

lemma sched_rts: "sched rp s = (q, fr, s1) \<Longrightarrow> p_rts_flags (procs s1 n) = p_rts_flags (procs s n)"
  and sched_ptr: "sched rp s = (q, fr, s1) \<Longrightarrow> proc_ptr s1 = proc_ptr s"
  by (auto simp: sched_def Let_def upd_proc_def split: if_splits)

lemma RTS_SET_rts:
  assumes "RTS_SET rp f s = Some s'"
  shows "p_rts_flags (procs s' n) = (if n = rp then p_rts_flags (procs s rp) OR f else p_rts_flags (procs s n))"
proof -
  obtain s1 where s1: "(if proc_is_runnable (procs s rp) then dequeue rp s else Some s) = Some s1"
    and s': "s' = set_rts rp (p_rts_flags (procs s1 rp) OR f) s1"
    using assms by (auto simp: RTS_SET_def opt_simps)
  from s1 have l: "link_view s1 = link_view s" by (auto dest: dequeue_link_view split: if_splits)
  show ?thesis by (simp add: s' set_rts_def link_viewD [OF l])
qed

lemma enqueue_rts:
  assumes "enqueue rp s = Some s'" and "n \<noteq> proc_ptr s"
  shows "p_rts_flags (procs s' n) = p_rts_flags (procs s n)"
proof -
  obtain q fr s1 where sch: "sched rp s = (q, fr, s1)" by (metis prod_cases3)
  then obtain s2 where l: "link_ready rp q fr s1 = Some s2"
    and s': "s' = s2 \<or> RTS_SET (proc_ptr s2) RTS_PREEMPTED s2 = Some s'"
    using assms(1) by (auto simp: enqueue_def opt_simps split: if_splits)
  have lv: "link_view s2 = link_view s1" by (rule link_ready_link_view [OF l])
  have "proc_ptr s2 = proc_ptr s" using link_viewD(7) [OF lv] sched_ptr [OF sch] by simp
  moreover have "p_rts_flags (procs s2 n) = p_rts_flags (procs s n)"
    using link_viewD(1) [OF lv] sched_rts [OF sch] by simp
  ultimately show ?thesis using s' assms(2) by (auto simp: RTS_SET_rts)
qed

lemma RTS_SET_rel:
  assumes "RTS_SET rp f s = Some s'"
  shows "sched_rel (set_rts rp (p_rts_flags (procs s rp) OR f) s) s'"
  using RTS_SET_sched_view [OF assms] RTS_SET_rts [OF assms] by (simp add: sched_rel_def set_rts_def)

lemma RTS_UNSET_rel:
  assumes "RTS_UNSET rp f s = Some s'"
  shows "sched_rel (set_rts rp (p_rts_flags (procs s rp) AND NOT f) s) s'"
proof -
  define s1 where "s1 = set_rts rp (p_rts_flags (procs s rp) AND NOT f) s"
  have "s' = s1 \<or> enqueue rp s1 = Some s'"
    using assms by (auto simp: RTS_UNSET_def Let_def s1_def split: if_splits)
  then have "\<forall>n. n \<noteq> proc_ptr s1 \<longrightarrow> p_rts_flags (procs s' n) = p_rts_flags (procs s1 n)"
    using enqueue_rts [of rp s1 s'] by blast
  with RTS_UNSET_sched_view [OF assms] show ?thesis by (simp add: sched_rel_def s1_def)
qed

lemma procs_sched_view:
  "procs (sched_view s) n = (procs s n)\<lparr>p_nextready := None, p_priority := 0, p_ticks_left := 0,
     p_rts_flags := p_rts_flags (procs s n) AND NOT RTS_PREEMPTED\<rparr>"
  by (simp add: sched_view_def)

lemma sched_view_procs:
  assumes "sched_view s' = sched_view s"
  shows "(procs s' n)\<lparr>p_nextready := None, p_priority := 0, p_ticks_left := 0,
      p_rts_flags := p_rts_flags (procs s' n) AND NOT RTS_PREEMPTED\<rparr> =
    (procs s n)\<lparr>p_nextready := None, p_priority := 0, p_ticks_left := 0,
      p_rts_flags := p_rts_flags (procs s n) AND NOT RTS_PREEMPTED\<rparr>"
  by (rule box_equals [OF arg_cong [OF assms, of "\<lambda>s. procs s n"] procs_sched_view procs_sched_view])

lemma has_any_preempted:
  assumes "x AND NOT RTS_PREEMPTED = y AND NOT RTS_PREEMPTED" and "f AND NOT RTS_PREEMPTED = f"
  shows "x AND f = y AND f"
proof -
  have "z AND f = (z AND NOT RTS_PREEMPTED) AND f" for z :: "16 word"
    by (subst assms(2) [symmetric]) (simp only: ac_simps)
  then show ?thesis using assms(1) by metis
qed

lemma sched_view_fields:
  assumes "sched_view s' = sched_view s"
  shows "p_nr (procs s' n) = p_nr (procs s n)" "p_priv (procs s' n) = p_priv (procs s n)"
    "p_misc_flags (procs s' n) = p_misc_flags (procs s n)" "p_memmap (procs s' n) = p_memmap (procs s n)"
    "p_caller_q (procs s' n) = p_caller_q (procs s n)" "p_q_link (procs s' n) = p_q_link (procs s n)"
    "p_getfrom_e (procs s' n) = p_getfrom_e (procs s n)" "p_sendto_e (procs s' n) = p_sendto_e (procs s n)"
    "p_pending (procs s' n) = p_pending (procs s n)" "p_endpoint (procs s' n) = p_endpoint (procs s n)"
    "p_sendmsg (procs s' n) = p_sendmsg (procs s n)" "p_delivermsg (procs s' n) = p_delivermsg (procs s n)"
    "syscall_0x80 (procs s' n) = syscall_0x80 (procs s n)" "p_retreg (procs s' n) = p_retreg (procs s n)"
    "f AND NOT RTS_PREEMPTED = f \<Longrightarrow> p_rts_flags (procs s' n) AND f = p_rts_flags (procs s n) AND f"
    "privs s' = privs s" "proc_ptr s' = proc_ptr s" "intr_off s' = intr_off s" "locklevel s' = locklevel s"
    "umsg s' = umsg s" "uvmsg s' = uvmsg s" "uword s' = uword s" "uword_wr s' = uword_wr s"
    "stack_junk s' = stack_junk s" "realtime s' = realtime s" "p_max_priority (procs s' n) = p_max_priority (procs s n)"
proof -
  note e = sched_view_procs [OF assms, of n]
  show "p_nr (procs s' n) = p_nr (procs s n)" using arg_cong [OF e, of p_nr] by simp
  show "p_priv (procs s' n) = p_priv (procs s n)" using arg_cong [OF e, of p_priv] by simp
  show "p_misc_flags (procs s' n) = p_misc_flags (procs s n)" using arg_cong [OF e, of p_misc_flags] by simp
  show "p_memmap (procs s' n) = p_memmap (procs s n)" using arg_cong [OF e, of p_memmap] by simp
  show "p_caller_q (procs s' n) = p_caller_q (procs s n)" using arg_cong [OF e, of p_caller_q] by simp
  show "p_q_link (procs s' n) = p_q_link (procs s n)" using arg_cong [OF e, of p_q_link] by simp
  show "p_getfrom_e (procs s' n) = p_getfrom_e (procs s n)" using arg_cong [OF e, of p_getfrom_e] by simp
  show "p_sendto_e (procs s' n) = p_sendto_e (procs s n)" using arg_cong [OF e, of p_sendto_e] by simp
  show "p_pending (procs s' n) = p_pending (procs s n)" using arg_cong [OF e, of p_pending] by simp
  show "p_endpoint (procs s' n) = p_endpoint (procs s n)" using arg_cong [OF e, of p_endpoint] by simp
  show "p_sendmsg (procs s' n) = p_sendmsg (procs s n)" using arg_cong [OF e, of p_sendmsg] by simp
  show "p_delivermsg (procs s' n) = p_delivermsg (procs s n)" using arg_cong [OF e, of p_delivermsg] by simp
  show "syscall_0x80 (procs s' n) = syscall_0x80 (procs s n)" using arg_cong [OF e, of syscall_0x80] by simp
  show "p_retreg (procs s' n) = p_retreg (procs s n)" using arg_cong [OF e, of p_retreg] by simp
  show "p_max_priority (procs s' n) = p_max_priority (procs s n)" using arg_cong [OF e, of p_max_priority] by simp
  have "p_rts_flags (procs s' n) AND NOT RTS_PREEMPTED = p_rts_flags (procs s n) AND NOT RTS_PREEMPTED"
    using arg_cong [OF e, of p_rts_flags] by simp
  then show "f AND NOT RTS_PREEMPTED = f \<Longrightarrow> p_rts_flags (procs s' n) AND f = p_rts_flags (procs s n) AND f"
    by (rule has_any_preempted)
  show "privs s' = privs s" using arg_cong [OF assms, of privs] by (simp add: sched_view_def)
  show "proc_ptr s' = proc_ptr s" using arg_cong [OF assms, of proc_ptr] by (simp add: sched_view_def)
  show "intr_off s' = intr_off s" using arg_cong [OF assms, of intr_off] by (simp add: sched_view_def)
  show "locklevel s' = locklevel s" using arg_cong [OF assms, of locklevel] by (simp add: sched_view_def)
  show "umsg s' = umsg s" using arg_cong [OF assms, of umsg] by (simp add: sched_view_def)
  show "uvmsg s' = uvmsg s" using arg_cong [OF assms, of uvmsg] by (simp add: sched_view_def)
  show "uword s' = uword s" using arg_cong [OF assms, of uword] by (simp add: sched_view_def)
  show "uword_wr s' = uword_wr s" using arg_cong [OF assms, of uword_wr] by (simp add: sched_view_def)
  show "stack_junk s' = stack_junk s" using arg_cong [OF assms, of stack_junk] by (simp add: sched_view_def)
  show "realtime s' = realtime s" using arg_cong [OF assms, of realtime] by (simp add: sched_view_def)
qed

lemma sched_rel_ipcv: "sched_rel s s' \<Longrightarrow> ipcv s' = ipcv s"
  by (rule ext) (simp add: ipcv_def ipcp_def sched_rel_def sched_view_fields [of s' s])

section \<open>The kernel invariant\<close>

abbreviation live :: "kstate \<Rightarrow> int \<Rightarrow> bool" where
  "live s n \<equiv> valid_nr n \<and> \<not> has_any (p_rts_flags (procs s n)) RTS_SLOT_FREE"

text \<open>A free slot has no other flag.\<close>

definition free_ok :: "kstate \<Rightarrow> bool" where
  "free_ok s \<longleftrightarrow> (\<forall>n. valid_nr n \<longrightarrow> has_any (p_rts_flags (procs s n)) RTS_SLOT_FREE \<longrightarrow>
     p_rts_flags (procs s n) = RTS_SLOT_FREE)"

text \<open>
  The tables refer to each other: a process in use has a privilege structure that names a
  process, pending notifications come from such structures, and no process may send to its
  own structure.
\<close>

definition tables_ok :: "kstate \<Rightarrow> bool" where
  "tables_ok s \<longleftrightarrow>
     (\<forall>n. valid_nr n \<longrightarrow> p_nr (procs s n) = n) \<and>
     (\<forall>n. live s n \<longrightarrow> 0 \<le> p_priv (procs s n) \<and> p_priv (procs s n) < NR_SYS_PROCS \<and>
        valid_nr (s_proc_nr (priv_of s n)) \<and>
        \<not> get_sys_bit (s_ipc_to (priv_of s n)) (s_id (priv_of s n)) \<and>
        (\<forall>i. 0 \<le> i \<and> i < NR_SYS_PROCS \<longrightarrow> get_sys_bit (s_notify_pending (priv_of s n)) i \<longrightarrow>
           valid_nr (s_proc_nr (privs s i)))) \<and>
     (\<forall>i. 0 \<le> i \<and> i < NR_SYS_PROCS \<longrightarrow> s_id (privs s i) = i \<and>
        (s_proc_nr (privs s i) = ENDPT_NONE \<or> valid_nr (s_proc_nr (privs s i))))"

abbreviation (input) PM_NEVER :: "16 word" where
  "PM_NEVER \<equiv> MF_SC_TRACE OR MF_SIG_DELAY"

text \<open>The process manager and the system task are there; the former is neither traced nor signalled.\<close>

definition pm_ok :: "kstate \<Rightarrow> bool" where
  "pm_ok s \<longleftrightarrow> live s PM_PROC_NR \<and> live s SYSTEM \<and> \<not> has_any (p_misc_flags (procs s PM_PROC_NR)) PM_NEVER"

definition ksane :: "kstate \<Rightarrow> bool" where
  "ksane s \<longleftrightarrow> free_ok s \<and> tables_ok s \<and> pm_ok s \<and> live s (proc_ptr s) \<and> lock_ok s"

definition kinv :: "kstate \<Rightarrow> bool" where
  "kinv s \<longleftrightarrow> runq_inv s \<and> ksane s \<and> ipc_ok (ipcv s)"

lemma sched_rel_ksane:
  assumes r: "sched_rel s s'" and k: "ksane s"
  shows "ksane s'"
proof -
  have v: "sched_view s' = sched_view s"
    and o: "\<And>n. n \<noteq> proc_ptr s \<Longrightarrow> p_rts_flags (procs s' n) = p_rts_flags (procs s n)"
    using r by (auto simp: sched_rel_def)
  note f = sched_view_fields [OF v]
  have l: "has_any (p_rts_flags (procs s' n)) RTS_SLOT_FREE \<longleftrightarrow> has_any (p_rts_flags (procs s n)) RTS_SLOT_FREE" for n
    using f(15) [of RTS_SLOT_FREE n] by simp
  have p: "priv_of s' n = priv_of s n" for n by (simp add: priv_of_def f)
  have "free_ok s'"
    using k unfolding ksane_def free_ok_def l by (metis l o)
  moreover have "tables_ok s'" using k unfolding ksane_def tables_ok_def l p by (simp add: f)
  moreover have "pm_ok s'" using k unfolding ksane_def pm_ok_def l by (simp add: f)
  ultimately show ?thesis using k unfolding ksane_def l by (simp add: f lock_ok_def)
qed

section \<open>Reading the view\<close>

lemma and_flag_eq:
  "x AND RTS_RECEIVING = RTS_RECEIVING \<longleftrightarrow> has_any x RTS_RECEIVING"
  "x AND RTS_SENDING = RTS_SENDING \<longleftrightarrow> has_any x RTS_SENDING"
  "x AND RTS_NO_ENDPOINT = RTS_NO_ENDPOINT \<longleftrightarrow> has_any x RTS_NO_ENDPOINT"
  "x AND RTS_SIGNALED = RTS_SIGNALED \<longleftrightarrow> has_any x RTS_SIGNALED"
  using and_one_bit [of x 3] and_one_bit [of x 2] and_one_bit [of x 8] and_one_bit [of x 4]
  by (simp_all add: push_bit_eq_mult split: if_splits)

lemma RTS_ISSET_view [simp]:
  "RTS_ISSET (procs s n) RTS_RECEIVING = i_recv (ipcv s n)"
  "RTS_ISSET (procs s n) RTS_SENDING = i_send (ipcv s n)"
  "RTS_ISSET (procs s n) RTS_NO_ENDPOINT = i_dead (ipcv s n)"
  by (simp_all add: RTS_ISSET_def and_flag_eq ipcv_def ipcp_def)

lemma ipcv_sel:
  "p_sendto_e (procs s n) = i_sendto (ipcv s n)" "p_getfrom_e (procs s n) = i_getfrom (ipcv s n)"
  "p_endpoint (procs s n) = i_ep (ipcv s n)" "p_caller_q (procs s n) = i_callq (ipcv s n)"
  "p_q_link (procs s n) = i_link (ipcv s n)"
  "has_any (p_rts_flags (procs s n)) RTS_SLOT_FREE = i_empty (ipcv s n)"
  by (simp_all add: ipcv_def ipcp_def)

lemma live_view: "live s n \<longleftrightarrow> valid_nr n \<and> \<not> i_empty (ipcv s n)"
  by (simp add: ipcv_def ipcp_def)

lemma ipcv_upd_proc: "ipcv (upd_proc n f s) = (ipcv s)(n := ipcp (f (procs s n)))"
  by (auto simp: ipcv_def upd_proc_def fun_eq_iff)

lemma ipcv_other [simp]:
  "ipcv (upd_priv i g s) = ipcv s" "ipcv (upd_priv_of n g s) = ipcv s" "ipcv (put_word q a w s) = ipcv s"
  by (simp_all add: ipcv_def upd_priv_def upd_priv_of_def put_word_def fun_eq_iff)

lemma ipcv_set_q_link [simp]: "ipcv (set_q_link x l s) = v_set_link x l (ipcv s)"
  and ipcv_set_caller_q [simp]: "ipcv (set_caller_q d l s) = v_set_callq d l (ipcv s)"
  by (auto simp: set_q_link_def set_caller_q_def ipcv_def ipcp_def v_set_link_def v_set_callq_def fun_eq_iff)

lemma ipcv_cell_wr [simp]:
  "ipcv (cell_wr (set_caller_q d) set_q_link c l s) = cell_wr (v_set_callq d) v_set_link c l (ipcv s)"
  by (simp add: cell_wr_def split: cell.splits)

lemma ipcv_rts:
  "ipcv (set_rts n (p_rts_flags (procs s n) AND NOT RTS_RECEIVING) s) = v_unrecv n (ipcv s)"
  "ipcv (set_rts n (p_rts_flags (procs s n) AND NOT RTS_SENDING) s) = (ipcv s)(n := (ipcv s n)\<lparr>i_send := False\<rparr>)"
  "ipcv (set_rts n (p_rts_flags (procs s n) OR RTS_RECEIVING) s) = (ipcv s)(n := (ipcv s n)\<lparr>i_recv := True\<rparr>)"
  "ipcv (set_rts n (p_rts_flags (procs s n) OR RTS_SENDING) s) = (ipcv s)(n := (ipcv s n)\<lparr>i_send := True\<rparr>)"
  "ipcv (set_rts n (p_rts_flags (procs s n) OR (RTS_SIGNALED OR RTS_SIG_PENDING)) s) = ipcv s"
  by (auto simp: set_rts_def ipcv_def ipcp_def v_unrecv_def fun_eq_iff flag_simps and.assoc)

section \<open>Updates that keep the invariant\<close>

text \<open>The part of the invariant that does not look at blocking.\<close>

definition kcore :: "kstate \<Rightarrow> bool" where
  "kcore s \<longleftrightarrow> runq_inv s \<and> ksane s"

lemma kinv_alt: "kinv s \<longleftrightarrow> kcore s \<and> ipc_ok (ipcv s)"
  by (simp add: kinv_def kcore_def conj_assoc)

text \<open>An update of a process table entry that only touches fields of no concern.\<close>

definition quiet :: "proc \<Rightarrow> proc \<Rightarrow> bool" where
  "quiet p p' \<longleftrightarrow> p_rts_flags p' = p_rts_flags p \<and> p_nr p' = p_nr p \<and> p_priv p' = p_priv p \<and>
     p_nextready p' = p_nextready p \<and> p_priority p' = p_priority p \<and> p_max_priority p' = p_max_priority p \<and>
     (has_any (p_misc_flags p') PM_NEVER \<longrightarrow> has_any (p_misc_flags p) PM_NEVER)"

lemma runq_inv_cong:
  assumes "\<And>n. nextreadys s' n = nextreadys s n" "rdy_head s' = rdy_head s" "rdy_tail s' = rdy_tail s"
    "proc_ptr s' = proc_ptr s" "\<And>n. p_rts_flags (procs s' n) = p_rts_flags (procs s n)"
    "\<And>n. p_priority (procs s' n) = p_priority (procs s n)"
    "\<And>n. p_max_priority (procs s' n) = p_max_priority (procs s n)"
  shows "runq_inv s' = runq_inv s"
  using assms by (simp add: runq_inv_def queues_def runnables_def prio_ok_def proc_is_runnable_def)

lemma kcore_upd_proc:
  assumes k: "kcore s" and q: "quiet (procs s n) (f (procs s n))"
  shows "kcore (upd_proc n f s)"
proof -
  let ?s = "upd_proc n f s"
  have f: "nextreadys ?s m = nextreadys s m" "p_rts_flags (procs ?s m) = p_rts_flags (procs s m)"
    "p_priority (procs ?s m) = p_priority (procs s m)" "p_max_priority (procs ?s m) = p_max_priority (procs s m)"
    "p_nr (procs ?s m) = p_nr (procs s m)" "p_priv (procs ?s m) = p_priv (procs s m)" for m
    using q by (auto simp: quiet_def)
  have g: "rdy_head ?s = rdy_head s" "rdy_tail ?s = rdy_tail s" "proc_ptr ?s = proc_ptr s" "privs ?s = privs s"
    "intr_off ?s = intr_off s" "locklevel ?s = locklevel s" "umsg ?s = umsg s"
    by (simp_all add: upd_proc_def)
  have p: "priv_of ?s m = priv_of s m" for m by (simp add: priv_of_def f g del: procs_upd_proc)
  have r: "runq_inv ?s = runq_inv s" by (rule runq_inv_cong) (simp_all only: f g)
  have pm: "pm_ok ?s" if "pm_ok s"
    using that q unfolding pm_ok_def quiet_def by (auto simp: f simp del: procs_upd_proc) (auto split: if_splits)
  show ?thesis
    using k pm unfolding kcore_def r ksane_def free_ok_def tables_ok_def lock_ok_def f g p by blast
qed

lemma kcore_upd_priv:
  assumes k: "kcore s"
    and q: "s_id (f (priv_of s n)) = s_id (priv_of s n)" "s_proc_nr (f (priv_of s n)) = s_proc_nr (priv_of s n)"
      "s_ipc_to (f (priv_of s n)) = s_ipc_to (priv_of s n)"
    and pend: "\<And>i. 0 \<le> i \<Longrightarrow> i < NR_SYS_PROCS \<Longrightarrow> get_sys_bit (s_notify_pending (f (priv_of s n))) i \<Longrightarrow>
      get_sys_bit (s_notify_pending (priv_of s n)) i \<or> valid_nr (s_proc_nr (privs s i))"
  shows "kcore (upd_priv_of n f s)"
proof -
  let ?s = "upd_priv_of n f s"
  have g: "procs ?s = procs s" "rdy_head ?s = rdy_head s" "rdy_tail ?s = rdy_tail s" "proc_ptr ?s = proc_ptr s"
    "intr_off ?s = intr_off s" "locklevel ?s = locklevel s" "umsg ?s = umsg s"
    by (simp_all add: upd_priv_of_def upd_priv_def)
  have pv: "s_id (privs ?s i) = s_id (privs s i)" "s_proc_nr (privs ?s i) = s_proc_nr (privs s i)"
    "s_ipc_to (privs ?s i) = s_ipc_to (privs s i)" for i
    using q by (auto simp: upd_priv_of_def upd_priv_def priv_of_def)
  have po: "s_id (priv_of ?s m) = s_id (priv_of s m)" "s_proc_nr (priv_of ?s m) = s_proc_nr (priv_of s m)"
    "s_ipc_to (priv_of ?s m) = s_ipc_to (priv_of s m)" for m
    by (simp_all add: priv_of_def pv g)
  have pd: "priv_of ?s m = (if p_priv (procs s m) = p_priv (procs s n) then f (priv_of s n) else priv_of s m)" for m
    by (simp add: priv_of_def upd_priv_of_def upd_priv_def)
  have r: "runq_inv ?s = runq_inv s" by (rule runq_inv_cong) (simp_all only: g)
  have t: "tables_ok s" using k by (simp add: kcore_def ksane_def)
  have "tables_ok ?s"
    unfolding tables_ok_def g pv po
  proof (intro conjI allI impI)
    fix m i assume lm: "live s m" and i: "0 \<le> i \<and> i < NR_SYS_PROCS"
      and b: "get_sys_bit (s_notify_pending (priv_of ?s m)) i"
    show "valid_nr (s_proc_nr (privs s i))"
    proof (cases "p_priv (procs s m) = p_priv (procs s n)")
      case True
      then have "get_sys_bit (s_notify_pending (f (priv_of s n))) i" using b by (simp add: pd)
      moreover have "priv_of s m = priv_of s n" using True by (simp add: priv_of_def)
      ultimately show ?thesis using pend [of i] i t lm unfolding tables_ok_def by metis
    next
      case False
      with b i t lm show ?thesis unfolding tables_ok_def by (auto simp: pd)
    qed
  qed (use t in \<open>auto simp: tables_ok_def\<close>)
  with k show ?thesis unfolding kcore_def r ksane_def free_ok_def pm_ok_def lock_ok_def g by blast
qed

lemma kcore_set_rts_ksane:
  assumes k: "ksane s" and l: "live s n" and f: "f AND RTS_SLOT_FREE = 0"
  shows "ksane (set_rts n f s)"
proof -
  let ?s = "set_rts n f s"
  have lv: "live ?s m \<longleftrightarrow> live s m" for m using l f by (auto simp: set_rts_def)
  have g: "proc_ptr ?s = proc_ptr s" "privs ?s = privs s" "intr_off ?s = intr_off s" "locklevel ?s = locklevel s"
    "p_nr (procs ?s m) = p_nr (procs s m)" "p_priv (procs ?s m) = p_priv (procs s m)"
    "p_misc_flags (procs ?s m) = p_misc_flags (procs s m)"
    "syscall_0x80 (procs ?s m) = syscall_0x80 (procs s m)" "umsg ?s = umsg s" for m
    by (simp_all add: set_rts_def upd_proc_def)
  have p: "priv_of ?s m = priv_of s m" for m by (simp add: priv_of_def g)
  have fr: "free_ok ?s" using k f by (auto simp: ksane_def free_ok_def set_rts_def)
  have "tables_ok ?s" using k unfolding ksane_def tables_ok_def lv p g by blast
  moreover have "pm_ok ?s" using k unfolding ksane_def pm_ok_def lv g by blast
  ultimately show ?thesis using k fr unfolding ksane_def lv lock_ok_def g by blast
qed

lemma RTS_UNSET_core:
  assumes k: "kcore s" and l: "live s n"
  shows "\<exists>s'. RTS_UNSET n f s = Some s' \<and> kcore s' \<and> sched_rel (set_rts n (p_rts_flags (procs s n) AND NOT f) s) s'"
proof -
  from RTS_UNSET_inv [of s n f] k l obtain s' where u: "RTS_UNSET n f s = Some s'" and i: "runq_inv s'"
    by (auto simp: kcore_def)
  have "(p_rts_flags (procs s n) AND NOT f) AND RTS_SLOT_FREE = (p_rts_flags (procs s n) AND RTS_SLOT_FREE) AND NOT f"
    by (simp only: ac_simps)
  then have "(p_rts_flags (procs s n) AND NOT f) AND RTS_SLOT_FREE = 0" using l by simp
  then have "ksane (set_rts n (p_rts_flags (procs s n) AND NOT f) s)"
    using k l kcore_set_rts_ksane by (simp add: kcore_def)
  with RTS_UNSET_rel [OF u] sched_rel_ksane have "ksane s'" by blast
  with u i RTS_UNSET_rel [OF u] show ?thesis by (auto simp: kcore_def)
qed

lemma RTS_SET_core:
  assumes k: "kcore s" and l: "live s n" and f: "f \<noteq> 0" "f AND RTS_SLOT_FREE = 0"
  shows "\<exists>s'. RTS_SET n f s = Some s' \<and> kcore s' \<and> sched_rel (set_rts n (p_rts_flags (procs s n) OR f) s) s'"
proof -
  from RTS_SET_inv [of s n f] k l f obtain s' where u: "RTS_SET n f s = Some s'" and i: "runq_inv s'"
    by (auto simp: kcore_def)
  have "(p_rts_flags (procs s n) OR f) AND RTS_SLOT_FREE = 0" using l f by (simp add: or_and_dist)
  then have "ksane (set_rts n (p_rts_flags (procs s n) OR f) s)"
    using k l kcore_set_rts_ksane by (simp add: kcore_def)
  with RTS_SET_rel [OF u] sched_rel_ksane have "ksane s'" by blast
  with u i RTS_SET_rel [OF u] show ?thesis by (auto simp: kcore_def)
qed

section \<open>Endpoints\<close>

lemma c_rem_bound: "0 < b \<Longrightarrow> \<bar>c_rem a b\<bar> < b"
proof -
  assume b: "0 < b"
  have "c_rem a b = sgn a * (\<bar>a\<bar> mod b)"
    using b by (cases a "0::int" rule: linorder_cases)
      (simp_all add: c_rem_def c_div_def minus_div_mult_eq_mod [symmetric] algebra_simps)
  moreover have "0 \<le> \<bar>a\<bar> mod b" "\<bar>a\<bar> mod b < b" using b by auto
  ultimately show ?thesis by (cases a "0::int" rule: linorder_cases) (auto simp: b)
qed

lemma ENDPOINT_P_range: "-2147483648 \<le> ENDPOINT_P e + 4" "ENDPOINT_P e + 4 \<le> 2147483647"
  using c_rem_bound [of 36558 "wrap32 (e + 1023)"] by (simp_all add: ENDPOINT_P_def abs_less_iff)

lemma small_mod:
  assumes "-2147483648 \<le> n" and "(n::int) \<le> 2147483647"
  shows "n mod 4294967296 < 104 \<longleftrightarrow> 0 \<le> n \<and> n < 104"
proof (cases "0 \<le> n")
  case True
  with assms show ?thesis by simp
next
  case False
  have "n mod 4294967296 = (n + 4294967296) mod 4294967296" by simp
  also have "\<dots> = n + 4294967296" using False assms by (intro mod_pos_pos_trivial) auto
  finally show ?thesis using False assms by simp
qed

lemma isokprocn_valid: "-2147483648 \<le> n + 4 \<Longrightarrow> n + 4 \<le> 2147483647 \<Longrightarrow> isokprocn n \<longleftrightarrow> valid_nr n"
  using small_mod [of "n + 4"] by (auto simp: isokprocn_def valid_nr_def uwrap32_def)

lemmas isokprocn_ENDPOINT_P = isokprocn_valid [OF ENDPOINT_P_range]

lemma isemptyp_view: "ksane s \<Longrightarrow> valid_nr n \<Longrightarrow> isemptyp (procs s n) = i_empty (ipcv s n)"
  by (auto simp: ksane_def free_ok_def isemptyp_def ipcv_def ipcp_def)

lemma isokendpt_view:
  assumes "ksane s"
  shows "isokendpt s e = (if valid_nr (ENDPOINT_P e) \<and> \<not> i_empty (ipcv s (ENDPOINT_P e)) \<and>
    i_ep (ipcv s (ENDPOINT_P e)) = e then Some (ENDPOINT_P e) else None)"
  using isemptyp_view [OF assms, of "ENDPOINT_P e"]
  by (auto simp: isokendpt_def Let_def isokprocn_ENDPOINT_P ipcv_sel)

lemma isokendptD:
  assumes "ksane s" and "isokendpt s e = Some d"
  shows "d = ENDPOINT_P e" "live s d" "i_ep (ipcv s d) = e" "\<not> i_empty (ipcv s d)" "valid_nr d"
  using assms isokendpt_view [OF assms(1), of e] by (auto simp: ipcv_sel split: if_splits)

lemma isokendpt_ep_ok: "ksane s \<Longrightarrow> ep_ok (ipcv s) e \<Longrightarrow> isokendpt s e = Some (ENDPOINT_P e)"
  by (simp add: isokendpt_view ep_ok_def Let_def)

lemma ENDPOINT_P_ANY: "ENDPOINT_P ENDPT_ANY = ENDPT_ANY"
  by (simp add: ENDPOINT_P_def c_rem_def c_div_def wrap32_def)

lemma not_valid_ANY [simp]: "\<not> valid_nr ENDPT_ANY"
  by (simp add: valid_nr_def)

lemma kcoreD: "kcore s \<Longrightarrow> ksane s" "kcore s \<Longrightarrow> runq_inv s"
  by (simp_all add: kcore_def)

lemma kinvD: "kinv s \<Longrightarrow> ksane s" "kinv s \<Longrightarrow> kcore s" "kinv s \<Longrightarrow> ipc_ok (ipcv s)"
  "kinv s \<Longrightarrow> blocked_ok (ipcv s)" "kinv s \<Longrightarrow> acyc (waits (ipcv s))"
  by (simp_all add: kinv_def kcore_def ipc_ok_def)

lemma p_nr_valid: "ksane s \<Longrightarrow> valid_nr n \<Longrightarrow> p_nr (procs s n) = n"
  by (simp add: ksane_def tables_ok_def)

section \<open>Deadlock detection ends\<close>

lemma valid_set: "{n. valid_nr n} = {- NR_TASKS..<NR_PROCS}"
  by (auto simp: valid_nr_def)

lemma path_length:
  assumes "set us \<subseteq> {n. valid_nr n} - {c}" and "distinct us" and "valid_nr c"
  shows "length us \<le> 103"
proof -
  have "length us = card (set us)" using assms(2) by (simp add: distinct_card)
  also have "\<dots> \<le> card ({- NR_TASKS..<NR_PROCS} - {c})"
    using assms(1) by (intro card_mono) (auto simp: valid_set)
  also have "\<dots> = 103" using assms(3) by (simp add: valid_nr_def)
  finally show ?thesis .
qed

text \<open>One step of the loop follows \<^const>\<open>waits\<close>.\<close>

lemma deadlock_step:
  assumes k: "ksane s" and b: "blocked_ok (ipcv s)" and d: "valid_nr d" and c: "valid_nr c" and g: "g < NR_TASKS + NR_PROCS"
  shows "deadlock_loop fn c d g s = (case waits (ipcv s) d of
      None \<Rightarrow> Some 0
    | Some m \<Rightarrow> if m = c then
          (if g + 1 = 2 \<and> has_any (p_rts_flags (procs s d) XOR push_bit 2 (word_of_int fn)) RTS_SENDING
           then Some 0 else Some (g + 1))
        else deadlock_loop fn c m (g + 1) s)"
proof -
  note bd = blocked_okD [OF b d]
  have any: "deadlock_loop fn c ENDPT_ANY h s = Some 0" for h by (simp add: deadlock_loop.simps)
  have ne: "d \<noteq> ENDPT_ANY" "c \<noteq> ENDPT_ANY" using c d by auto
  show ?thesis
    using ne d c g bd isokendpt_ep_ok [OF k] any p_nr_valid [OF k c]
    by (subst deadlock_loop.simps) (auto simp: Let_def okendpt_def waits_def ipcv_sel)
qed

text \<open>
  What the loop returns: zero if the caller is not on the path of those waiting for each other, or if
  the destination waits for the caller alone and the two complement each other; the size of the
  circle otherwise.
\<close>

lemma deadlock_path:
  assumes k: "ksane s" and b: "blocked_ok (ipcv s)" and c: "valid_nr c"
  shows "chain (waits (ipcv s)) (Some d) ds \<Longrightarrow> valid_nr d \<Longrightarrow> d \<noteq> c \<Longrightarrow>
    g + int (length (takeWhile (\<lambda>x. x \<noteq> c) ds)) \<le> NR_TASKS + NR_PROCS \<Longrightarrow> 1 \<le> g \<Longrightarrow>
    deadlock_loop fn c d g s = Some
      (if c \<notin> set ds then 0
       else if g = 1 \<and> waits (ipcv s) d = Some c \<and>
         has_any (p_rts_flags (procs s d) XOR push_bit 2 (word_of_int fn)) RTS_SENDING then 0
       else g + int (length (takeWhile (\<lambda>x. x \<noteq> c) ds)))"
proof (induction ds arbitrary: d g)
  case (Cons x ds)
  then have x: "x = d" and ch: "chain (waits (ipcv s)) (waits (ipcv s) d) ds" by auto
  have g: "g < NR_TASKS + NR_PROCS" using Cons.prems(3,4) x by simp
  note st = deadlock_step [OF k b Cons.prems(2) c g, of fn]
  show ?case
  proof (cases "waits (ipcv s) d")
    case None
    with ch Cons.prems(3) st x show ?thesis by simp
  next
    case (Some m)
    have vm: "valid_nr m" by (rule waits_valid [OF b Cons.prems(2) Some])
    show ?thesis
    proof (cases "m = c")
      case True
      with Some ch st x Cons.prems(3) show ?thesis by (auto simp: chain_Some)
    next
      case False
      from Some ch have "chain (waits (ipcv s)) (Some m) ds" by simp
      moreover have "g + 1 + int (length (takeWhile (\<lambda>x. x \<noteq> c) ds)) \<le> NR_TASKS + NR_PROCS"
        using Cons.prems(3,4) x by simp
      ultimately show ?thesis
        using Cons.IH [of m "g + 1"] vm False Cons.prems(3,5) st Some x by simp
    qed
  qed
qed simp

lemma deadlock_exact:
  assumes k: "ksane s" and i: "ipc_ok (ipcv s)" and c: "valid_nr c" and d: "valid_nr d" and ne: "d \<noteq> c"
    and ds: "chain (waits (ipcv s)) (Some d) ds"
  shows "deadlock fn c d s = Some
    (if c \<notin> set ds then 0
     else if waits (ipcv s) d = Some c \<and>
       has_any (p_rts_flags (procs s d) XOR push_bit 2 (word_of_int fn)) RTS_SENDING then 0
     else 1 + int (length (takeWhile (\<lambda>x. x \<noteq> c) ds)))"
proof -
  have b: "blocked_ok (ipcv s)" using i by (simp add: ipc_ok_def)
  let ?us = "takeWhile (\<lambda>x. x \<noteq> c) ds"
  have "set ?us \<subseteq> {n. valid_nr n} - {c}"
    using path_valid [OF b d ds] by (auto dest: set_takeWhileD)
  moreover have "distinct ?us" using chain_distinct [OF ds] by simp
  ultimately have "length ?us \<le> 103" using path_length c by blast
  then have "1 + int (length ?us) \<le> NR_TASKS + NR_PROCS" by simp
  from deadlock_path [OF k b c ds d ne this, of fn] show ?thesis
    unfolding deadlock_def by simp
qed

lemma waits_path: "ipc_ok v \<Longrightarrow> valid_nr d \<Longrightarrow> \<exists>ds. chain (waits v) (Some d) ds"
  by (auto simp: ipc_ok_def acyc_def)

lemma deadlock_spec:
  assumes k: "ksane s" and i: "ipc_ok (ipcv s)" and c: "valid_nr c" and d: "valid_nr d" and ne: "d \<noteq> c"
  shows "\<exists>r ds. deadlock fn c d s = Some r \<and> chain (waits (ipcv s)) (Some d) ds \<and> (c \<notin> set ds \<longrightarrow> r = 0) \<and>
    (c \<in> set ds \<longrightarrow> r = 0 \<longrightarrow> waits (ipcv s) d = Some c \<and>
       has_any (p_rts_flags (procs s d) XOR push_bit 2 (word_of_int fn)) RTS_SENDING)"
proof -
  obtain ds where ds: "chain (waits (ipcv s)) (Some d) ds" using waits_path [OF i d] by blast
  have "1 + int n \<noteq> 0" for n by simp
  then show ?thesis
    using deadlock_exact [OF assms ds, of fn] ds
    by (intro exI [of _ "the (deadlock fn c d s)"] exI [of _ ds]) (simp split: if_splits)
qed

end
