(* ===== verification/Kernel_Ipc_Spec.thy ===== *)
theory Kernel_Ipc_Spec
  imports Kernel_Inv
begin

text \<open>
  What the routines of \<^verbatim>\<open>kernel/proc.c\<close> do to the kernel invariant and to the view of blocked
  processes: each returns, on every path, in a state where the invariant holds.
\<close>

section \<open>Delivery and notification\<close>

lemma upd_priv_of_sel [simp]:
  "procs (upd_priv_of n f s) = procs s" "proc_ptr (upd_priv_of n f s) = proc_ptr s"
  "intr_off (upd_priv_of n f s) = intr_off s" "locklevel (upd_priv_of n f s) = locklevel s"
  by (simp_all add: upd_priv_of_def upd_priv_def)

lemma upd_proc_sel [simp]:
  "proc_ptr (upd_proc n g s) = proc_ptr s" "privs (upd_proc n g s) = privs s"
  "intr_off (upd_proc n g s) = intr_off s" "locklevel (upd_proc n g s) = locklevel s"
  by (simp_all add: upd_proc_def)

lemma quiet_deliver: "quiet p (p\<lparr>p_delivermsg := m, p_misc_flags := p_misc_flags p OR MF_DELIVERMSG\<rparr>)"
  by (simp add: quiet_def flag_simps)

lemma deliver_kept:
  fixes d :: int and m :: kipc_msg
  assumes "kcore s"
  defines "s' \<equiv> upd_proc d (\<lambda>p. p\<lparr>p_delivermsg := m, p_misc_flags := p_misc_flags p OR MF_DELIVERMSG\<rparr>) s"
  shows "kcore s'" "ipcv s' = ipcv s" "proc_ptr s' = proc_ptr s"
proof -
  show "kcore s'" unfolding s'_def by (rule kcore_upd_proc [OF assms(1)]) (simp add: quiet_deliver)
  show "ipcv s' = ipcv s" "proc_ptr s' = proc_ptr s"
    by (simp_all add: s'_def ipcv_def ipcp_def fun_eq_iff upd_proc_def)
qed

lemma QueueMess_KBuf:
  assumes "kcore s"
  shows "\<exists>s'. QueueMess ep (KBuf m) d s = Some (0, s') \<and> kcore s' \<and> ipcv s' = ipcv s \<and> proc_ptr s' = proc_ptr s"
  using deliver_kept [OF assms, of d "m\<lparr>m_source := ep\<rparr>"] by (simp add: QueueMess_def)

lemma QueueMess_any:
  assumes "kcore s" and "syscall_0x80 (procs s d) \<Longrightarrow> fetch s m \<noteq> None"
  shows "\<exists>r s'. QueueMess ep m d s = Some (r, s') \<and> kcore s' \<and> ipcv s' = ipcv s \<and> proc_ptr s' = proc_ptr s \<and>
    (r \<noteq> 0 \<longrightarrow> r = - EFAULT \<and> s' = s)"
proof (cases "fetch s m")
  case None
  with assms show ?thesis by (auto simp: QueueMess_def)
next
  case (Some x)
  with deliver_kept [OF assms(1), of d "x\<lparr>m_source := ep\<rparr>"] show ?thesis by (simp add: QueueMess_def)
qed

lemma BuildNotify_kept:
  assumes "kcore s" and "live s d" and "BuildNotifyMessage src d s = (m, s')"
  shows "kcore s'" "ipcv s' = ipcv s" "proc_ptr s' = proc_ptr s"
  using assms kcore_upd_priv [OF assms(1), where n = d and f = "\<lambda>pr. pr\<lparr>s_int_pending := 0\<rparr>"]
    kcore_upd_priv [OF assms(1), where n = d and f = "\<lambda>pr. pr\<lparr>s_sig_pending := 0\<rparr>"]
  by (auto simp: BuildNotifyMessage_def Let_def split: if_splits)

lemma sched_rel_ptr: "sched_rel s s' \<Longrightarrow> proc_ptr s' = proc_ptr s"
  using sched_view_fields(17) [of s' s] by (simp add: sched_rel_def)

lemma unblock_receiver:
  assumes k: "kcore s" and l: "live s d"
  shows "\<exists>s'. RTS_UNSET d RTS_RECEIVING s = Some s' \<and> kcore s' \<and> ipcv s' = v_unrecv d (ipcv s) \<and> proc_ptr s' = proc_ptr s"
proof -
  from RTS_UNSET_core [OF assms, of RTS_RECEIVING] obtain s' where s': "RTS_UNSET d RTS_RECEIVING s = Some s'" "kcore s'"
    and r: "sched_rel (set_rts d (p_rts_flags (procs s d) AND NOT RTS_RECEIVING) s) s'" by blast
  have "ipcv s' = v_unrecv d (ipcv s)" using sched_rel_ipcv [OF r] by (simp only: ipcv_rts)
  moreover have "proc_ptr s' = proc_ptr s"
    using sched_rel_ptr [OF r] by (simp add: set_rts_def)
  ultimately show ?thesis using s' by blast
qed

text \<open>The view after a delivery attempt: unchanged, or one receiver, not sending, unblocked.\<close>

definition maybe_unrecv :: "ipcview \<Rightarrow> ipcview \<Rightarrow> bool" where
  "maybe_unrecv v v' \<longleftrightarrow> v' = v \<or> (\<exists>d. \<not> i_send (v d) \<and> v' = v_unrecv d v)"

lemma maybe_unrecv_ok: "maybe_unrecv v v' \<Longrightarrow> ipc_ok v \<Longrightarrow> ipc_ok v'"
  by (auto simp: maybe_unrecv_def v_unrecv_ok)

lemma maybe_unrecv_sel:
  assumes "maybe_unrecv v v'"
  shows "i_empty (v' n) = i_empty (v n)" "i_send (v' n) = i_send (v n)" "i_dead (v' n) = i_dead (v n)"
    "i_ep (v' n) = i_ep (v n)" "i_sendto (v' n) = i_sendto (v n)" "i_getfrom (v' n) = i_getfrom (v n)"
    "i_link (v' n) = i_link (v n)" "i_callq (v' n) = i_callq (v n)" "i_recv (v' n) \<Longrightarrow> i_recv (v n)"
  using assms by (auto simp: maybe_unrecv_def v_unrecv_def split: if_splits)

lemma maybe_unrecv_callers: "maybe_unrecv v v' \<Longrightarrow> callers_ok v' C = callers_ok v C"
  by (simp add: callers_ok_def senders_def reachable_ep_def maybe_unrecv_sel [of v v'])

lemma chunk_eq: "j = i \<longleftrightarrow> j div 16 = i div 16 \<and> nat (j mod 16) = nat (i mod 16)" for i j :: int
proof -
  have "nat (j mod 16) = nat (i mod 16) \<longleftrightarrow> j mod 16 = i mod 16"
    using pos_mod_sign [of 16 i] pos_mod_sign [of 16 j] by (simp add: eq_nat_nat_iff)
  moreover have "j = i" if "j div 16 = i div 16" "j mod 16 = i mod 16"
    using that by (metis div_mult_mod_eq)
  ultimately show ?thesis by auto
qed

lemma chunk_bit: "nat (j mod 16) < 16" for j :: int
  using pos_mod_bound [of 16 j] by simp

lemma get_set_sys_bit: "get_sys_bit (set_sys_bit m i) j \<longleftrightarrow> j = i \<or> get_sys_bit m j"
  unfolding get_sys_bit_def set_sys_bit_def chunk_eq [of j i] using chunk_bit [of j] chunk_bit [of i]
  by (cases "j div 16 = i div 16") (auto simp: bit_or_iff bit_push_bit_iff bit_exp_iff)

lemma get_unset_sys_bit: "get_sys_bit (unset_sys_bit m i) j \<longleftrightarrow> j \<noteq> i \<and> get_sys_bit m j"
  unfolding get_sys_bit_def unset_sys_bit_def chunk_eq [of j i] using chunk_bit [of j] chunk_bit [of i]
  by (cases "j div 16 = i div 16") (auto simp: bit_and_iff bit_not_iff bit_push_bit_iff bit_exp_iff)

lemma pend_kept:
  assumes k: "kcore s" and l: "live s d" and c: "live s c"
  shows "kcore (upd_priv_of d (\<lambda>pr. pr\<lparr>s_notify_pending :=
    set_sys_bit (s_notify_pending pr) (s_id (priv_of s c))\<rparr>) s)"
proof (rule kcore_upd_priv [OF k])
  fix i assume i: "0 \<le> i" "i < NR_SYS_PROCS"
    and b: "get_sys_bit (s_notify_pending ((priv_of s d)\<lparr>s_notify_pending :=
      set_sys_bit (s_notify_pending (priv_of s d)) (s_id (priv_of s c))\<rparr>)) i"
  have t: "tables_ok s" using k by (simp add: kcore_def ksane_def)
  then have "s_id (priv_of s c) = p_priv (procs s c)" and "valid_nr (s_proc_nr (priv_of s c))"
    using c unfolding tables_ok_def priv_of_def by blast+
  with b show "get_sys_bit (s_notify_pending (priv_of s d)) i \<or> valid_nr (s_proc_nr (privs s i))"
    by (auto simp: get_set_sys_bit priv_of_def)
qed simp_all

lemma mini_notify_spec:
  assumes k: "kcore s" and c: "live s c"
  shows "\<exists>r s'. mini_notify c dst_e s = Some (r, s') \<and> kcore s' \<and> maybe_unrecv (ipcv s) (ipcv s') \<and>
    proc_ptr s' = proc_ptr s \<and> (r = 0 \<or> s' = s)"
proof (cases "isokendpt s dst_e")
  case None
  with k show ?thesis by (simp add: mini_notify_def maybe_unrecv_def)
next
  case (Some d)
  note d = isokendptD [OF kcoreD(1) [OF k] Some]
  show ?thesis
  proof (cases "WILLRECEIVE (procs s d) (p_endpoint (procs s c)) \<and> \<not> has_any (p_misc_flags (procs s d)) MF_REPLY_PEND")
    case True
    obtain m s1 where b: "BuildNotifyMessage (p_nr (procs s c)) d s = (m, s1)" by fastforce
    note b' = BuildNotify_kept [OF k d(2) b]
    obtain s2 where q: "QueueMess (p_endpoint (procs s1 c)) (KBuf m) d s1 = Some (0, s2)" "kcore s2"
      "ipcv s2 = ipcv s1" "proc_ptr s2 = proc_ptr s1"
      using QueueMess_KBuf [OF b'(1), of "p_endpoint (procs s1 c)" m d] by blast
    have "live s2 d" unfolding live_view using d(4,5) by (simp add: q(3) b'(2))
    from unblock_receiver [OF q(2) this] obtain s3 where u: "RTS_UNSET d RTS_RECEIVING s2 = Some s3" "kcore s3"
      "ipcv s3 = v_unrecv d (ipcv s2)" "proc_ptr s3 = proc_ptr s2" by blast
    have "mini_notify c dst_e s = Some (0, s3)"
      unfolding mini_notify_def using Some True b q u by simp
    moreover have "maybe_unrecv (ipcv s) (ipcv s3)"
      unfolding maybe_unrecv_def using True u(3) q(3) b'(2) by (auto simp: WILLRECEIVE_def)
    ultimately show ?thesis using u q b' by auto
  next
    case False
    have "mini_notify c dst_e s = Some (0, upd_priv_of d (\<lambda>pr. pr\<lparr>s_notify_pending :=
        set_sys_bit (s_notify_pending pr) (s_id (priv_of s c))\<rparr>) s)"
      unfolding mini_notify_def using Some False by auto
    with pend_kept [OF k d(2) c] show ?thesis by (simp add: maybe_unrecv_def)
  qed
qed

lemma RTS_UNSET_lock:
  assumes "RTS_UNSET n f s = Some s'"
  shows "intr_off s' = intr_off s" "locklevel s' = locklevel s"
  using sched_view_fields(18,19) [OF RTS_UNSET_sched_view [OF assms]] by (simp_all add: set_rts_def)

lemma mini_notify_lock:
  assumes "mini_notify c dst_e s = Some (r, s')"
  shows "intr_off s' = intr_off s \<and> locklevel s' = locklevel s"
  using assms RTS_UNSET_lock
  by (fastforce simp: mini_notify_def QueueMess_def BuildNotifyMessage_def Let_def opt_simps
      split: option.splits if_splits)

lemma kcore_with_lock: 
  assumes "kcore s" and "0 \<le> b" and "\<not> a \<longrightarrow> b = 0"
  shows "kcore (with_lock a b s)"
proof -
  have "umsg (with_lock a b s) = umsg s" by (simp add: with_lock_def)
  then have "free_ok (with_lock a b s) = free_ok s" "tables_ok (with_lock a b s) = tables_ok s"
    "pm_ok (with_lock a b s) = pm_ok s"
    unfolding free_ok_def tables_ok_def pm_ok_def with_lock_sel by (rule refl | simp)+
  moreover have "lock_ok (with_lock a b s)" using assms by (simp add: lock_ok_def)
  ultimately show ?thesis using assms(1) by (simp add: kcore_def ksane_def)
qed

lemma ipcv_with_lock [simp]: "ipcv (with_lock a b s) = ipcv s"
  by (simp add: ipcv_def fun_eq_iff)

lemma with_lock_id: "with_lock (intr_off s) (locklevel s) s = s"
  by (simp add: with_lock_def)

lemma lock_notify_spec:
  assumes k: "kcore s" and off: "\<not> intr_off s"
  shows "\<exists>r s'. lock_notify src_e dst_e s = Some (r, s') \<and> kcore s' \<and> maybe_unrecv (ipcv s) (ipcv s') \<and>
    proc_ptr s' = proc_ptr s"
proof (cases "isokendpt s src_e")
  case None
  with k show ?thesis by (simp add: lock_notify_def maybe_unrecv_def)
next
  case (Some c)
  have l0: "locklevel s = 0" using k off by (simp add: kcore_def ksane_def lock_ok_def)
  define s1 where "s1 = with_lock True 1 s"
  have k1: "kcore s1" unfolding s1_def by (rule kcore_with_lock [OF k]) simp_all
  have c1: "live s1 c" using isokendptD(2) [OF kcoreD(1) [OF k] Some] by (simp add: s1_def)
  obtain r s2 where n: "mini_notify c dst_e s1 = Some (r, s2)" and k2: "kcore s2"
    and m: "maybe_unrecv (ipcv s1) (ipcv s2)" and p: "proc_ptr s2 = proc_ptr s1"
    using mini_notify_spec [OF k1 c1] by blast
  have lk: "intr_off s2 = intr_off s1" "locklevel s2 = locklevel s1" using mini_notify_lock [OF n] by simp_all
  have "realunlock s2 = Some (with_lock False 0 s2)"
    using lk by (simp add: realunlock_def s1_def with_lock_def Let_def)
  moreover have "reallock s = Some s1" using off l0 by (simp add: reallock_eq s1_def)
  ultimately have "lock_notify src_e dst_e s = Some (r, with_lock False 0 s2)"
    using Some n by (simp add: lock_notify_def)
  moreover have "kcore (with_lock False 0 s2)" by (rule kcore_with_lock [OF k2]) simp_all
  ultimately show ?thesis using m p by (simp add: s1_def)
qed

lemma send_sig_spec:
  assumes k: "kcore s" and l: "live s n"
  shows "\<exists>s'. send_sig n sig s = Some s' \<and> kcore s' \<and> maybe_unrecv (ipcv s) (ipcv s') \<and> proc_ptr s' = proc_ptr s"
proof -
  have "isokprocn n" using l isokprocn_valid [of n] by (simp add: valid_nr_def)
  moreover have "\<not> isemptyp (procs s n)" using l by (auto simp: isemptyp_def)
  moreover define s1 where "s1 = upd_priv_of n (\<lambda>pr. pr\<lparr>s_sig_pending := s_sig_pending pr OR sig_bit sig\<rparr>) s"
  moreover have k1: "kcore s1" unfolding s1_def by (rule kcore_upd_priv [OF k]) simp_all
  moreover have "live s1 SYSTEM" using k by (simp add: s1_def kcore_def ksane_def pm_ok_def)
  ultimately show ?thesis
    using lock_notify_spec [OF k1, of SYSTEM "p_endpoint (procs s1 n)"]
      mini_notify_spec [OF k1, of SYSTEM "p_endpoint (procs s1 n)"]
    by (cases "intr_off s1") (auto simp: send_sig_def)
qed

lemma signal_flags:
  assumes k: "kcore s" and l: "live s n"
  shows "\<exists>s'. RTS_LOCK_SET n (RTS_SIGNALED OR RTS_SIG_PENDING) s = Some s' \<and> kcore s' \<and> ipcv s' = ipcv s \<and>
    proc_ptr s' = proc_ptr s"
proof -
  from RTS_SET_core [OF k l, of "RTS_SIGNALED OR RTS_SIG_PENDING"] obtain s' where
    s': "RTS_SET n (RTS_SIGNALED OR RTS_SIG_PENDING) s = Some s'" "kcore s'"
    and r: "sched_rel (set_rts n (p_rts_flags (procs s n) OR (RTS_SIGNALED OR RTS_SIG_PENDING)) s) s'"
    by auto
  have "ipcv s' = ipcv s" using sched_rel_ipcv [OF r] by (simp only: ipcv_rts)
  moreover have "proc_ptr s' = proc_ptr s" using sched_rel_ptr [OF r] by (simp add: set_rts_def)
  moreover have "lock_ok s" using k by (simp add: kcore_def ksane_def)
  ultimately show ?thesis using s' RTS_LOCK_SET_eq by simp
qed

lemma cause_sig_spec:
  assumes k: "kcore s" and l: "live s n" and pm: "n \<noteq> PM_PROC_NR"
  shows "\<exists>s'. cause_sig n sig s = Some s' \<and> kcore s' \<and> maybe_unrecv (ipcv s) (ipcv s') \<and> proc_ptr s' = proc_ptr s"
proof -
  define s1 where "s1 = upd_proc n (\<lambda>p. p\<lparr>p_pending := p_pending p OR sig_bit sig\<rparr>) s"
  have k1: "kcore s1" unfolding s1_def by (rule kcore_upd_proc [OF k]) (simp add: quiet_def)
  have v1: "ipcv s1 = ipcv s" by (simp add: s1_def ipcv_def ipcp_def fun_eq_iff)
  have p1: "proc_ptr s1 = proc_ptr s" by (simp add: s1_def)
  have l1: "live s1 n" using l by (simp add: s1_def)
  obtain s2 where s2: "RTS_LOCK_SET n (RTS_SIGNALED OR RTS_SIG_PENDING) s1 = Some s2" "kcore s2" "ipcv s2 = ipcv s1"
    "proc_ptr s2 = proc_ptr s1" using signal_flags [OF k1 l1] by blast
  have "live s2 PM_PROC_NR" using s2(2) by (simp add: kcore_def ksane_def pm_ok_def)
  from send_sig_spec [OF s2(2) this, of SIGKSIG] obtain s3 where
    s3: "send_sig PM_PROC_NR SIGKSIG s2 = Some s3" "kcore s3" "maybe_unrecv (ipcv s2) (ipcv s3)" "proc_ptr s3 = proc_ptr s2"
    by blast
  have "maybe_unrecv (ipcv s) (ipcv s)" by (simp add: maybe_unrecv_def)
  with s2 s3 k k1 v1 p1 pm l show ?thesis
    by (cases "has_any (p_pending (procs s n)) (sig_bit sig)"; cases "RTS_ISSET (procs s1 n) RTS_SIGNALED")
      (auto simp: cause_sig_def proc_addr_def Let_def simp flip: s1_def)
qed

lemma sig_delay_done_spec:
  assumes k: "kcore s" and l: "live s n" and pm: "n \<noteq> PM_PROC_NR"
  shows "\<exists>s'. sig_delay_done n s = Some s' \<and> kcore s' \<and> maybe_unrecv (ipcv s) (ipcv s') \<and> proc_ptr s' = proc_ptr s"
proof -
  define s1 where "s1 = upd_proc n (\<lambda>p. p\<lparr>p_misc_flags := p_misc_flags p AND NOT MF_SIG_DELAY\<rparr>) s"
  have k1: "kcore s1" unfolding s1_def
    by (rule kcore_upd_proc [OF k]) (auto simp: quiet_def and_and_zero)
  have v1: "ipcv s1 = ipcv s" by (simp add: s1_def ipcv_def ipcp_def fun_eq_iff)
  have l1: "live s1 n" using l by (simp add: s1_def)
  have "p_nr (procs s1 n) = n" using p_nr_valid [OF kcoreD(1) [OF k1]] l by simp
  with cause_sig_spec [OF k1 l1 pm, of SIGNDELAY] v1 show ?thesis
    by (simp add: sig_delay_done_def Let_def s1_def [symmetric]) (simp add: s1_def)
qed

section \<open>Send\<close>

lemma umap_local_D: "\<exists>a. umap_local p SEG_D vir bytes = Some a"
  by (simp add: umap_local_def Let_def)

lemma kcore_q_link: "kcore s \<Longrightarrow> kcore (set_q_link x l s)"
  unfolding set_q_link_def by (rule kcore_upd_proc) (simp_all add: quiet_def)

lemma kcore_caller_q: "kcore s \<Longrightarrow> kcore (set_caller_q d l s)"
  unfolding set_caller_q_def by (rule kcore_upd_proc) (simp_all add: quiet_def)

lemma kcore_cell_wr: "kcore s \<Longrightarrow> kcore (cell_wr (set_caller_q d) set_q_link c l s)"
  by (simp add: cell_wr_def kcore_q_link kcore_caller_q split: cell.splits)

lemma q_link_sel [simp]:
  "proc_ptr (set_q_link x l s) = proc_ptr s" "proc_ptr (cell_wr (set_caller_q d) set_q_link c l s) = proc_ptr s"
  by (simp_all add: cell_wr_def set_q_link_def set_caller_q_def split: cell.splits)

lemma sendmsg_links [simp]:
  "p_sendmsg (procs (set_q_link x l s) n) = p_sendmsg (procs s n)"
  "p_sendmsg (procs (cell_wr (set_caller_q d) set_q_link c l s) n) = p_sendmsg (procs s n)"
  by (auto simp: cell_wr_def set_q_link_def set_caller_q_def split: cell.splits)

lemma q_links_view: "q_links s = i_links (ipcv s)" "p_caller_q (procs s d) = i_callq (ipcv s d)"
  by (simp_all add: ipcv_sel fun_eq_iff)

text \<open>Blocking the caller: flags, destination and queue.\<close>

definition send_block :: "int \<Rightarrow> int \<Rightarrow> int \<Rightarrow> kipc_msg \<Rightarrow> kstate \<Rightarrow> kstate option" where
  "send_block caller dst_e dst m s = do {
     s2 \<leftarrow> RTS_SET caller RTS_SENDING (upd_proc caller (\<lambda>p. p\<lparr>p_sendmsg := m\<rparr>) s);
     let s3 = upd_proc caller (\<lambda>p. p\<lparr>p_sendto_e := dst_e\<rparr>) s2;
     xpp \<leftarrow> walk (\<lambda>_. False) (q_links s3) (p_caller_q (procs s3 dst)) Head;
     Some (set_q_link caller None (cell_wr (set_caller_q dst) set_q_link xpp (Some caller) s3))
   }"

lemma send_block_spec:
  assumes k: "kinv s" and c: "live s c" and C: "callers_ok (ipcv s) C" and e: "ep_ok (ipcv s) e"
  shows "\<exists>s'. send_block c e (ENDPOINT_P e) m s = Some s' \<and> kcore s' \<and> proc_ptr s' = proc_ptr s \<and>
    ipcv s' = v_send c e (cell_after Head (C (ENDPOINT_P e))) (ipcv s) \<and> p_sendmsg (procs s' c) = m"
proof -
  let ?d = "ENDPOINT_P e" and ?x = "cell_after Head (C (ENDPOINT_P e))"
  define s1 where "s1 = upd_proc c (\<lambda>p. p\<lparr>p_sendmsg := m\<rparr>) s"
  have k1: "kcore s1" unfolding s1_def by (rule kcore_upd_proc [OF kinvD(2) [OF k]]) (simp add: quiet_def)
  have v1: "ipcv s1 = ipcv s" by (simp add: s1_def ipcv_def ipcp_def fun_eq_iff)
  have l1: "live s1 c" using c by (simp add: s1_def)
  from RTS_SET_core [OF k1 l1, of RTS_SENDING] obtain s2 where s2: "RTS_SET c RTS_SENDING s1 = Some s2" "kcore s2"
    and r: "sched_rel (set_rts c (p_rts_flags (procs s1 c) OR RTS_SENDING) s1) s2" by auto
  have v2: "ipcv s2 = (ipcv s)(c := (ipcv s c)\<lparr>i_send := True\<rparr>)"
    using sched_rel_ipcv [OF r] by (simp only: ipcv_rts v1)
  have p2: "proc_ptr s2 = proc_ptr s" using sched_rel_ptr [OF r] by (simp add: set_rts_def s1_def)
  have m2: "p_sendmsg (procs s2 c) = m"
    using sched_view_fields(11) [of s2 "set_rts c (p_rts_flags (procs s1 c) OR RTS_SENDING) s1" c] r
    by (simp add: sched_rel_def set_rts_def s1_def)
  define s3 where "s3 = upd_proc c (\<lambda>p. p\<lparr>p_sendto_e := e\<rparr>) s2"
  have k3: "kcore s3" unfolding s3_def by (rule kcore_upd_proc [OF s2(2)]) (simp add: quiet_def)
  have "ipcp ((procs s2 c)\<lparr>p_sendto_e := e\<rparr>) = (ipcv s2 c)\<lparr>i_sendto := e\<rparr>" by (simp add: ipcv_def ipcp_def)
  then have v3: "ipcv s3 = (ipcv s)(c := (ipcv s c)\<lparr>i_send := True, i_sendto := e\<rparr>)"
    by (simp add: s3_def ipcv_upd_proc v2 fun_eq_iff)
  have "chain (i_links (ipcv s)) (i_callq (ipcv s ?d)) (C ?d)"
    by (rule callers_okD(1) [OF C ep_ok_reachable [OF e]])
  moreover have "i_links (ipcv s3) = i_links (ipcv s)" "i_callq (ipcv s3 ?d) = i_callq (ipcv s ?d)"
    by (auto simp: v3)
  ultimately have "chain (i_links (ipcv s3)) (i_callq (ipcv s3 ?d)) (C ?d)" by simp
  from callq.walk_state [OF this, of "\<lambda>_. False"]
  have w: "walk (\<lambda>_. False) (q_links s3) (p_caller_q (procs s3 ?d)) Head = Some ?x"
    by (simp add: q_links_view takeWhile_eq_all_conv [THEN iffD2])
  define s4 where "s4 = cell_wr (set_caller_q ?d) set_q_link ?x (Some c) s3"
  have "send_block c e ?d m s = Some (set_q_link c None s4)"
    unfolding send_block_def s1_def [symmetric] using s2 w by (simp add: s3_def s4_def)
  moreover have "kcore (set_q_link c None s4)"
    unfolding s4_def by (intro kcore_q_link kcore_cell_wr k3)
  moreover have "ipcv (set_q_link c None s4) = v_send c e ?x (ipcv s)" by (simp add: s4_def v3 v_send_def)
  moreover have "p_sendmsg (procs (set_q_link c None s4) c) = m"
    using m2 by (simp add: s4_def s3_def)
  ultimately show ?thesis by (simp add: p2 s4_def s3_def)
qed

lemma xor_sending:
  "has_any (x XOR RTS_SENDING) RTS_SENDING \<longleftrightarrow> \<not> has_any x RTS_SENDING"
  "(x XOR RTS_RECEIVING) AND RTS_SENDING = x AND RTS_SENDING" for x :: "16 word"
proof -
  have d: "(x XOR y) AND RTS_SENDING = (x AND RTS_SENDING) XOR (y AND RTS_SENDING)" for y :: "16 word"
    by (rule bit_word_eqI) (auto simp: bit_simps)
  show "has_any (x XOR RTS_SENDING) RTS_SENDING \<longleftrightarrow> \<not> has_any x RTS_SENDING"
    using and_one_bit [of x 2] by (auto simp: d push_bit_eq_mult split: if_splits)
  show "(x XOR RTS_RECEIVING) AND RTS_SENDING = x AND RTS_SENDING"
    by (simp add: d)
qed

lemma WILLRECEIVE_view:
  "WILLRECEIVE (procs s d) e \<longleftrightarrow> i_recv (ipcv s d) \<and> \<not> i_send (ipcv s d) \<and>
     (i_getfrom (ipcv s d) = ENDPT_ANY \<or> i_getfrom (ipcv s d) = e)"
  by (simp add: WILLRECEIVE_def ipcv_sel)

text \<open>A destination that waits for the caller alone is found ready, so a caller that has to wait closes no circle.\<close>

lemma send_no_cycle:
  assumes k: "kinv s" and c: "live s c" and d: "valid_nr d" and ne: "d \<noteq> c"
    and w: "\<not> WILLRECEIVE (procs s d) (p_endpoint (procs s c))"
    and dl: "deadlock KIPC_SEND c d s = Some 0"
  shows "\<exists>ds. chain (waits (ipcv s)) (Some d) ds \<and> c \<notin> set ds"
proof -
  have vc: "valid_nr c" using c by blast
  from deadlock_spec [OF kinvD(1) [OF k] kinvD(3) [OF k] vc d ne, of KIPC_SEND] dl obtain ds
    where ds: "chain (waits (ipcv s)) (Some d) ds"
      and x: "c \<in> set ds \<longrightarrow> waits (ipcv s) d = Some c \<and> \<not> i_send (ipcv s d)"
    by (auto simp: xor_sending ipcv_def ipcp_def)
  have "c \<notin> set ds"
  proof
    assume "c \<in> set ds"
    with x have wd: "waits (ipcv s) d = Some c" and ns: "\<not> i_send (ipcv s d)" by auto
    then have rcv: "i_recv (ipcv s d)" and ga: "i_getfrom (ipcv s d) \<noteq> ENDPT_ANY"
      and gp: "ENDPOINT_P (i_getfrom (ipcv s d)) = c" by (auto simp: waits_def split: if_splits)
    from blocked_okD(4) [OF kinvD(4) [OF k] d rcv ga] gp have "i_getfrom (ipcv s d) = i_ep (ipcv s c)"
      by (simp add: ep_ok_def Let_def)
    with w rcv ns show False by (simp add: WILLRECEIVE_view ipcv_sel)
  qed
  with ds show ?thesis by blast
qed

text \<open>
  The view after a send: the destination is unblocked, or the caller is blocked and last in
  the queue of the destination.
\<close>

definition sent :: "int \<Rightarrow> int \<Rightarrow> ipcview \<Rightarrow> ipcview \<Rightarrow> bool" where
  "sent c e v v' \<longleftrightarrow>
     (\<not> i_send (v (ENDPOINT_P e)) \<and> v' = v_unrecv (ENDPOINT_P e) v) \<or> (\<exists>x. v' = v_send c e x v)"

text \<open>
  The message a send takes, and the buffer outside the segment of the caller. The copy of the message to a
  process that waits after an interrupt 0x80 does not catch faults: a send whose message is not there makes
  the kernel fault if the destination is such a process and waits for the caller.
\<close>

definition send_ref :: "int \<Rightarrow> int \<Rightarrow> kstate \<Rightarrow> msg_ref" where
  "send_ref c m s = (if syscall_0x80 (procs s c) then KBuf (p_sendmsg (procs s c))
     else Lin (the (umap_local (procs s c) SEG_D m MSG_SIZE)))"

definition send_fault :: "int \<Rightarrow> int \<Rightarrow> kstate \<Rightarrow> bool" where
  "send_fault c m s \<longleftrightarrow> \<not> syscall_0x80 (procs s c) \<and> umap_local (procs s c) SEG_D m MSG_SIZE = Some 0"

definition waits_0x80 :: "int \<Rightarrow> int \<Rightarrow> kstate \<Rightarrow> bool" where
  "waits_0x80 d c s \<longleftrightarrow> WILLRECEIVE (procs s d) (p_endpoint (procs s c)) \<and> syscall_0x80 (procs s d)"

definition uncaught_send :: "int \<Rightarrow> int \<Rightarrow> int \<Rightarrow> kstate \<Rightarrow> bool" where
  "uncaught_send c d m s \<longleftrightarrow> \<not> send_fault c m s \<and> \<not> i_dead (ipcv s d) \<and> waits_0x80 d c s \<and> fetch s (send_ref c m s) = None"

lemma mini_send_spec:
  assumes nu: "\<not> uncaught_send c d m s" and k: "kinv s" and c: "live s c" and ns: "\<not> i_send (ipcv s c)" and nr: "\<not> i_recv (ipcv s c)"
    and ok: "isokendpt s e = Some d" and ne: "d \<noteq> c"
  shows "\<exists>r s'. mini_send c e m flags s = Some (r, s') \<and> kinv s' \<and> proc_ptr s' = proc_ptr s \<and>
    (if r = 0 then sent c e (ipcv s) (ipcv s') \<and> \<not> i_dead (ipcv s d) else ipcv s' = ipcv s)"
proof -
  note dd = isokendptD [OF kinvD(1) [OF k] ok]
  obtain lin where lin: "umap_local (procs s c) SEG_D m MSG_SIZE = Some lin" using umap_local_D by blast
  define msg where "msg = (if syscall_0x80 (procs s c) then KBuf (p_sendmsg (procs s c)) else Lin lin)"
  have pd: "proc_addr d = Some d" using dd by (simp add: proc_addr_def)
  note def = mini_send_def [of c e m flags s] lin pd dd(1) [symmetric] Let_def
  consider (fault) "\<not> syscall_0x80 (procs s c)" "lin = 0"
    | (dead) "syscall_0x80 (procs s c) \<or> lin \<noteq> 0" "i_dead (ipcv s d)"
    | (ready) "syscall_0x80 (procs s c) \<or> lin \<noteq> 0" "\<not> i_dead (ipcv s d)" "WILLRECEIVE (procs s d) (p_endpoint (procs s c))"
    | (nonblock) "syscall_0x80 (procs s c) \<or> lin \<noteq> 0" "\<not> i_dead (ipcv s d)"
        "\<not> WILLRECEIVE (procs s d) (p_endpoint (procs s c))" "has_any flags KIPC_FLG_NONBLOCK"
    | (block) "syscall_0x80 (procs s c) \<or> lin \<noteq> 0" "\<not> i_dead (ipcv s d)"
        "\<not> WILLRECEIVE (procs s d) (p_endpoint (procs s c))" "\<not> has_any flags KIPC_FLG_NONBLOCK"
    by blast
  then show ?thesis
  proof cases
    case fault
    with k show ?thesis by (simp add: def)
  next
    case dead
    with k show ?thesis by (auto simp: def)
  next
    case ready
    have me: "msg = send_ref c m s" by (simp add: msg_def send_ref_def lin)
    have "fetch s msg \<noteq> None" if "syscall_0x80 (procs s d)"
      using nu ready that unfolding uncaught_send_def waits_0x80_def me by (simp add: send_fault_def lin)
    from QueueMess_any [OF kinvD(2) [OF k], of d msg "p_endpoint (procs s c)"] this obtain r s1
      where q: "QueueMess (p_endpoint (procs s c)) msg d s = Some (r, s1)" "kcore s1" "ipcv s1 = ipcv s"
        "proc_ptr s1 = proc_ptr s" "r \<noteq> 0 \<longrightarrow> s1 = s" by blast
    have "live s1 d" unfolding live_view using dd by (simp add: q(3))
    from unblock_receiver [OF q(2) this] obtain s2 where u: "RTS_UNSET d RTS_RECEIVING s1 = Some s2" "kcore s2"
      "ipcv s2 = v_unrecv d (ipcv s1)" "proc_ptr s2 = proc_ptr s1" by blast
    have nsd: "\<not> i_send (ipcv s d)" using ready(3) by (simp add: WILLRECEIVE_view)
    have "mini_send c e m flags s = Some (if r = 0 then (0, s2) else (r, s1))"
      using ready q(1) u(1) by (auto simp: def msg_def split: if_splits)
    moreover have "kinv s2"
      using u q nsd v_unrecv_ok [OF kinvD(3) [OF k], of d] by (simp add: kinv_alt)
    moreover have "r \<noteq> 0 \<longrightarrow> kinv s1" using q(5) k by simp
    ultimately show ?thesis
      using ready(2) u q nsd dd(1) by (cases "r = 0") (auto simp: sent_def)
  next
    case nonblock
    with k show ?thesis by (auto simp: def)
  next
    case block
    from deadlock_spec [OF kinvD(1) [OF k] kinvD(3) [OF k] _ dd(5) ne, of KIPC_SEND] c
    obtain dl where dl: "deadlock KIPC_SEND c d s = Some dl" by blast
    show ?thesis
    proof (cases "dl = 0 \<and> fetch s msg \<noteq> None")
      case False
      with block dl k show ?thesis
        by (auto simp: def msg_def split: if_splits)
    next
      case True
      then obtain x where x: "fetch s msg = Some x" and d0: "dl = 0" by auto
      from send_no_cycle [OF k c dd(5) ne block(3)] dl d0 obtain ds
        where ds: "chain (waits (ipcv s)) (Some (ENDPOINT_P e)) ds" "c \<notin> set ds" using dd(1) by auto
      obtain C where C: "callers_ok (ipcv s) C" using kinvD(3) [OF k] by (auto simp: ipc_ok_def)
      have ep: "ep_ok (ipcv s) e" using dd block(2) by (simp add: ep_ok_def Let_def)
      from send_block_spec [OF k c C ep, of x] obtain s' where s': "send_block c e (ENDPOINT_P e) x s = Some s'" "kcore s'"
        "proc_ptr s' = proc_ptr s" "ipcv s' = v_send c e (cell_after Head (C (ENDPOINT_P e))) (ipcv s)" by blast
      have "mini_send c e m flags s = Option.bind (send_block c e d x s) (\<lambda>s'. Some (0, s'))"
        using block dl d0 x by (auto simp: def msg_def send_block_def Let_def)
      then have "mini_send c e m flags s = Some (0, s')" using s' dd(1) by simp
      moreover have "kinv s'"
        using s' v_send_ok(1) [OF kinvD(3) [OF k] _ _ ns nr ep ds C] c
        by (simp add: kinv_alt live_view ipcv_sel)
      ultimately show ?thesis using s' block(2) by (auto simp: sent_def)
    qed
  qed
qed

section \<open>Asynchronous messages\<close>

lemma kcore_put_word: "kcore s \<Longrightarrow> kcore (put_word p a w s)"
proof -
  assume k: "kcore s"
  let ?s = "put_word p a w s"
  have g: "procs ?s = procs s" "privs ?s = privs s" "rdy_head ?s = rdy_head s" "rdy_tail ?s = rdy_tail s"
    "proc_ptr ?s = proc_ptr s" "intr_off ?s = intr_off s" "locklevel ?s = locklevel s" "umsg ?s = umsg s"
    by (simp_all add: put_word_def)
  have r: "runq_inv ?s = runq_inv s" by (rule runq_inv_cong) (simp_all only: g)
  show ?thesis
    using k unfolding kcore_def ksane_def free_ok_def tables_ok_def pm_ok_def lock_ok_def priv_of_def r g .
qed

lemma proc_ptr_put_word [simp]: "proc_ptr (put_word p a w s) = proc_ptr s"
  by (simp add: put_word_def)

lemma asyn_done_spec:
  assumes "kcore s" and "asyn_done p tab i r fl s = (b, s')"
  shows "kcore s' \<and> ipcv s' = ipcv s \<and> proc_ptr s' = proc_ptr s"
  using assms by (auto simp: asyn_done_def Let_def kcore_put_word split: if_splits)

lemma asyn_clear:
  assumes "kcore s"
  shows "kcore (upd_priv_of n (\<lambda>pr. pr\<lparr>s_asynsize := k\<rparr>) s)"
  by (rule kcore_upd_priv [OF assms]) simp_all

lemma try_one_loop_spec:
  "kcore s \<Longrightarrow> \<exists>r q s'. try_one_loop src dst tab is don pp s = Some (r, q, s') \<and> kcore s' \<and> ipcv s' = ipcv s \<and>
     proc_ptr s' = proc_ptr s"
proof (induction src dst tab "is" don pp s rule: try_one_loop.induct)
  case (1 src dst tab don pp s)
  then show ?case by (simp add: asyn_clear)
next
  case (2 src dst tab i "is" don pp s)
  have deliver: "\<exists>r q s'. Option.bind (QueueMess (p_endpoint (procs s src)) (KBuf m) dst s)
      (\<lambda>(r, s1). case asyn_done src tab i r fl s1 of
         (False, s2) \<Rightarrow> Some (- EFAULT, pp, s2) | (True, s2) \<Rightarrow> Some (0, pp, s2)) = Some (r, q, s') \<and>
      kcore s' \<and> ipcv s' = ipcv s \<and> proc_ptr s' = proc_ptr s" for m fl
  proof -
    obtain s1 where q: "QueueMess (p_endpoint (procs s src)) (KBuf m) dst s = Some (0, s1)" "kcore s1"
      "ipcv s1 = ipcv s" "proc_ptr s1 = proc_ptr s" using QueueMess_KBuf [OF 2(5)] by blast
    obtain b s2 where a: "asyn_done src tab i 0 fl s1 = (b, s2)" by fastforce
    from asyn_done_spec [OF q(2) a] q a show ?thesis by (cases b) auto
  qed
  show ?case
    using 2 deliver by (auto simp: asyn_clear split: option.splits)
qed

lemma try_one_spec:
  "kcore s \<Longrightarrow> \<exists>r q s'. try_one src dst pp s = Some (r, q, s') \<and> kcore s' \<and> ipcv s' = ipcv s \<and> proc_ptr s' = proc_ptr s"
  unfolding try_one_def Let_def using try_one_loop_spec by auto

lemma try_async_loop_spec:
  "kcore s \<Longrightarrow> \<forall>i \<in> set is. 0 \<le> i \<and> i < NR_SYS_PROCS \<Longrightarrow>
   \<exists>r s'. try_async_loop c is pp s = Some (r, s') \<and> kcore s' \<and> ipcv s' = ipcv s \<and> proc_ptr s' = proc_ptr s"
proof (induction c "is" pp s rule: try_async_loop.induct)
  case (1 c pp s)
  have "kcore (upd_proc c (\<lambda>p. p\<lparr>p_misc_flags := p_misc_flags p AND NOT MF_ASYNMSG\<rparr>) s)"
    by (rule kcore_upd_proc [OF 1(1)]) (auto simp: quiet_def and_and_zero)
  with 1 show ?case by (simp add: ipcv_upd_proc ipcv_def ipcp_def fun_eq_iff)
next
  case (2 c i "is" pp s)
  show ?case
  proof (cases "s_proc_nr (privs s i) = ENDPT_NONE")
    case True
    with 2 show ?thesis by auto
  next
    case False
    with 2(3,4) have v: "valid_nr (s_proc_nr (privs s i))"
      unfolding kcore_def ksane_def tables_ok_def by auto
    obtain r q s1 where t: "try_one (s_proc_nr (privs s i)) c pp s = Some (r, q, s1)" "kcore s1" "ipcv s1 = ipcv s"
      "proc_ptr s1 = proc_ptr s" using try_one_spec [OF 2(3)] by blast
    show ?thesis
    proof (cases "r = 0")
      case True
      with t False v show ?thesis by (simp add: proc_addr_def)
    next
      case False': False
      have "\<exists>r' s'. try_async_loop c is q s1 = Some (r', s') \<and> kcore s' \<and> ipcv s' = ipcv s1 \<and> proc_ptr s' = proc_ptr s1"
        using 2(2) [OF False _ t(1) refl refl False' t(2)] v 2(4) by (simp add: proc_addr_def)
      with t False False' v show ?thesis by (auto simp: proc_addr_def)
    qed
  qed
qed

lemma receive_async_spec:
  assumes "kcore s"
  shows "\<exists>r s'. receive_async c src_e src_p s = Some (r, s') \<and> kcore s' \<and> ipcv s' = ipcv s \<and> proc_ptr s' = proc_ptr s"
proof (cases "src_e = ENDPT_ANY")
  case True
  with try_async_loop_spec [OF assms, of "[0..NR_SYS_PROCS - 1]" c False] show ?thesis
    by (simp add: receive_async_def try_async_def)
next
  case False
  with try_one_spec [OF assms, of src_p c False] show ?thesis by (auto simp: receive_async_def)
qed

section \<open>Receive\<close>

lemma lowest_bitD: "lowest_bit w = Some i \<Longrightarrow> bit w i \<and> i < 16"
  by (auto simp: lowest_bit_def find_Some_iff)

lemma notify_scan_bit:
  assumes "notify_scan cs src_e src_p s c = Some i0" and "\<forall>x \<in> set cs. 0 \<le> x"
  shows "0 \<le> i0 \<and> i0 < NR_SYS_PROCS \<and> get_sys_bit (s_notify_pending (priv_of s c)) i0 \<and>
    (src_e = ENDPT_ANY \<or> src_p = s_proc_nr (privs s i0))"
  using assms
proof (induction cs src_e src_p s c rule: notify_scan.induct)
  case (2 x cs src_e src_p s c)
  show ?case
  proof (cases "lowest_bit (s_notify_pending (priv_of s c) x)")
    case None
    with 2 show ?thesis by simp
  next
    case (Some i)
    note li = lowest_bitD [OF Some]
    show ?thesis
    proof (cases "src_e \<noteq> ENDPT_ANY \<and> src_p \<noteq> s_proc_nr (privs s (x * 16 + int i))")
      case True
      with 2 Some show ?thesis by (simp add: Let_def split: if_splits)
    next
      case False
      with 2(3) Some have i0: "i0 = x * 16 + int i" "i0 < NR_SYS_PROCS"
        by (simp_all add: Let_def split: if_splits)
      have "i0 div 16 = x" "i0 mod 16 = int i" using li by (simp_all add: i0(1))
      with li i0 False 2(4) show ?thesis by (auto simp: get_sys_bit_def)
    qed
  qed
qed simp

lemma receive_notify_spec:
  assumes k: "kcore s" and c: "live s c" and i0: "0 \<le> i0" "i0 < NR_SYS_PROCS"
    and b: "get_sys_bit (s_notify_pending (priv_of s c)) i0"
  shows "\<exists>s'. receive_notify c i0 s = Some (0, s') \<and> kcore s' \<and> ipcv s' = ipcv s \<and> proc_ptr s' = proc_ptr s"
proof -
  define s1 where "s1 = upd_priv_of c (\<lambda>pr. pr\<lparr>s_notify_pending := unset_sys_bit (s_notify_pending pr) i0\<rparr>) s"
  have k1: "kcore s1" unfolding s1_def by (rule kcore_upd_priv [OF k]) (simp_all add: get_unset_sys_bit)
  have v: "valid_nr (s_proc_nr (privs s i0))"
    using k c i0 b unfolding kcore_def ksane_def tables_ok_def by blast
  have n1: "s_proc_nr (privs s1 i0) = s_proc_nr (privs s i0)" by (simp add: s1_def upd_priv_of_def upd_priv_def)
  have c1: "live s1 c" using c by (simp add: s1_def)
  obtain m s2 where bn: "BuildNotifyMessage (s_proc_nr (privs s1 i0)) c s1 = (m, s2)" by fastforce
  note b2 = BuildNotify_kept [OF k1 c1 bn]
  obtain s3 where q: "QueueMess (p_endpoint (procs s2 (s_proc_nr (privs s1 i0)))) (KBuf m) c s2 = Some (0, s3)"
    "kcore s3" "ipcv s3 = ipcv s2" "proc_ptr s3 = proc_ptr s2" using QueueMess_KBuf [OF b2(1)] by blast
  have "receive_notify c i0 s = Some (0, s3)"
    unfolding receive_notify_def s1_def [symmetric] using bn q v by (simp add: n1 proc_addr_def)
  then show ?thesis using q b2 by (simp add: s1_def)
qed

lemma receive_queued_spec:
  assumes k: "kinv s" and C: "callers_ok (ipcv s) C" and rc: "reachable_ep (ipcv s) c" and x: "x \<in> set (C c)"
  defines "xpp \<equiv> cell_after Head (takeWhile (\<lambda>y. y \<noteq> x) (C c))"
  shows "\<exists>s'. receive_queued c xpp x s = Some (0, s') \<and> kinv s' \<and> proc_ptr s' = proc_ptr s \<and>
    (\<exists>v. maybe_unrecv (ipcv s) v \<and> ipcv s' = v_take c xpp x v)"
proof -
  obtain s1 where q: "QueueMess (p_endpoint (procs s x)) (KBuf (p_sendmsg (procs s x))) c s = Some (0, s1)" "kcore s1"
    "ipcv s1 = ipcv s" "proc_ptr s1 = proc_ptr s" using QueueMess_KBuf [OF kinvD(2) [OF k]] by blast
  have xs: "valid_nr x" "i_send (ipcv s x)" using callers_okD(2) [OF C rc] x by (auto simp: senders_def)
  have xl: "\<not> i_empty (ipcv s x)" by (rule blocked_okD(1) [OF kinvD(4) [OF k] xs])
  have lx: "live s1 x" unfolding live_view using xs xl by (simp add: q)
  have "\<exists>s2. (if has_any (p_misc_flags (procs s1 x)) MF_SIG_DELAY then sig_delay_done x s1 else Some s1) = Some s2 \<and>
      kcore s2 \<and> maybe_unrecv (ipcv s) (ipcv s2) \<and> proc_ptr s2 = proc_ptr s"
  proof (cases "has_any (p_misc_flags (procs s1 x)) MF_SIG_DELAY")
    case True
    have "x \<noteq> PM_PROC_NR"
    proof
      assume "x = PM_PROC_NR"
      with q(2) have "p_misc_flags (procs s1 x) AND PM_NEVER = 0" by (simp add: kcore_def ksane_def pm_ok_def)
      moreover have "p_misc_flags (procs s1 x) AND MF_SIG_DELAY =
          (p_misc_flags (procs s1 x) AND PM_NEVER) AND MF_SIG_DELAY" by (simp add: and.assoc)
      ultimately show False using True by simp
    qed
    from sig_delay_done_spec [OF q(2) lx this] True q show ?thesis by auto
  next
    case False
    with q show ?thesis by (auto simp: maybe_unrecv_def)
  qed
  then obtain s2 where s2: "(if has_any (p_misc_flags (procs s1 x)) MF_SIG_DELAY then sig_delay_done x s1 else Some s1) = Some s2"
    "kcore s2" "maybe_unrecv (ipcv s) (ipcv s2)" "proc_ptr s2 = proc_ptr s" by blast
  have l2: "live s2 x" unfolding live_view using xs xl by (simp add: maybe_unrecv_sel [OF s2(3)])
  from RTS_UNSET_core [OF s2(2) l2, of RTS_SENDING] obtain s3 where s3: "RTS_UNSET x RTS_SENDING s2 = Some s3" "kcore s3"
    and r: "sched_rel (set_rts x (p_rts_flags (procs s2 x) AND NOT RTS_SENDING) s2) s3" by blast
  have v3: "ipcv s3 = (ipcv s2)(x := (ipcv s2 x)\<lparr>i_send := False\<rparr>)"
    using sched_rel_ipcv [OF r] by (simp only: ipcv_rts)
  have p3: "proc_ptr s3 = proc_ptr s" using sched_rel_ptr [OF r] s2(4) by (simp add: set_rts_def)
  define s4 where "s4 = cell_wr (set_caller_q c) set_q_link xpp (q_links s3 x) s3"
  have "receive_queued c xpp x s = Some (0, s4)"
    unfolding receive_queued_def using q s2 s3 by (simp add: s4_def)
  moreover have v4: "ipcv s4 = v_take c xpp x (ipcv s2)"
    by (simp add: s4_def v_take_def v3 ipcv_sel)
  moreover have "kcore s4" unfolding s4_def by (rule kcore_cell_wr [OF s3(2)])
  moreover have "ipc_ok (ipcv s4)"
  proof -
    have i2: "ipc_ok (ipcv s2)" by (rule maybe_unrecv_ok [OF s2(3) kinvD(3) [OF k]])
    have c2: "callers_ok (ipcv s2) C" using C maybe_unrecv_callers [OF s2(3)] by simp
    have r2: "reachable_ep (ipcv s2) c" using rc by (simp add: reachable_ep_def maybe_unrecv_sel [OF s2(3)])
    show ?thesis unfolding v4 xpp_def by (rule v_take_ok(1) [OF i2 c2 r2 x])
  qed
  ultimately show ?thesis using s2(3) p3 by (auto simp: kinv_alt s4_def)
qed

lemma receive_block_spec:
  assumes k: "kinv s" and c: "live s c" and nr: "\<not> i_recv (ipcv s c)"
    and src: "if src_e = ENDPT_ANY then src_p = ENDPT_ANY \<and> \<not> i_send (ipcv s c)
      else ep_ok (ipcv s) src_e \<and> src_p = ENDPOINT_P src_e \<and> src_p \<noteq> c"
    and sending: "i_send (ipcv s c) \<Longrightarrow> i_sendto (ipcv s c) = src_e"
    and noq: "\<not> i_send (ipcv s c) \<Longrightarrow> src_p \<notin> senders (ipcv s) c"
  shows "\<exists>r s'. receive_block c src_e src_p flags s = Some (r, s') \<and> kinv s' \<and> proc_ptr s' = proc_ptr s \<and>
    ipcv s' = (if r = 0 then v_recv c src_e (ipcv s) else ipcv s)"
proof (cases "has_any flags KIPC_FLG_NONBLOCK")
  case True
  with k show ?thesis by (simp add: receive_block_def)
next
  case False
  have vc: "valid_nr c" using c by blast
  have "\<exists>dl. deadlock KIPC_RECEIVE c src_p s = Some dl \<and>
      (dl = 0 \<longrightarrow> src_e \<noteq> ENDPT_ANY \<longrightarrow> (\<exists>ds. chain (waits (ipcv s)) (Some src_p) ds \<and> c \<notin> set ds))"
  proof (cases "src_e = ENDPT_ANY")
    case True
    with src show ?thesis by (simp add: deadlock_def deadlock_loop.simps)
  next
    case ne: False
    with src have e: "ep_ok (ipcv s) src_e" "src_p = ENDPOINT_P src_e" "src_p \<noteq> c" by auto
    then have vd: "valid_nr src_p" by (simp add: ep_ok_def Let_def)
    from deadlock_spec [OF kinvD(1) [OF k] kinvD(3) [OF k] vc vd e(3), of KIPC_RECEIVE] obtain dl ds
      where dl: "deadlock KIPC_RECEIVE c src_p s = Some dl" and ds: "chain (waits (ipcv s)) (Some src_p) ds"
        and x: "c \<in> set ds \<Longrightarrow> dl = 0 \<Longrightarrow> waits (ipcv s) src_p = Some c \<and> i_send (ipcv s src_p)"
      by (auto simp: xor_sending ipcv_def ipcp_def)
    have "c \<notin> set ds" if "dl = 0"
    proof
      assume cd: "c \<in> set ds"
      note w = x [OF cd that]
      show False
      proof (cases "i_send (ipcv s c)")
        case True
        with sending nr e(2) have "waits (ipcv s) c = Some src_p" by (simp add: waits_def)
        with ds have "chain (waits (ipcv s)) (Some c) (c # ds)" by simp
        from chain_distinct [OF this] cd show False by simp
      next
        case False
        have "ENDPOINT_P (i_sendto (ipcv s src_p)) = c"
          using w blocked_okD(5) [OF kinvD(4) [OF k] vd] by (auto simp: waits_def split: if_splits)
        with w vd have "src_p \<in> senders (ipcv s) c" by (simp add: senders_def)
        with noq [OF False] show False by simp
      qed
    qed
    with dl ds show ?thesis by blast
  qed
  then obtain dl where dl: "deadlock KIPC_RECEIVE c src_p s = Some dl"
    and path: "dl = 0 \<Longrightarrow> src_e \<noteq> ENDPT_ANY \<Longrightarrow> \<exists>ds. chain (waits (ipcv s)) (Some src_p) ds \<and> c \<notin> set ds" by blast
  show ?thesis
  proof (cases "dl = 0")
    case nz: False
    with False dl k show ?thesis by (simp add: receive_block_def)
  next
    case z: True
    define s1 where "s1 = upd_proc c (\<lambda>p. p\<lparr>p_getfrom_e := src_e\<rparr>) s"
    have k1: "kcore s1" unfolding s1_def by (rule kcore_upd_proc [OF kinvD(2) [OF k]]) (simp add: quiet_def)
    have l1: "live s1 c" using c by (simp add: s1_def)
    have v1: "ipcv s1 = (ipcv s)(c := (ipcv s c)\<lparr>i_getfrom := src_e\<rparr>)"
      by (simp add: s1_def ipcv_upd_proc ipcv_def ipcp_def fun_eq_iff)
    from RTS_SET_core [OF k1 l1, of RTS_RECEIVING] obtain s2 where s2: "RTS_SET c RTS_RECEIVING s1 = Some s2" "kcore s2"
      and r: "sched_rel (set_rts c (p_rts_flags (procs s1 c) OR RTS_RECEIVING) s1) s2" by auto
    have v2: "ipcv s2 = v_recv c src_e (ipcv s)"
      using sched_rel_ipcv [OF r] by (simp add: ipcv_rts v1 v_recv_def)
    have p2: "proc_ptr s2 = proc_ptr s" using sched_rel_ptr [OF r] by (simp add: set_rts_def s1_def)
    have "ipc_ok (v_recv c src_e (ipcv s))"
      by (rule v_recv_ok [OF kinvD(3) [OF k]])
        (use c nr src sending path [OF z] in \<open>auto simp: ipcv_sel split: if_splits\<close>)
    with False dl z s2 v2 p2 show ?thesis
      by (simp add: receive_block_def s1_def [symmetric] kinv_alt)
  qed
qed

lemma first_stop:
  assumes "distinct xs" and "takeWhile (\<lambda>x. \<not> P x) xs = us" and "xs = us @ x # vs"
  shows "us = takeWhile (\<lambda>y. y \<noteq> x) xs"
  using assms by (auto simp: takeWhile_append)

lemma receive_search_spec:
  assumes k: "kinv s" and c: "live s c" and nd: "\<not> i_dead (ipcv s c)" and nr: "\<not> i_recv (ipcv s c)" and ns: "\<not> i_send (ipcv s c)"
    and src: "if src_e = ENDPT_ANY then src_p = ENDPT_ANY
      else ep_ok (ipcv s) src_e \<and> src_p = ENDPOINT_P src_e \<and> src_p \<noteq> c"
  shows "\<exists>r s'. receive_search c src_e src_p flags s = Some (r, s') \<and> kinv s' \<and> proc_ptr s' = proc_ptr s"
proof -
  define scan where "scan = (if has_any (p_misc_flags (procs s c)) MF_REPLY_PEND then None
    else notify_scan [0..NR_SYS_CHUNKS - 1] src_e src_p s c)"
  obtain C where C: "callers_ok (ipcv s) C" using kinvD(3) [OF k] by (auto simp: ipc_ok_def)
  have rc: "reachable_ep (ipcv s) c" using c nd by (simp add: reachable_ep_def ipcv_sel live_view)
  note cd = callers_okD [OF C rc]
  let ?P = "\<lambda>x. src_e = ENDPT_ANY \<or> src_p = p_nr (procs s x)"
  define us where "us = takeWhile (\<lambda>x. \<not> ?P x) (C c)"
  define vs where "vs = dropWhile (\<lambda>x. \<not> ?P x) (C c)"
  have sp: "C c = us @ vs" by (simp add: us_def vs_def)
  have w: "walk ?P (q_links s) (p_caller_q (procs s c)) Head = Some (cell_after Head us)"
    using callq.walk_state [OF cd(1), of ?P] by (simp add: q_links_view us_def)
  have rd: "cell_rd (q_links s) (p_caller_q (procs s c)) (cell_after Head us) = (case vs of [] \<Rightarrow> None | v # _ \<Rightarrow> Some v)"
    using callq.rd_after [OF cd(1) [unfolded sp]] by (simp add: q_links_view)
  note def = receive_search_def [of c src_e src_p flags s] scan_def [symmetric]
  show ?thesis
  proof (cases scan)
    case (Some i)
    then have "notify_scan [0..NR_SYS_CHUNKS - 1] src_e src_p s c = Some i" by (simp add: scan_def split: if_splits)
    from notify_scan_bit [OF this] have i: "0 \<le> i" "i < NR_SYS_PROCS" "get_sys_bit (s_notify_pending (priv_of s c)) i" by auto
    from receive_notify_spec [OF kinvD(2) [OF k] c i] k Some show ?thesis by (auto simp: def kinv_alt)
  next
    case None
    show ?thesis
    proof (cases vs)
      case (Cons x vs')
      have us: "us = takeWhile (\<lambda>y. y \<noteq> x) (C c)"
        by (rule first_stop [OF cd(3) us_def [symmetric]]) (simp only: sp Cons)
      have x: "x \<in> set (C c)" using sp Cons by simp
      have "receive_search c src_e src_p flags s = receive_queued c (cell_after Head us) x s"
        unfolding def using None w rd Cons by simp
      with receive_queued_spec [OF k C rc x] show ?thesis unfolding us by auto
    next
      case Nil
      have noq: "src_p \<notin> senders (ipcv s) c"
      proof
        assume a: "src_p \<in> senders (ipcv s) c"
        then have v: "valid_nr src_p" by (simp add: senders_def)
        from a cd(2) sp Nil have "src_p \<in> set us" by simp
        then have "\<not> ?P src_p" unfolding us_def by (rule set_takeWhileD [THEN conjunct2])
        with p_nr_valid [OF kinvD(1) [OF k] v] show False by simp
      qed
      have blk: "\<exists>r s'. receive_block c src_e src_p flags t = Some (r, s') \<and> kinv s' \<and> proc_ptr s' = proc_ptr t"
        if t: "kcore t" "ipcv t = ipcv s" for t
      proof -
        have kt: "kinv t" using t k by (simp add: kinv_alt)
        have lt: "live t c" using c unfolding live_view t(2) .
        have nrt: "\<not> i_recv (ipcv t c)" and nst: "\<not> i_send (ipcv t c)" using nr ns t(2) by simp_all
        have st: "if src_e = ENDPT_ANY then src_p = ENDPT_ANY \<and> \<not> i_send (ipcv t c)
            else ep_ok (ipcv t) src_e \<and> src_p = ENDPOINT_P src_e \<and> src_p \<noteq> c"
          using src nst t(2) by (auto split: if_splits)
        have nq: "src_p \<notin> senders (ipcv t) c" using noq t(2) by simp
        obtain r s' where "receive_block c src_e src_p flags t = Some (r, s')" "kinv s'" "proc_ptr s' = proc_ptr t"
          using receive_block_spec [OF kt lt nrt st _ nq] nst by blast
        then show ?thesis by blast
      qed
      have e: "receive_search c src_e src_p flags s = (if has_any (p_misc_flags (procs s c)) MF_ASYNMSG
          then Option.bind (receive_async c src_e src_p s)
            (\<lambda>(r, s1). if r = 0 then Some (0, s1) else receive_block c src_e src_p flags s1)
          else receive_block c src_e src_p flags s)"
        unfolding def using None w rd Nil by simp
      obtain r s1 where a: "receive_async c src_e src_p s = Some (r, s1)" "kcore s1" "ipcv s1 = ipcv s" "proc_ptr s1 = proc_ptr s"
        using receive_async_spec [OF kinvD(2) [OF k]] by blast
      show ?thesis
        using blk [OF a(2,3)] blk [OF kinvD(2) [OF k] refl] a k unfolding e
        by (auto simp: kinv_alt)
    qed
  qed
qed

lemma mini_receive_spec:
  assumes k: "kinv s" and c: "live s c" and nd: "\<not> i_dead (ipcv s c)" and nr: "\<not> i_recv (ipcv s c)"
    and sending: "i_send (ipcv s c) \<Longrightarrow> src_e \<noteq> ENDPT_ANY \<and> i_sendto (ipcv s c) = src_e"
    and src: "src_e \<noteq> ENDPT_ANY \<Longrightarrow> \<exists>p. isokendpt s src_e = Some p \<and> p \<noteq> c"
  shows "\<exists>r s'. mini_receive kaddr c src_e m flags s = Some (r, s') \<and> kinv s' \<and> proc_ptr s' = proc_ptr s"
proof -
  obtain lin where lin: "(if syscall_0x80 (procs s c) then Some kaddr else umap_local (procs s c) SEG_D m MSG_SIZE) = Some lin"
    using umap_local_D [of "procs s c" m MSG_SIZE] by (cases "syscall_0x80 (procs s c)") auto
  define s1 where "s1 = upd_proc c (\<lambda>p. p\<lparr>p_delivermsg_lin := lin,
    p_delivermsg_vir := (if syscall_0x80 (procs s c) then kaddr else m)\<rparr>) s"
  have k1: "kcore s1" unfolding s1_def by (rule kcore_upd_proc [OF kinvD(2) [OF k]]) (simp add: quiet_def)
  have v1: "ipcv s1 = ipcv s" by (simp add: s1_def ipcv_def ipcp_def fun_eq_iff)
  have p1: "proc_ptr s1 = proc_ptr s" by (simp add: s1_def)
  have ki: "kinv s1" using k k1 v1 by (simp add: kinv_alt)
  have l1: "live s1 c" using c unfolding live_view v1 .
  define src_p where "src_p = (if src_e = ENDPT_ANY then ENDPT_ANY else ENDPOINT_P src_e)"
  have ok: "(if src_e = ENDPT_ANY then Some ENDPT_ANY else okendpt s1 src_e) = Some src_p"
  proof (cases "src_e = ENDPT_ANY")
    case False
    from src [OF this] obtain p where p: "isokendpt s src_e = Some p" by blast
    then have "isokendpt s1 src_e = Some p"
      using isokendpt_view [OF kinvD(1) [OF k]] isokendpt_view [OF kinvD(1) [OF ki]] v1 by simp
    with isokendptD(1) [OF kinvD(1) [OF k] p] False show ?thesis by (simp add: okendpt_def src_p_def)
  qed (simp add: src_p_def)
  have unf: "mini_receive kaddr c src_e m flags s =
      (if \<not> syscall_0x80 (procs s c) \<and> lin = 0 then Some (- EFAULT, s)
       else if src_e \<noteq> ENDPT_ANY \<and> i_dead (ipcv s1 src_p) then Some (- ESRCDIED, s1)
       else if i_send (ipcv s1 c) then receive_block c src_e src_p flags s1
       else receive_search c src_e src_p flags s1)"
    by (simp only: mini_receive_def Let_def lin Option.bind.simps s1_def [symmetric] ok RTS_ISSET_view)
  consider (fault) "\<not> syscall_0x80 (procs s c)" "lin = 0"
    | (dead) "syscall_0x80 (procs s c) \<or> lin \<noteq> 0" "src_e \<noteq> ENDPT_ANY" "i_dead (ipcv s1 src_p)"
    | (go) "syscall_0x80 (procs s c) \<or> lin \<noteq> 0" "src_e = ENDPT_ANY \<or> \<not> i_dead (ipcv s1 src_p)"
    by blast
  then show ?thesis
  proof cases
    case fault
    with k show ?thesis by (simp add: unf)
  next
    case dead
    then have "mini_receive kaddr c src_e m flags s = Some (- ESRCDIED, s1)" by (auto simp: unf)
    with ki p1 show ?thesis by blast
  next
    case go
    have sp: "if src_e = ENDPT_ANY then src_p = ENDPT_ANY
        else ep_ok (ipcv s1) src_e \<and> src_p = ENDPOINT_P src_e \<and> src_p \<noteq> c"
    proof (cases "src_e = ENDPT_ANY")
      case False
      from src [OF this] obtain p where p: "isokendpt s src_e = Some p" "p \<noteq> c" by blast
      from isokendptD [OF kinvD(1) [OF k] p(1)] p(2) go False show ?thesis
        by (auto simp: src_p_def ep_ok_def v1 Let_def)
    qed (simp add: src_p_def)
    have e: "mini_receive kaddr c src_e m flags s =
        (if i_send (ipcv s1 c) then receive_block c src_e src_p flags s1 else receive_search c src_e src_p flags s1)"
      using go by (auto simp: unf)
    show ?thesis
    proof (cases "i_send (ipcv s1 c)")
      case True
      with sending v1 have "src_e \<noteq> ENDPT_ANY" "i_sendto (ipcv s1 c) = src_e" by auto
      then have st: "if src_e = ENDPT_ANY then src_p = ENDPT_ANY \<and> \<not> i_send (ipcv s1 c)
          else ep_ok (ipcv s1) src_e \<and> src_p = ENDPOINT_P src_e \<and> src_p \<noteq> c"
        and to: "i_sendto (ipcv s1 c) = src_e" and nr1: "\<not> i_recv (ipcv s1 c)"
        using sp nr v1 by (simp_all split: if_splits)
      obtain r s' where "receive_block c src_e src_p flags s1 = Some (r, s')" "kinv s'" "proc_ptr s' = proc_ptr s1"
        using receive_block_spec [OF ki l1 nr1 st to] True by blast
      then show ?thesis using e True p1 by simp
    next
      case False
      have "\<not> i_dead (ipcv s1 c)" "\<not> i_recv (ipcv s1 c)" using nd nr v1 by simp_all
      from receive_search_spec [OF ki l1 this False sp, of flags] e False p1 show ?thesis by simp
    qed
  qed
qed

section \<open>Tables of asynchronous sends\<close>

lemma senda_reject_None:
  assumes "ksane s" and "senda_reject c e s = None"
  shows "live s (ENDPOINT_P e)" "\<not> i_empty (ipcv s (ENDPOINT_P e))" "valid_nr (ENDPOINT_P e)"
  using assms isokendptD [OF assms(1), of e] by (auto simp: senda_reject_def split: option.splits if_splits)

text \<open>
  A table of messages is safe for a caller if all its messages are there, or nobody waits for the caller
  after an interrupt 0x80. The steps of a send of a table keep this: they change no memory of messages,
  and nobody begins to wait.
\<close>

definition uncaught_entry :: "int \<Rightarrow> int \<Rightarrow> int list \<Rightarrow> kstate \<Rightarrow> bool" where
  "uncaught_entry c lin is s \<longleftrightarrow>
     (\<exists>i \<in> set is. umsg s (uwrap32 (lin + i * ASYN_SIZE + 12)) = None) \<and> (\<exists>d. waits_0x80 d c s)"

definition calmer :: "kstate \<Rightarrow> kstate \<Rightarrow> bool" where
  "calmer s s' \<longleftrightarrow> umsg s' = umsg s \<and> (\<forall>n. syscall_0x80 (procs s' n) = syscall_0x80 (procs s n)) \<and>
     (\<forall>n. p_endpoint (procs s' n) = p_endpoint (procs s n)) \<and>
     (\<forall>n e. WILLRECEIVE (procs s' n) e \<longrightarrow> WILLRECEIVE (procs s n) e)"

lemma calmer_refl [simp]: "calmer s s"
  by (simp add: calmer_def)

lemma calmer_trans: "calmer s s' \<Longrightarrow> calmer s' s'' \<Longrightarrow> calmer s s''"
  by (auto simp: calmer_def)

lemma calmer_entry: "calmer s s' \<Longrightarrow> \<not> uncaught_entry c lin is s \<Longrightarrow> \<not> uncaught_entry c lin is s'"
  by (auto simp: calmer_def uncaught_entry_def waits_0x80_def)

lemma umsg_upd [simp]: "umsg (upd_proc d f s) = umsg s" "umsg (upd_priv_of d g s) = umsg s"
  by (simp_all add: upd_proc_def upd_priv_of_def upd_priv_def)

lemma calmer_QueueMess: "QueueMess ep m d s = Some (r, s') \<Longrightarrow> calmer s s'"
  by (auto simp: QueueMess_def calmer_def WILLRECEIVE_def RTS_ISSET_def split: option.splits if_splits)

lemma calmer_unset:
  assumes "RTS_UNSET d RTS_RECEIVING s = Some s'"
  shows "calmer s s'"
proof -
  note v = sched_view_fields [OF RTS_UNSET_sched_view [OF assms]]
  have "ipcv s' = v_unrecv d (ipcv s)"
    using sched_rel_ipcv [OF RTS_UNSET_rel [OF assms]] by (simp only: ipcv_rts)
  then have "WILLRECEIVE (procs s' n) e \<Longrightarrow> WILLRECEIVE (procs s n) e" for n e
    by (auto simp: WILLRECEIVE_view v_unrecv_def split: if_splits)
  then show ?thesis unfolding calmer_def using v(10,13,20) by (simp add: set_rts_def)
qed

lemma calmer_asyn_done: "asyn_done p tab i r fl s = (b, s') \<Longrightarrow> calmer s s'"
  by (auto simp: asyn_done_def Let_def put_word_def calmer_def split: if_splits)

lemma calmer_misc: "calmer s (upd_proc d (\<lambda>p. p\<lparr>p_misc_flags := f p\<rparr>) s)"
  by (auto simp: calmer_def WILLRECEIVE_def RTS_ISSET_def)

text \<open>One entry of the table with a destination that may be sent to.\<close>

lemma senda_deliver:
  assumes k: "kinv s" and d: "live s d" and w: "WILLRECEIVE (procs s d) (p_endpoint (procs s c))"
    and f: "syscall_0x80 (procs s d) \<Longrightarrow> fetch s m \<noteq> None"
  shows "\<exists>r s1 s2. QueueMess (p_endpoint (procs s c)) m d s = Some (r, s1) \<and>
    (if r = 0 then RTS_UNSET d RTS_RECEIVING s1 else Some s1) = Some s2 \<and> kinv s2 \<and> proc_ptr s2 = proc_ptr s \<and> calmer s s2"
proof -
  obtain r s1 where q: "QueueMess (p_endpoint (procs s c)) m d s = Some (r, s1)" "kcore s1" "ipcv s1 = ipcv s"
    "proc_ptr s1 = proc_ptr s" using QueueMess_any [OF kinvD(2) [OF k] f] by blast
  note c1 = calmer_QueueMess [OF q(1)]
  have "live s1 d" using d unfolding live_view q(3) .
  from unblock_receiver [OF q(2) this] obtain s2 where u: "RTS_UNSET d RTS_RECEIVING s1 = Some s2" "kcore s2"
    "ipcv s2 = v_unrecv d (ipcv s1)" "proc_ptr s2 = proc_ptr s1" by blast
  have "\<not> i_send (ipcv s d)" using w by (simp add: WILLRECEIVE_view)
  then have "kinv s2" "kinv s1" using u q k v_unrecv_ok [OF kinvD(3) [OF k]] by (simp_all add: kinv_alt)
  then show ?thesis using q u c1 calmer_trans [OF c1 calmer_unset [OF u(1)]] by (cases "r = 0") auto
qed

lemma asyn_done_kinv:
  assumes "kinv s"
  shows "\<exists>b s'. asyn_done p tab i r fl s = (b, s') \<and> kinv s' \<and> proc_ptr s' = proc_ptr s \<and> calmer s s'"
proof -
  obtain b s' where a: "asyn_done p tab i r fl s = (b, s')" by fastforce
  from asyn_done_spec [OF kinvD(2) [OF assms] a] assms a calmer_asyn_done [OF a] show ?thesis by (auto simp: kinv_alt)
qed

lemma asynmsg_kinv:
  assumes "kinv s"
  shows "kinv (upd_proc d (\<lambda>p. p\<lparr>p_misc_flags := p_misc_flags p OR MF_ASYNMSG\<rparr>) s)"
proof -
  let ?s = "upd_proc d (\<lambda>p. p\<lparr>p_misc_flags := p_misc_flags p OR MF_ASYNMSG\<rparr>) s"
  have "kcore ?s" by (rule kcore_upd_proc [OF kinvD(2) [OF assms]]) (simp add: quiet_def flag_simps)
  moreover have "ipcv ?s = ipcv s" by (simp add: ipcv_def ipcp_def fun_eq_iff)
  ultimately show ?thesis using assms by (simp add: kinv_alt)
qed

lemma senda_loop_spec:
  "kinv s \<Longrightarrow> \<not> uncaught_entry c lin is s \<Longrightarrow> \<exists>r don' s'. senda_loop c tab lin is don s = Some (r, don', s') \<and> kinv s' \<and> proc_ptr s' = proc_ptr s"
proof (induction "is" arbitrary: don s)
  case (Cons i "is")
  note k = Cons.prems(1) and nu = Cons.prems(2)
  have nu': "\<not> uncaught_entry c lin is t" if "calmer s t" for t
    using calmer_entry [OF that nu] by (auto simp: uncaught_entry_def)
  have fin: "\<exists>r' don' s'. (case asyn_done c tab i r fl t of (False, s1) \<Rightarrow> Some (- EFAULT, don, s1)
      | (True, s1) \<Rightarrow> senda_loop c tab lin is don s1) = Some (r', don', s') \<and> kinv s' \<and> proc_ptr s' = proc_ptr s"
    if t: "kinv t" "proc_ptr t = proc_ptr s" "calmer s t" for r fl t
  proof -
    obtain b s1 where a: "asyn_done c tab i r fl t = (b, s1)" "kinv s1" "proc_ptr s1 = proc_ptr t" "calmer t s1"
      using asyn_done_kinv [OF t(1)] by blast
    with Cons.IH [OF a(2) nu' [OF calmer_trans [OF t(3) a(4)]], of don] t(2) show ?thesis by (cases b) auto
  qed
  show ?case
  proof (cases "uword s c (asyn_addr tab i 0)")
    case None
    with k show ?thesis by simp
  next
    case (Some fl)
    consider "fl = 0 \<or> has_any fl AMF_DONE \<and> \<not> bad_amf fl" | "fl \<noteq> 0" "bad_amf fl"
      | "fl \<noteq> 0" "\<not> bad_amf fl" "\<not> has_any fl AMF_DONE" by blast
    then show ?thesis
    proof cases
      case 1
      with Cons.IH [OF k nu' [OF calmer_refl], of don] Some show ?thesis by auto
    next
      case 2
      with k Some show ?thesis by simp
    next
      case 3
      show ?thesis
      proof (cases "uword s c (asyn_addr tab i 4)")
        case None
        with k Some 3 show ?thesis by simp
      next
        case w: (Some dw)
        show ?thesis
        proof (cases "senda_reject c (sint dw) s")
          case rej: (Some res)
          with fin [OF k refl calmer_refl, of res fl] Some 3 w show ?thesis by simp
        next
          case None
          note d = senda_reject_None [OF kinvD(1) [OF k] None]
          let ?d = "ENDPOINT_P (sint dw)"
          let ?W = "WILLRECEIVE (procs s ?d) (p_endpoint (procs s c)) \<and>
            (\<not> has_any fl AMF_NOREPLY \<or> \<not> has_any (p_misc_flags (procs s ?d)) MF_REPLY_PEND)"
          show ?thesis
          proof (cases ?W)
            case True
            have f: "fetch s (Lin (uwrap32 (lin + i * ASYN_SIZE + 12))) \<noteq> None" if "syscall_0x80 (procs s ?d)"
              using nu True that unfolding uncaught_entry_def waits_0x80_def by auto
            from True obtain r s1 s2 where q: "QueueMess (p_endpoint (procs s c)) (Lin (uwrap32 (lin + i * ASYN_SIZE + 12))) ?d s = Some (r, s1)"
              "(if r = 0 then RTS_UNSET ?d RTS_RECEIVING s1 else Some s1) = Some s2" "kinv s2" "proc_ptr s2 = proc_ptr s" "calmer s s2"
              using senda_deliver [OF k d(1) _ f] by blast
            have "senda_loop c tab lin (i # is) don s = (case asyn_done c tab i r fl s2 of (False, s1) \<Rightarrow> Some (- EFAULT, don, s1)
                | (True, s1) \<Rightarrow> senda_loop c tab lin is don s1)"
              using Some 3 w None True q(1,2) by (simp add: Let_def)
            with fin [OF q(3-5), of r fl] show ?thesis by simp
          next
            case False
            have "senda_loop c tab lin (i # is) don s = senda_loop c tab lin is False
                (upd_proc ?d (\<lambda>p. p\<lparr>p_misc_flags := p_misc_flags p OR MF_ASYNMSG\<rparr>) s)"
              using Some 3 w None False by (simp only: senda_loop.simps option.case Let_def if_False)
            with Cons.IH [OF asynmsg_kinv [OF k, of ?d] nu' [OF calmer_misc], of False] show ?thesis by simp
          qed
        qed
      qed
    qed
  qed
qed simp

lemma senda_table_kinv:
  assumes "kinv s"
  shows "kinv (upd_priv_of c (\<lambda>pr. pr\<lparr>s_asyntab := a, s_asynsize := b\<rparr>) s)"
proof -
  have "kcore (upd_priv_of c (\<lambda>pr. pr\<lparr>s_asyntab := a, s_asynsize := b\<rparr>) s)"
    by (rule kcore_upd_priv [OF kinvD(2) [OF assms]]) simp_all
  with assms show ?thesis by (simp add: kinv_alt)
qed

definition uncaught_senda :: "int \<Rightarrow> int \<Rightarrow> int \<Rightarrow> kstate \<Rightarrow> bool" where
  "uncaught_senda c tab count s \<longleftrightarrow>
     uncaught_entry c (the (umap_local (procs s c) SEG_D tab (uwrap32 (count * ASYN_SIZE)))) [0..count - 1] s"

lemma mini_senda_spec:
  assumes k: "kinv s" and nu: "\<not> uncaught_senda c tab count s"
  shows "\<exists>r s'. mini_senda c tab count s = Some (r, s') \<and> kinv s' \<and> proc_ptr s' = proc_ptr s"
proof -
  define s1 where "s1 = upd_priv_of c (\<lambda>pr. pr\<lparr>s_asyntab := uwrap32 (- 1), s_asynsize := 0\<rparr>) s"
  have k1: "kinv s1" unfolding s1_def by (rule senda_table_kinv [OF k])
  have p1: "proc_ptr s1 = proc_ptr s" by (simp add: s1_def)
  obtain lin where lin: "umap_local (procs s1 c) SEG_D tab (uwrap32 (count * ASYN_SIZE)) = Some lin"
    using umap_local_D by blast
  have nu1: "\<not> uncaught_entry c lin [0..count - 1] s1"
    using nu lin by (simp add: uncaught_senda_def uncaught_entry_def waits_0x80_def s1_def)
  obtain r don s2 where l: "senda_loop c tab lin [0..count - 1] True s1 = Some (r, don, s2)" "kinv s2" "proc_ptr s2 = proc_ptr s1"
    using senda_loop_spec [OF k1 nu1] by blast
  have u: "mini_senda c tab count s = (if \<not> has_any (s_flags (priv_of s c)) SYS_PROC then Some (- EPERM, s)
    else if count = 0 then Some (0, s1) else if lin = 0 then Some (- EFAULT, s1)
    else if count > 16 * (NR_TASKS + NR_PROCS) then Some (- EDOM, s1)
    else if r \<noteq> 0 then Some (r, s2)
    else Some (0, if don then s2 else upd_priv_of c (\<lambda>pr. pr\<lparr>s_asyntab := tab, s_asynsize := count\<rparr>) s2))"
    by (simp only: mini_senda_def Let_def s1_def [symmetric] lin l Option.bind.simps prod.case)
  show ?thesis using k k1 p1 l(2,3) senda_table_kinv [OF l(2)] by (simp add: u)
qed

end
