(* ===== verification/Kernel_Clock.thy ===== *)
theory Kernel_Clock
  imports Kernel_Ipc_Spec
begin

text \<open>
  The clock, \<^verbatim>\<open>kernel/clock.c\<close>: the timer interrupt with its accounting, the virtual timers of
  \<^verbatim>\<open>kernel/system/do_vtimer.c\<close>, the load statistics, and the clock task, which runs the watchdog
  functions of expired timers.
\<close>

section \<open>Virtual timers\<close>

definition vtimer_check :: "int \<Rightarrow> kstate \<Rightarrow> kstate option" where
  "vtimer_check rp s = do {
     s1 \<leftarrow> (if has_any (p_misc_flags (procs s rp)) MF_VIRT_TIMER \<and> p_virt_left (procs s rp) \<le> 0
            then (let t = upd_proc rp (\<lambda>p. p\<lparr>p_misc_flags := p_misc_flags p AND NOT MF_VIRT_TIMER,
                                          p_virt_left := 0\<rparr>) s
                  in cause_sig (p_nr (procs t rp)) SIGVTALRM t)
            else Some s);
     if has_any (p_misc_flags (procs s1 rp)) MF_PROF_TIMER \<and> p_prof_left (procs s1 rp) \<le> 0
     then (let t = upd_proc rp (\<lambda>p. p\<lparr>p_misc_flags := p_misc_flags p AND NOT MF_PROF_TIMER,
                                   p_prof_left := 0\<rparr>) s1
           in cause_sig (p_nr (procs t rp)) SIGPROF t)
     else Some s1
   }"

section \<open>Load statistics\<close>

abbreviation (input) LOAD_UNIT_SECS :: int where "LOAD_UNIT_SECS \<equiv> 6"
abbreviation (input) LOAD_HISTORY :: int where "LOAD_HISTORY \<equiv> 150"

text \<open>Counting along a ready queue; a circular queue would keep the handler busy forever.\<close>

partial_function (option) count_ready :: "(int \<Rightarrow> int option) \<Rightarrow> int option \<Rightarrow> int \<Rightarrow> int option" where
  "count_ready next p enqueued =
     (case p of None \<Rightarrow> Some enqueued | Some x \<Rightarrow> count_ready next (next x) (enqueued + 1))"

fun count_queues :: "kstate \<Rightarrow> int list \<Rightarrow> int \<Rightarrow> int option" where
  "count_queues s [] enqueued = Some enqueued"
| "count_queues s (q # qs) enqueued =
     Option.bind (count_ready (nextreadys s) (rdy_head s q) enqueued) (count_queues s qs)"

definition load_update :: "kstate \<Rightarrow> kstate option" where
  "load_update s = do {
     let slot = uwrap16 (uwrap32 (realtime s) div system_hz s div LOAD_UNIT_SECS mod LOAD_HISTORY);
     let s1 = (if slot \<noteq> proc_last_slot s
               then s\<lparr>proc_load_history := (proc_load_history s)(slot := 0), proc_last_slot := slot\<rparr>
               else s);
     enqueued \<leftarrow> count_queues s1 [0..NR_SCHED_QUEUES - 1] 0;
     Some (s1\<lparr>proc_load_history :=
                (proc_load_history s1)(slot := uwrap16 (proc_load_history s1 slot + enqueued)),
              last_clock := realtime s1\<rparr>)
   }"

section \<open>The timer interrupt\<close>

text \<open>Charging the current and the billable process for the tick, and their virtual timers.\<close>

definition charge_if :: "bool \<Rightarrow> int \<Rightarrow> (proc \<Rightarrow> proc) \<Rightarrow> kstate \<Rightarrow> kstate" where
  "charge_if c n f s = (if c then upd_proc n f s else s)"

definition ap_charge :: "kstate \<Rightarrow> kstate" where
  "ap_charge s =
     (let p = proc_ptr s;
          billp = bill_ptr s;
          preemptible = has_any (s_flags (priv_of s p)) PREEMPTIBLE;
          billable = has_any (s_flags (priv_of s p)) BILLABLE;
          s1 = upd_proc p (\<lambda>r. r\<lparr>p_user_time := wrap32 (p_user_time r + 1)\<rparr>) s;
          s2 = charge_if preemptible p (\<lambda>r. r\<lparr>p_ticks_left := wrap8 (p_ticks_left r - 1)\<rparr>) s1;
          s3 = charge_if (\<not> billable) billp (\<lambda>r. r\<lparr>p_sys_time := wrap32 (p_sys_time r + 1),
                 p_ticks_left := wrap8 (p_ticks_left r - 1)\<rparr>) s2;
          s4 = charge_if (has_any (p_misc_flags (procs s3 p)) MF_VIRT_TIMER) p
                 (\<lambda>r. r\<lparr>p_virt_left := wrap32 (p_virt_left r - 1)\<rparr>) s3;
          s5 = charge_if (has_any (p_misc_flags (procs s4 p)) MF_PROF_TIMER) p
                 (\<lambda>r. r\<lparr>p_prof_left := wrap32 (p_prof_left r - 1)\<rparr>) s4
      in charge_if (\<not> billable \<and> has_any (p_misc_flags (procs s5 billp)) MF_PROF_TIMER) billp
           (\<lambda>r. r\<lparr>p_prof_left := wrap32 (p_prof_left r - 1)\<rparr>) s5)"

definition ap_timer_int_handler :: "kstate \<Rightarrow> (int \<times> kstate) option" where
  "ap_timer_int_handler s = do {
     let p = proc_ptr s;
     let billp = bill_ptr s;
     let s1 = ap_charge s;
     s2 \<leftarrow> vtimer_check p s1;
     s3 \<leftarrow> (if p \<noteq> billp then vtimer_check billp s2 else Some s2);
     s4 \<leftarrow> load_update s3;
     s5 \<leftarrow> (if p_rts_flags (procs s4 p) = 0 \<and> p_ticks_left (procs s4 p) \<le> 0 \<and>
               has_any (s_flags (priv_of s4 p)) PREEMPTIBLE
            then RTS_SET p RTS_NO_QUANTUM s4 else Some s4);
     Some (1, s5)
   }"

definition bsp_timer_int_handler :: "kstate \<Rightarrow> (int \<times> kstate) option" where
  "bsp_timer_int_handler s =
     (if kernel_in_panic s then Some (0, s)
      else do {
        let ticks = uwrap32 (lost_ticks s + 1);
        let s1 = s\<lparr>lost_ticks := 0, realtime := wrap32 (realtime s + ticks)\<rparr>;
        (_, s2) \<leftarrow> ap_timer_int_handler s1;
        s3 \<leftarrow> (if next_timeout s2 \<le> realtime s2
               then map_option snd (mini_notify HARDWARE CLOCK s2) else Some s2);
        Some (1, s3)
      })"

section \<open>The clock task\<close>

text \<open>\<^verbatim>\<open>cause_alarm\<close> of \<^verbatim>\<open>kernel/system/do_setalarm.c\<close>: the timer's argument is the endpoint to notify.\<close>

definition cause_alarm :: "ktimer \<Rightarrow> kstate \<Rightarrow> kstate option" where
  "cause_alarm tp s = map_option snd (lock_notify CLOCK (tmr_arg (tmr (clock_timers s) tp)) s)"

text \<open>The call \<^verbatim>\<open>(*tp->tmr_func)(tp)\<close>; the shutdown function does not come back.\<close>

definition run_watchdog ::
    "watchdog \<Rightarrow> ktimer \<Rightarrow> (ktimer, watchdog) tmrq \<Rightarrow> kstate \<Rightarrow> ((ktimer, watchdog) tmrq \<times> kstate) option" where
  "run_watchdog f tp q s =
     map_option (\<lambda>s'. (clock_timers s', s'))
       (let s1 = s\<lparr>clock_timers := q\<rparr>
        in case f of
             WD_balance_queues \<Rightarrow> balance_queues s1
           | WD_cause_alarm \<Rightarrow> cause_alarm tp s1
           | WD_shutdown \<Rightarrow> None)"

definition init_clock :: "kstate \<Rightarrow> kstate option" where
  "init_clock s = balance_queues s"

definition is_notify :: "int \<Rightarrow> bool" where
  "is_notify t \<longleftrightarrow> t AND 0x1000 \<noteq> 0"

text \<open>One turn of the main loop of \<^verbatim>\<open>clock_task\<close>, once a message has been received.\<close>

definition clock_task :: "kipc_msg \<Rightarrow> kstate \<Rightarrow> kstate option" where
  "clock_task m s =
     (if is_notify (m_type m) \<and> ENDPOINT_P (m_source m) = HARDWARE then do {
        (_, q, s1) \<leftarrow> tmrs_exptimers run_watchdog (realtime s) (clock_timers s) s;
        Some (s1\<lparr>clock_timers := q,
                 next_timeout := (case tmrs q of None \<Rightarrow> TMR_NEVER | Some h \<Rightarrow> tmr_exp_time (tmr q h))\<rparr>)
      }
      else Some s)"

section \<open>What does not concern the kernel invariant\<close>

lemma priv_of_upd_proc_same:
  "p_priv (f (procs s n)) = p_priv (procs s n) \<Longrightarrow> priv_of (upd_proc n f s) m = priv_of s m"
  by (auto simp: priv_of_def upd_proc_def)

lemmas kinv_unfold = kinv_def kcore_def runq_inv_def queues_def prio_ok_def runnables_def ksane_def
  free_ok_def tables_ok_def priv_of_def pm_ok_def lock_ok_def ipcv_def

lemma kcore_fields [simp]:
  "kcore (s\<lparr>clock_timers := q\<rparr>) = kcore s" "kcore (s\<lparr>next_timeout := i\<rparr>) = kcore s"
  "kcore (s\<lparr>realtime := i\<rparr>) = kcore s" "kcore (s\<lparr>lost_ticks := i\<rparr>) = kcore s"
  "kcore (s\<lparr>proc_load_history := h\<rparr>) = kcore s" "kcore (s\<lparr>proc_last_slot := i\<rparr>) = kcore s"
  "kcore (s\<lparr>last_clock := i\<rparr>) = kcore s" "kcore (s\<lparr>boottime := i\<rparr>) = kcore s"
  "kcore (s\<lparr>irq_hooks := k\<rparr>) = kcore s" "kcore (s\<lparr>irq_handlers := l\<rparr>) = kcore s"
  "kcore (s\<lparr>irq_actids := a\<rparr>) = kcore s" "kcore (s\<lparr>irq_use := u\<rparr>) = kcore s"
  "kcore (s\<lparr>irq_masked := b\<rparr>) = kcore s"
  by (simp_all add: kinv_unfold)

lemma ipcv_fields [simp]:
  "ipcv (s\<lparr>clock_timers := q\<rparr>) = ipcv s" "ipcv (s\<lparr>next_timeout := i\<rparr>) = ipcv s"
  "ipcv (s\<lparr>realtime := i\<rparr>) = ipcv s" "ipcv (s\<lparr>lost_ticks := i\<rparr>) = ipcv s"
  "ipcv (s\<lparr>proc_load_history := h\<rparr>) = ipcv s" "ipcv (s\<lparr>proc_last_slot := i\<rparr>) = ipcv s"
  "ipcv (s\<lparr>last_clock := i\<rparr>) = ipcv s" "ipcv (s\<lparr>boottime := i\<rparr>) = ipcv s"
  "ipcv (s\<lparr>irq_hooks := k\<rparr>) = ipcv s" "ipcv (s\<lparr>irq_handlers := l\<rparr>) = ipcv s"
  "ipcv (s\<lparr>irq_actids := a\<rparr>) = ipcv s" "ipcv (s\<lparr>irq_use := u\<rparr>) = ipcv s"
  "ipcv (s\<lparr>irq_masked := b\<rparr>) = ipcv s"
  by (simp_all add: ipcv_def fun_eq_iff)

lemma kinv_timer_view:
  assumes "timer_view s' = timer_view s"
  shows "kcore s' = kcore s" "ipcv s' = ipcv s"
proof -
  have e: "t\<lparr>clock_timers := clock_timers t, next_timeout := next_timeout t\<rparr> = t" for t :: kstate by simp
  have "timer_view s'\<lparr>clock_timers := clock_timers s', next_timeout := next_timeout s'\<rparr> =
      timer_view s\<lparr>clock_timers := clock_timers s', next_timeout := next_timeout s'\<rparr>"
    using assms by simp
  then have "s' = s\<lparr>clock_timers := clock_timers s', next_timeout := next_timeout s'\<rparr>"
    by (simp add: timer_view_def)
  moreover have "kcore (s\<lparr>clock_timers := q, next_timeout := n\<rparr>) = kcore s"
    "ipcv (s\<lparr>clock_timers := q, next_timeout := n\<rparr>) = ipcv s" for q n by simp_all
  ultimately show "kcore s' = kcore s" "ipcv s' = ipcv s" by metis+
qed

section \<open>The timer interrupt keeps the invariant\<close>

lemma count_ready_chain: "chain nx p xs \<Longrightarrow> count_ready nx p n = Some (n + int (length xs))"
  by (induction xs arbitrary: p n) (auto simp: count_ready.simps)

lemma count_queues_chains:
  assumes "queues s A Q" and "\<forall>q \<in> set qs. valid_q q"
  shows "count_queues s qs n = Some (n + (\<Sum>q\<leftarrow>qs. int (length (Q q))))"
  using assms(2) by (induction qs arbitrary: n) (auto simp: count_ready_chain [OF queues_chain [OF assms(1)]])

text \<open>What the load update counts is the number of runnable processes.\<close>

lemma count_queues_runnable:
  assumes "runq_inv s"
  shows "count_queues s [0..NR_SCHED_QUEUES - 1] 0 = Some (int (card (runnables s)))"
proof -
  from assms obtain Q where Q: "queues s (runnables s) Q" and p: "prio_ok s" by (auto simp: runq_inv_def)
  let ?S = "\<lambda>q. {n \<in> runnables s. p_priority (procs s n) = q}"
  have fin: "finite (runnables s)"
    by (rule finite_subset [of _ "{- NR_TASKS..<NR_PROCS}"]) (auto simp: runnables_def valid_nr_def)
  have "length (Q q) = card (?S q)" if "valid_q q" for q
    using distinct_card [OF queues_distinct [OF Q that]] queues_set [OF Q that] by simp
  then have "(\<Sum>q\<leftarrow>[0..NR_SCHED_QUEUES - 1]. int (length (Q q))) = (\<Sum>q\<in>{0..NR_SCHED_QUEUES - 1}. int (card (?S q)))"
    by (subst sum_list_distinct_conv_sum_set) (auto simp: valid_q_def intro!: sum.cong)
  also have "\<dots> = int (\<Sum>q\<in>{0..NR_SCHED_QUEUES - 1}. card (?S q))" by simp
  also have "(\<Sum>q\<in>{0..NR_SCHED_QUEUES - 1}. card (?S q)) = card (\<Union>q\<in>{0..NR_SCHED_QUEUES - 1}. ?S q)"
    using fin by (intro card_UN_disjoint [symmetric]) auto
  also have "(\<Union>q\<in>{0..NR_SCHED_QUEUES - 1}. ?S q) = runnables s"
    using p by (force simp: prio_ok_def valid_q_def runnables_def)
  finally show ?thesis
    using count_queues_chains [OF Q, of "[0..NR_SCHED_QUEUES - 1]" 0] by (simp add: valid_q_def)
qed

section \<open>What notifications and signals leave alone\<close>

text \<open>
  The state without what a notification or a kernel signal may change: scheduling, the runtime
  flags, the message to deliver, and the maps of pending things.
\<close>

definition note_view :: "kstate \<Rightarrow> kstate" where
  "note_view s = s\<lparr>rdy_head := (\<lambda>_. None), rdy_tail := (\<lambda>_. None), intr_off := False, locklevel := 0,
     procs := (\<lambda>n. (procs s n)\<lparr>p_nextready := None, p_priority := 0, p_ticks_left := 0, p_rts_flags := 0,
       p_misc_flags := p_misc_flags (procs s n) AND NOT MF_DELIVERMSG, p_delivermsg := msg0, p_pending := 0\<rparr>),
     privs := (\<lambda>i. (privs s i)\<lparr>s_notify_pending := (\<lambda>_. 0), s_int_pending := 0, s_sig_pending := 0\<rparr>)\<rparr>"

lemma note_view_sched_view: "note_view (sched_view s) = note_view s"
  by (simp add: note_view_def sched_view_def)

lemma note_view_sched: "sched_view s' = sched_view s \<Longrightarrow> note_view s' = note_view s"
  by (metis note_view_sched_view)

lemma note_view_upd [simp]:
  "note_view (set_rts n f s) = note_view s" "note_view (with_lock a b s) = note_view s"
  "note_view (upd_priv_of n (\<lambda>pr. pr\<lparr>s_notify_pending := g pr\<rparr>) s) = note_view s"
  "note_view (upd_priv_of n (\<lambda>pr. pr\<lparr>s_int_pending := h pr\<rparr>) s) = note_view s"
  "note_view (upd_priv_of n (\<lambda>pr. pr\<lparr>s_sig_pending := h pr\<rparr>) s) = note_view s"
  "note_view (upd_proc n (\<lambda>p. p\<lparr>p_pending := k p\<rparr>) s) = note_view s"
  by (simp_all add: note_view_def set_rts_def upd_proc_def with_lock_def upd_priv_of_def upd_priv_def fun_eq_iff)

lemma note_view_deliver:
  "note_view (upd_proc n (\<lambda>p. p\<lparr>p_delivermsg := m, p_misc_flags := p_misc_flags p OR MF_DELIVERMSG\<rparr>) s) = note_view s"
  by (simp add: note_view_def upd_proc_def fun_eq_iff flag_simps and.assoc)

lemma note_view_RTS:
  "RTS_SET n f s = Some s' \<Longrightarrow> note_view s' = note_view s"
  "RTS_UNSET n f s = Some s' \<Longrightarrow> note_view s' = note_view s"
  by (drule RTS_SET_sched_view RTS_UNSET_sched_view, drule note_view_sched, simp)+

lemma note_view_lock:
  "reallock s = Some s' \<Longrightarrow> note_view s' = note_view s" "realunlock s = Some s' \<Longrightarrow> note_view s' = note_view s"
  by (auto simp: reallock_def realunlock_def note_view_def Let_def split: if_splits)

lemma mini_notify_note: "mini_notify c e s = Some (r, s') \<Longrightarrow> note_view s' = note_view s"
  by (auto simp: mini_notify_def QueueMess_def BuildNotifyMessage_def Let_def opt_simps note_view_deliver
      dest!: note_view_RTS split: option.splits if_splits)

lemma lock_notify_note: "lock_notify c e s = Some (r, s') \<Longrightarrow> note_view s' = note_view s"
  by (auto simp: lock_notify_def opt_simps dest!: mini_notify_note note_view_lock split: option.splits)

lemma send_sig_note: "send_sig n sig s = Some s' \<Longrightarrow> note_view s' = note_view s"
  by (auto simp: send_sig_def Let_def opt_simps dest!: mini_notify_note lock_notify_note split: if_splits)

lemma RTS_LOCK_note:
  "RTS_LOCK_SET n f s = Some s' \<Longrightarrow> lock_ok s \<Longrightarrow> note_view s' = note_view s"
  "RTS_LOCK_UNSET n f s = Some s' \<Longrightarrow> lock_ok s \<Longrightarrow> note_view s' = note_view s"
  by (auto simp: RTS_LOCK_SET_eq RTS_LOCK_UNSET_eq dest: note_view_RTS)

lemma cause_sig_note:
  assumes "cause_sig n sig s = Some s'" and "lock_ok s"
  shows "note_view s' = note_view s"
proof -
  have l: "lock_ok (upd_proc n (\<lambda>p. p\<lparr>p_pending := k p\<rparr>) s)" for k
    using assms(2) by (simp add: lock_ok_def upd_proc_def)
  show ?thesis
    using assms(1) l by (auto simp: cause_sig_def proc_addr_def Let_def opt_simps
        dest!: send_sig_note RTS_LOCK_note(1) split: if_splits)
qed

lemma note_view_procs:
  assumes "note_view s' = note_view s"
  shows "p_priv (procs s' n) = p_priv (procs s n)" "p_nr (procs s' n) = p_nr (procs s n)"
    "p_user_time (procs s' n) = p_user_time (procs s n)" "p_sys_time (procs s' n) = p_sys_time (procs s n)"
    "p_virt_left (procs s' n) = p_virt_left (procs s n)" "p_prof_left (procs s' n) = p_prof_left (procs s n)"
    "p_quantum_size (procs s' n) = p_quantum_size (procs s n)" "p_endpoint (procs s' n) = p_endpoint (procs s n)"
    "f AND NOT MF_DELIVERMSG = f \<Longrightarrow> p_misc_flags (procs s' n) AND f = p_misc_flags (procs s n) AND f"
    "s_flags (privs s' i) = s_flags (privs s i)"
proof -
  have e: "procs (note_view s') n = procs (note_view s) n" "privs (note_view s') i = privs (note_view s) i"
    using assms by simp_all
  note d = e [unfolded note_view_def, simplified]
  show "p_priv (procs s' n) = p_priv (procs s n)" using arg_cong [OF d(1), of p_priv] by simp
  show "p_nr (procs s' n) = p_nr (procs s n)" using arg_cong [OF d(1), of p_nr] by simp
  show "p_user_time (procs s' n) = p_user_time (procs s n)" using arg_cong [OF d(1), of p_user_time] by simp
  show "p_sys_time (procs s' n) = p_sys_time (procs s n)" using arg_cong [OF d(1), of p_sys_time] by simp
  show "p_virt_left (procs s' n) = p_virt_left (procs s n)" using arg_cong [OF d(1), of p_virt_left] by simp
  show "p_prof_left (procs s' n) = p_prof_left (procs s n)" using arg_cong [OF d(1), of p_prof_left] by simp
  show "p_quantum_size (procs s' n) = p_quantum_size (procs s n)" using arg_cong [OF d(1), of p_quantum_size] by simp
  show "p_endpoint (procs s' n) = p_endpoint (procs s n)" using arg_cong [OF d(1), of p_endpoint] by simp
  show "s_flags (privs s' i) = s_flags (privs s i)" using arg_cong [OF d(2), of s_flags] by simp
  have m: "p_misc_flags (procs s' n) AND NOT MF_DELIVERMSG = p_misc_flags (procs s n) AND NOT MF_DELIVERMSG"
    using arg_cong [OF d(1), of p_misc_flags] by simp
  have "z AND f = (z AND NOT MF_DELIVERMSG) AND f" if "f AND NOT MF_DELIVERMSG = f" for z :: "16 word"
    by (subst that [symmetric]) (simp only: ac_simps)
  then show "f AND NOT MF_DELIVERMSG = f \<Longrightarrow> p_misc_flags (procs s' n) AND f = p_misc_flags (procs s n) AND f"
    using m by metis
qed

lemma note_view_state:
  assumes "note_view s' = note_view s"
  shows "proc_ptr s' = proc_ptr s" "bill_ptr s' = bill_ptr s" "realtime s' = realtime s"
    "clock_timers s' = clock_timers s" "next_timeout s' = next_timeout s" "system_hz s' = system_hz s"
    "who_p s' = who_p s" "who_e s' = who_e s" "irq_hooks s' = irq_hooks s"
    "irq_handlers s' = irq_handlers s" "irq_actids s' = irq_actids s" "irq_use s' = irq_use s"
    "irq_masked s' = irq_masked s" "lost_ticks s' = lost_ticks s"
  using arg_cong [OF assms, of proc_ptr] arg_cong [OF assms, of bill_ptr] arg_cong [OF assms, of realtime]
    arg_cong [OF assms, of clock_timers] arg_cong [OF assms, of next_timeout] arg_cong [OF assms, of system_hz]
    arg_cong [OF assms, of who_p] arg_cong [OF assms, of who_e] arg_cong [OF assms, of irq_hooks]
    arg_cong [OF assms, of irq_handlers] arg_cong [OF assms, of irq_actids] arg_cong [OF assms, of irq_use]
    arg_cong [OF assms, of irq_masked] arg_cong [OF assms, of lost_ticks]
  by (simp_all add: note_view_def)

section \<open>Signals on the timer interrupt\<close>

lemma quiet_kinv:
  assumes k: "kinv s" and q: "quiet (procs s n) (f (procs s n))" and i: "ipcp (f (procs s n)) = ipcp (procs s n)"
  shows "kinv (upd_proc n f s)"
proof -
  have "ipcv (upd_proc n f s) = ipcv s" unfolding ipcv_upd_proc i by (simp add: ipcv_def fun_eq_iff)
  with kcore_upd_proc [OF kinvD(2) [OF k], of n f, OF q] k show ?thesis by (simp add: kinv_alt)
qed

lemma live_ipcv: "ipcv s' n = ipcv s n \<Longrightarrow> live s' n = live s n"
  unfolding live_view by simp

text \<open>The signals pending for a process, and whether it is stopped for one.\<close>

definition sig_view :: "kstate \<Rightarrow> int \<Rightarrow> 32 word \<times> bool" where
  "sig_view s m = (p_pending (procs s m), has_any (p_rts_flags (procs s m)) RTS_SIGNALED)"

lemma sig_view_sched: "sched_view s' = sched_view s \<Longrightarrow> sig_view s' = sig_view s"
  using sched_view_fields(9) [of s' s] sched_view_fields(15) [of s' s RTS_SIGNALED] by (simp add: sig_view_def fun_eq_iff)

lemma sig_view_unset: "RTS_UNSET d RTS_RECEIVING s = Some s' \<Longrightarrow> sig_view s' = sig_view s"
  by (drule RTS_UNSET_sched_view, drule sig_view_sched) (simp add: sig_view_def set_rts_def fun_eq_iff and.assoc)

lemma sig_view_upd [simp]:
  "sig_view (upd_priv_of n f s) = sig_view s"
  "sig_view (upd_proc n (\<lambda>p. p\<lparr>p_delivermsg := m, p_misc_flags := g p\<rparr>) s) = sig_view s"
  "sig_view (with_lock a b s) = sig_view s"
  by (simp_all add: sig_view_def fun_eq_iff upd_priv_of_def upd_priv_def)

lemma mini_notify_sig: "mini_notify c e s = Some (r, s') \<Longrightarrow> sig_view s' = sig_view s"
  by (auto simp: mini_notify_def QueueMess_def BuildNotifyMessage_def Let_def opt_simps
      dest!: sig_view_unset split: option.splits if_splits)

lemma sig_view_lock:
  "reallock s = Some s' \<Longrightarrow> sig_view s' = sig_view s" "realunlock s = Some s' \<Longrightarrow> sig_view s' = sig_view s"
  by (auto simp: reallock_def realunlock_def sig_view_def fun_eq_iff Let_def split: if_splits)

lemma lock_notify_sig: "lock_notify c e s = Some (r, s') \<Longrightarrow> sig_view s' = sig_view s"
  by (auto simp: lock_notify_def opt_simps dest!: mini_notify_sig sig_view_lock split: option.splits)

lemma send_sig_sig: "send_sig n sig s = Some s' \<Longrightarrow> sig_view s' = sig_view s"
  by (auto simp: send_sig_def Let_def opt_simps dest!: mini_notify_sig lock_notify_sig split: if_splits)

lemma or_sig_bit:
  assumes "has_any x (sig_bit k)"
  shows "x OR sig_bit k = x"
proof -
  let ?k = "nat (k mod 32)"
  have e: "sig_bit k = 2 ^ ?k" by (simp add: sig_bit_def push_bit_eq_mult)
  have "bit x ?k" using assms unfolding e by (simp add: and_exp_eq_0_iff_not_bit)
  then show ?thesis unfolding e by (intro bit_eqI) (auto simp: bit_or_iff bit_exp_iff)
qed

lemma cause_sig_sig:
  assumes c: "cause_sig n sig s = Some s'" and l: "lock_ok s"
  shows "sig_view s' = (sig_view s)(n := (p_pending (procs s n) OR sig_bit sig,
    has_any (p_rts_flags (procs s n)) RTS_SIGNALED \<or> \<not> has_any (p_pending (procs s n)) (sig_bit sig)))"
proof (cases "has_any (p_pending (procs s n)) (sig_bit sig)")
  case True
  then have "s' = s" using c by (auto simp: cause_sig_def proc_addr_def opt_simps split: if_splits)
  then show ?thesis using or_sig_bit [OF True] True by (auto simp: sig_view_def)
next
  case False
  define s1 where "s1 = upd_proc n (\<lambda>p. p\<lparr>p_pending := p_pending p OR sig_bit sig\<rparr>) s"
  have l1: "lock_ok s1" using l by (simp add: lock_ok_def s1_def upd_proc_def)
  have v1: "sig_view s1 = (sig_view s)(n := (p_pending (procs s n) OR sig_bit sig, has_any (p_rts_flags (procs s n)) RTS_SIGNALED))"
    by (auto simp: sig_view_def s1_def)
  show ?thesis
  proof (cases "RTS_ISSET (procs s1 n) RTS_SIGNALED")
    case True
    then have "s' = s1" using c False
      by (auto simp: cause_sig_def proc_addr_def opt_simps Let_def s1_def split: if_splits)
    moreover have "has_any (p_rts_flags (procs s n)) RTS_SIGNALED" using True by (auto simp: RTS_ISSET_def s1_def)
    ultimately show ?thesis using v1 False by simp
  next
    case ns: False
    with c False obtain s2 where r: "RTS_LOCK_SET n (RTS_SIGNALED OR RTS_SIG_PENDING) s1 = Some s2"
      and d: "send_sig PM_PROC_NR SIGKSIG s2 = Some s'"
      unfolding cause_sig_def proc_addr_def Let_def s1_def by (auto simp: opt_simps split: if_splits)
    from r have "RTS_SET n (RTS_SIGNALED OR RTS_SIG_PENDING) s1 = Some s2" by (simp add: RTS_LOCK_SET_eq [OF l1])
    from sig_view_sched [OF RTS_SET_sched_view [OF this]]
    have "sig_view s2 = (sig_view s1)(n := (p_pending (procs s1 n), True))"
      by (auto simp: sig_view_def set_rts_def fun_eq_iff or_and_dist)
    then show ?thesis using v1 False send_sig_sig [OF d] by (simp add: s1_def)
  qed
qed

lemma cause_sig_kinv:
  assumes k: "kinv s" and l: "live s n" and pm: "n \<noteq> PM_PROC_NR"
  shows "\<exists>s'. cause_sig n sig s = Some s' \<and> kinv s' \<and> note_view s' = note_view s \<and> (\<forall>m. live s' m = live s m) \<and>
    sig_view s' = (sig_view s)(n := (p_pending (procs s n) OR sig_bit sig,
      has_any (p_rts_flags (procs s n)) RTS_SIGNALED \<or> \<not> has_any (p_pending (procs s n)) (sig_bit sig)))"
proof -
  from cause_sig_spec [OF kinvD(2) [OF k] l pm, of sig] obtain s' where c: "cause_sig n sig s = Some s'"
    and k': "kcore s'" and m: "maybe_unrecv (ipcv s) (ipcv s')" by blast
  have lo: "lock_ok s" using k by (simp add: kinv_def ksane_def)
  from cause_sig_note [OF c lo] have "note_view s' = note_view s" .
  moreover have "kinv s'" using k' maybe_unrecv_ok [OF m] k by (simp add: kinv_alt)
  moreover have "live s' q = live s q" for q unfolding live_view using maybe_unrecv_sel(1) [OF m] by simp
  ultimately show ?thesis using c cause_sig_sig [OF c lo] by blast
qed

abbreviation (input) VTIMERS :: "16 word" where
  "VTIMERS \<equiv> MF_VIRT_TIMER OR MF_PROF_TIMER"

text \<open>The state without what expiring virtual timers may change.\<close>

definition vt_view :: "kstate \<Rightarrow> kstate" where
  "vt_view s = note_view (s\<lparr>procs := (\<lambda>n. (procs s n)\<lparr>p_virt_left := 0, p_prof_left := 0,
     p_misc_flags := p_misc_flags (procs s n) AND NOT VTIMERS\<rparr>)\<rparr>)"

lemma vt_view_note: "note_view s' = note_view s \<Longrightarrow> vt_view s' = vt_view s"
proof -
  have "vt_view s = vt_view (note_view s)" for s
    by (simp add: vt_view_def note_view_def fun_eq_iff and.assoc)
  then show "note_view s' = note_view s \<Longrightarrow> vt_view s' = vt_view s" by metis
qed

definition vt_expired :: "kstate \<Rightarrow> int \<Rightarrow> bool" where
  "vt_expired s n \<longleftrightarrow>
     has_any (p_misc_flags (procs s n)) MF_VIRT_TIMER \<and> p_virt_left (procs s n) \<le> 0 \<or>
     has_any (p_misc_flags (procs s n)) MF_PROF_TIMER \<and> p_prof_left (procs s n) \<le> 0"

text \<open>
  What becomes of the timers of a process between two states. A timer that is due is stopped and its
  signal caused: it is pending, and the process is stopped for it unless it was pending before. A timer that
  is not due stays as it is.
\<close>

definition caused :: "kstate \<Rightarrow> kstate \<Rightarrow> int \<Rightarrow> int \<Rightarrow> bool" where
  "caused s s' n sig \<longleftrightarrow> has_any (p_pending (procs s' n)) (sig_bit sig) \<and>
     (has_any (p_pending (procs s n)) (sig_bit sig) \<or> has_any (p_rts_flags (procs s' n)) RTS_SIGNALED)"

definition fired :: "kstate \<Rightarrow> kstate \<Rightarrow> int \<Rightarrow> bool" where
  "fired s s' n \<longleftrightarrow>
     (if has_any (p_misc_flags (procs s n)) MF_VIRT_TIMER \<and> p_virt_left (procs s n) \<le> 0
      then \<not> has_any (p_misc_flags (procs s' n)) MF_VIRT_TIMER \<and> caused s s' n SIGVTALRM
      else has_any (p_misc_flags (procs s' n)) MF_VIRT_TIMER = has_any (p_misc_flags (procs s n)) MF_VIRT_TIMER \<and>
        p_virt_left (procs s' n) = p_virt_left (procs s n)) \<and>
     (if has_any (p_misc_flags (procs s n)) MF_PROF_TIMER \<and> p_prof_left (procs s n) \<le> 0
      then \<not> has_any (p_misc_flags (procs s' n)) MF_PROF_TIMER \<and> caused s s' n SIGPROF
      else has_any (p_misc_flags (procs s' n)) MF_PROF_TIMER = has_any (p_misc_flags (procs s n)) MF_PROF_TIMER \<and>
        p_prof_left (procs s' n) = p_prof_left (procs s n))"

definition vt_same :: "kstate \<Rightarrow> kstate \<Rightarrow> int \<Rightarrow> bool" where
  "vt_same s s' n \<longleftrightarrow>
     p_misc_flags (procs s' n) AND MF_VIRT_TIMER = p_misc_flags (procs s n) AND MF_VIRT_TIMER \<and>
     p_misc_flags (procs s' n) AND MF_PROF_TIMER = p_misc_flags (procs s n) AND MF_PROF_TIMER \<and>
     p_virt_left (procs s' n) = p_virt_left (procs s n) \<and> p_prof_left (procs s' n) = p_prof_left (procs s n) \<and>
     sig_view s' n = sig_view s n"

lemma vt_same_refl [simp]: "vt_same s s n"
  by (simp add: vt_same_def)

lemma fired_cong: "vt_same s0 s n \<Longrightarrow> fired s s' n \<Longrightarrow> vt_same s' s'' n \<Longrightarrow> fired s0 s'' n"
  unfolding fired_def vt_same_def caused_def sig_view_def prod.inject by (elim conjE) (simp only:)

text \<open>Stopping a timer and signalling its process.\<close>

lemma vtimer_signal:
  assumes k: "kinv s" and l: "live s n" and pm: "n \<noteq> PM_PROC_NR"
    and q: "quiet (procs s n) (f (procs s n))" and i: "ipcp (f (procs s n)) = ipcp (procs s n)"
    and v: "vt_view (upd_proc n f s) = vt_view s" and pd: "p_pending (f (procs s n)) = p_pending (procs s n)"
  shows "\<exists>s'. cause_sig (p_nr (procs (upd_proc n f s) n)) sig (upd_proc n f s) = Some s' \<and> kinv s' \<and>
    vt_view s' = vt_view s \<and> note_view s' = note_view (upd_proc n f s) \<and> (\<forall>m. live s' m = live s m) \<and>
    sig_view s' = (sig_view s)(n := (p_pending (procs s n) OR sig_bit sig,
      has_any (p_rts_flags (procs s n)) RTS_SIGNALED \<or> \<not> has_any (p_pending (procs s n)) (sig_bit sig)))"
proof -
  have k1: "kinv (upd_proc n f s)" by (rule quiet_kinv [OF k, of n f, OF q i])
  have lv: "live (upd_proc n f s) m = live s m" for m
    by (rule live_ipcv) (simp add: ipcv_def i)
  have nr: "p_nr (procs (upd_proc n f s) n) = n"
    using p_nr_valid [OF kinvD(1) [OF k1], of n] l by blast
  have "live (upd_proc n f s) n" using l lv by blast
  from cause_sig_kinv [OF k1 this pm, of sig] lv obtain s' where c: "cause_sig n sig (upd_proc n f s) = Some s'"
    "kinv s'" "note_view s' = note_view (upd_proc n f s)" "\<forall>m. live s' m = live s m"
    and g: "sig_view s' = (sig_view (upd_proc n f s))(n := (p_pending (procs (upd_proc n f s) n) OR sig_bit sig,
      has_any (p_rts_flags (procs (upd_proc n f s) n)) RTS_SIGNALED \<or> \<not> has_any (p_pending (procs (upd_proc n f s) n)) (sig_bit sig)))"
    by blast
  have e: "(sig_view (upd_proc n f s))(n := x) = (sig_view s)(n := x)" for x
    by (auto simp: sig_view_def)
  have "p_rts_flags (f (procs s n)) = p_rts_flags (procs s n)" using q by (simp add: quiet_def)
  with g pd have "sig_view s' = (sig_view s)(n := (p_pending (procs s n) OR sig_bit sig,
      has_any (p_rts_flags (procs s n)) RTS_SIGNALED \<or> \<not> has_any (p_pending (procs s n)) (sig_bit sig)))"
    unfolding e by simp
  moreover from vt_view_note [OF c(3)] have "vt_view s' = vt_view s" using v by (rule trans)
  ultimately show ?thesis using c unfolding nr by blast
qed

lemma vtimer_signal_if:
  assumes k: "kinv s" and l: "live s n" and pm: "C \<Longrightarrow> n \<noteq> PM_PROC_NR"
    and q: "quiet (procs s n) (f (procs s n))" and i: "ipcp (f (procs s n)) = ipcp (procs s n)"
    and v: "vt_view (upd_proc n f s) = vt_view s" and pd: "p_pending (f (procs s n)) = p_pending (procs s n)"
  shows "\<exists>s'. (if C then let t = upd_proc n f s in cause_sig (p_nr (procs t n)) sig t else Some s) = Some s' \<and>
    kinv s' \<and> vt_view s' = vt_view s \<and> note_view s' = note_view (if C then upd_proc n f s else s) \<and>
    (\<forall>m. live s' m = live s m) \<and>
    sig_view s' = (if C then (sig_view s)(n := (p_pending (procs s n) OR sig_bit sig,
      has_any (p_rts_flags (procs s n)) RTS_SIGNALED \<or> \<not> has_any (p_pending (procs s n)) (sig_bit sig))) else sig_view s)"
proof (cases C)
  case True
  from vtimer_signal [OF k l pm, of f sig, OF True q i v pd] True show ?thesis by (auto simp: Let_def)
qed (use k in simp)

lemma vt_flags: "has_any x VTIMERS \<longleftrightarrow> has_any x MF_VIRT_TIMER \<or> has_any x MF_PROF_TIMER" for x :: "16 word"
proof -
  have "x AND 6 = (x AND 2) OR (x AND 4)" by (simp flip: bit.conj_disj_distrib)
  then show ?thesis by simp
qed

lemma vt_view_stop:
  "vt_view (upd_proc n (\<lambda>p. p\<lparr>p_misc_flags := p_misc_flags p AND NOT MF_VIRT_TIMER, p_virt_left := 0\<rparr>) s) = vt_view s"
  "vt_view (upd_proc n (\<lambda>p. p\<lparr>p_misc_flags := p_misc_flags p AND NOT MF_PROF_TIMER, p_prof_left := 0\<rparr>) s) = vt_view s"
  by (simp_all add: vt_view_def note_view_def upd_proc_def fun_eq_iff and.assoc)

lemma sig_bits_apart: "sig_bit SIGVTALRM AND sig_bit SIGPROF = 0" "sig_bit SIGVTALRM \<noteq> 0" "sig_bit SIGPROF \<noteq> 0"
  by (simp_all add: sig_bit_def)

lemma vtimer_fired:
  assumes "sig_view s1 = (if V then (sig_view s)(n := (p_pending (procs s n) OR sig_bit SIGVTALRM,
      has_any (p_rts_flags (procs s n)) RTS_SIGNALED \<or> \<not> has_any (p_pending (procs s n)) (sig_bit SIGVTALRM))) else sig_view s)"
    and "sig_view s2 = (if P then (sig_view s1)(n := (p_pending (procs s1 n) OR sig_bit SIGPROF,
      has_any (p_rts_flags (procs s1 n)) RTS_SIGNALED \<or> \<not> has_any (p_pending (procs s1 n)) (sig_bit SIGPROF))) else sig_view s1)"
  shows "V \<Longrightarrow> caused s s2 n SIGVTALRM" "P \<Longrightarrow> caused s s2 n SIGPROF"
proof -
  have s1: "p_pending (procs s1 n) = (if V then p_pending (procs s n) OR sig_bit SIGVTALRM else p_pending (procs s n))"
    "has_any (p_rts_flags (procs s1 n)) RTS_SIGNALED \<longleftrightarrow> has_any (p_rts_flags (procs s n)) RTS_SIGNALED \<or>
      V \<and> \<not> has_any (p_pending (procs s n)) (sig_bit SIGVTALRM)"
    using fun_cong [OF assms(1), of n] by (auto simp: sig_view_def split: if_splits)
  have s2: "p_pending (procs s2 n) = (if P then p_pending (procs s1 n) OR sig_bit SIGPROF else p_pending (procs s1 n))"
    "has_any (p_rts_flags (procs s2 n)) RTS_SIGNALED \<longleftrightarrow> has_any (p_rts_flags (procs s1 n)) RTS_SIGNALED \<or>
      P \<and> \<not> has_any (p_pending (procs s1 n)) (sig_bit SIGPROF)"
    using fun_cong [OF assms(2), of n] by (auto simp: sig_view_def split: if_splits)
  have a: "has_any (x OR y) b \<longleftrightarrow> has_any x b \<or> has_any y b" for x y b :: "32 word"
    by (simp add: or_and_dist)
  show "V \<Longrightarrow> caused s s2 n SIGVTALRM"
    unfolding caused_def s2 s1 by (auto simp: a sig_bits_apart)
  show "P \<Longrightarrow> caused s s2 n SIGPROF"
    unfolding caused_def s2 s1 by (auto simp: a sig_bits_apart)
qed

lemma vtimer_check_spec:
  assumes k: "kinv s" and l: "live s n"
    and pm: "n = PM_PROC_NR \<Longrightarrow> \<not> has_any (p_misc_flags (procs s n)) VTIMERS"
  shows "\<exists>s'. vtimer_check n s = Some s' \<and> kinv s' \<and> vt_view s' = vt_view s \<and> \<not> vt_expired s' n \<and>
    (\<forall>m. live s' m = live s m) \<and>
    (\<forall>m. (vt_expired s' m \<longrightarrow> vt_expired s m) \<and>
         (has_any (p_misc_flags (procs s' m)) VTIMERS \<longrightarrow> has_any (p_misc_flags (procs s m)) VTIMERS)) \<and>
    fired s s' n \<and> (\<forall>m. m \<noteq> n \<longrightarrow> vt_same s s' m)"
proof -
  let ?V = "has_any (p_misc_flags (procs s n)) MF_VIRT_TIMER \<and> p_virt_left (procs s n) \<le> 0"
  let ?f = "\<lambda>p. p\<lparr>p_misc_flags := p_misc_flags p AND NOT MF_VIRT_TIMER, p_virt_left := 0\<rparr>"
  let ?g = "\<lambda>p. p\<lparr>p_misc_flags := p_misc_flags p AND NOT MF_PROF_TIMER, p_prof_left := 0\<rparr>"
  have pv: "n \<noteq> PM_PROC_NR" if ?V using pm that vt_flags by auto
  have q1: "quiet (procs s n) (?f (procs s n))" "ipcp (?f (procs s n)) = ipcp (procs s n)"
    by (auto simp: quiet_def ipcp_def and_and_zero)
  from vtimer_signal_if [where f = ?f and C = ?V and sig = SIGVTALRM, OF k l pv q1 vt_view_stop(1)] obtain s1 where
    r1: "(if ?V then let t = upd_proc n ?f s in cause_sig (p_nr (procs t n)) SIGVTALRM t else Some s) = Some s1"
    and k1: "kinv s1" and v1: "vt_view s1 = vt_view s" and n1: "note_view s1 = note_view (if ?V then upd_proc n ?f s else s)"
    and l1: "\<forall>m. live s1 m = live s m"
    and g1: "sig_view s1 = (if ?V then (sig_view s)(n := (p_pending (procs s n) OR sig_bit SIGVTALRM,
      has_any (p_rts_flags (procs s n)) RTS_SIGNALED \<or> \<not> has_any (p_pending (procs s n)) (sig_bit SIGVTALRM))) else sig_view s)"
    by force
  let ?P = "has_any (p_misc_flags (procs s1 n)) MF_PROF_TIMER \<and> p_prof_left (procs s1 n) \<le> 0"
  note f1 = note_view_procs [OF n1]
  have m1: "p_misc_flags (procs s1 m) AND MF_VIRT_TIMER =
      (if m = n \<and> ?V then 0 else p_misc_flags (procs s m) AND MF_VIRT_TIMER)"
    "p_misc_flags (procs s1 m) AND MF_PROF_TIMER = p_misc_flags (procs s m) AND MF_PROF_TIMER"
    "p_virt_left (procs s1 m) = (if m = n \<and> ?V then 0 else p_virt_left (procs s m))"
    "p_prof_left (procs s1 m) = p_prof_left (procs s m)" for m
    using f1(9) [of MF_VIRT_TIMER m] f1(9) [of MF_PROF_TIMER m] f1(5,6) [of m] by (auto simp: and.assoc)
  have pp: "n \<noteq> PM_PROC_NR" if ?P using pm that vt_flags m1 by auto
  have l1n: "live s1 n" using l l1 by blast
  have q2: "quiet (procs s1 n) (?g (procs s1 n))" "ipcp (?g (procs s1 n)) = ipcp (procs s1 n)"
    by (auto simp: quiet_def ipcp_def and_and_zero)
  from vtimer_signal_if [where f = ?g and C = ?P and sig = SIGPROF, OF k1 l1n pp q2 vt_view_stop(2)] obtain s2 where
    r2: "(if ?P then let t = upd_proc n ?g s1 in cause_sig (p_nr (procs t n)) SIGPROF t else Some s1) = Some s2"
    and k2: "kinv s2" and v2: "vt_view s2 = vt_view s1" and n2: "note_view s2 = note_view (if ?P then upd_proc n ?g s1 else s1)"
    and l2: "\<forall>m. live s2 m = live s1 m"
    and g2: "sig_view s2 = (if ?P then (sig_view s1)(n := (p_pending (procs s1 n) OR sig_bit SIGPROF,
      has_any (p_rts_flags (procs s1 n)) RTS_SIGNALED \<or> \<not> has_any (p_pending (procs s1 n)) (sig_bit SIGPROF))) else sig_view s1)"
    by force
  note f2 = note_view_procs [OF n2]
  have m2: "p_misc_flags (procs s2 m) AND MF_PROF_TIMER =
      (if m = n \<and> ?P then 0 else p_misc_flags (procs s1 m) AND MF_PROF_TIMER)"
    "p_misc_flags (procs s2 m) AND MF_VIRT_TIMER = p_misc_flags (procs s1 m) AND MF_VIRT_TIMER"
    "p_prof_left (procs s2 m) = (if m = n \<and> ?P then 0 else p_prof_left (procs s1 m))"
    "p_virt_left (procs s2 m) = p_virt_left (procs s1 m)" for m
    using f2(9) [of MF_VIRT_TIMER m] f2(9) [of MF_PROF_TIMER m] f2(5,6) [of m] by (auto simp: and.assoc)
  have "vtimer_check n s = Some s2"
    unfolding vtimer_check_def using r1 r2 by (simp only: Option.bind.simps)
  moreover have "\<not> vt_expired s2 n" unfolding vt_expired_def m2 m1 by auto
  moreover have "vt_expired s2 m \<longrightarrow> vt_expired s m" for m unfolding vt_expired_def m2 m1 by auto
  moreover have "has_any (p_misc_flags (procs s2 m)) VTIMERS \<longrightarrow> has_any (p_misc_flags (procs s m)) VTIMERS" for m
    unfolding vt_flags m2 m1 by auto
  moreover have "vt_view s2 = vt_view s" "\<forall>m. live s2 m = live s m" using v1 v2 l1 l2 by simp_all
  moreover have "vt_same s s2 m" if "m \<noteq> n" for m
    using that g1 g2 unfolding vt_same_def m2 m1 by simp
  moreover have "fired s s2 n"
    using vtimer_fired [OF g1 g2] unfolding fired_def m2 m1 by auto
  ultimately show ?thesis using k2 by (intro exI [of _ s2] conjI allI) blast+
qed

text \<open>Charging only touches the accounting fields.\<close>

definition charged :: "proc \<Rightarrow> proc \<Rightarrow> bool" where
  "charged p p' \<longleftrightarrow> quiet p p' \<and> ipcp p' = ipcp p \<and> p_misc_flags p' = p_misc_flags p"

definition charge_rel :: "kstate \<Rightarrow> kstate \<Rightarrow> bool" where
  "charge_rel s s' \<longleftrightarrow> kinv s' \<and> (\<exists>g. s' = s\<lparr>procs := g\<rparr>) \<and> (\<forall>n. charged (procs s n) (procs s' n))"

lemma charge_rel_refl: "kinv s \<Longrightarrow> charge_rel s s"
  by (auto simp: charge_rel_def charged_def quiet_def intro: exI [of _ "procs s"])

lemma charged_trans: "charged p q \<Longrightarrow> charged q r \<Longrightarrow> charged p r"
  unfolding charged_def quiet_def by (elim conjE, intro conjI) (simp_all only: simp_thms)

lemma charge_rel_upd:
  assumes "charge_rel s t" and f: "\<And>p. charged p (f p)"
  shows "charge_rel s (upd_proc n f t)"
proof -
  have "kinv (upd_proc n f t)"
    by (rule quiet_kinv [of t n f]) (use assms in \<open>auto simp: charge_rel_def charged_def\<close>)
  moreover have "\<exists>g. upd_proc n f t = s\<lparr>procs := g\<rparr>"
    using assms(1) by (auto simp: charge_rel_def upd_proc_def)
  moreover have "charged (procs s m) (procs (upd_proc n f t) m)" for m
    using assms(1) f [of "procs t n"] charged_trans [of "procs s n" "procs t n"] by (simp add: charge_rel_def)
  ultimately show ?thesis unfolding charge_rel_def by blast
qed

lemma charge_rel_if: "charge_rel s t \<Longrightarrow> (\<And>p. charged p (f p)) \<Longrightarrow> charge_rel s (charge_if c n f t)"
  by (simp add: charge_if_def charge_rel_upd)

lemma ap_charge_rel: "kinv s \<Longrightarrow> charge_rel s (ap_charge s)"
  unfolding ap_charge_def Let_def
  by (intro charge_rel_if charge_rel_upd charge_rel_refl) (simp_all add: charged_def quiet_def ipcp_def)

lemma charge_if_user:
  "(\<And>p. p_user_time (f p) = p_user_time p) \<Longrightarrow> p_user_time (procs (charge_if c n f s) m) = p_user_time (procs s m)"
  by (simp add: charge_if_def)

lemma ap_charge_user: "p_user_time (procs (ap_charge s) (proc_ptr s)) = wrap32 (p_user_time (procs s (proc_ptr s)) + 1)"
  unfolding ap_charge_def Let_def by (simp add: charge_if_user)

text \<open>The time left on the timers of the current and of the billable process after the charge.\<close>

definition virt_after :: "kstate \<Rightarrow> int \<Rightarrow> int" where
  "virt_after s n = (if n = proc_ptr s then wrap32 (p_virt_left (procs s n) - 1) else p_virt_left (procs s n))"

definition prof_after :: "kstate \<Rightarrow> int \<Rightarrow> int" where
  "prof_after s n =
     (let t = (if n = proc_ptr s then wrap32 (p_prof_left (procs s n) - 1) else p_prof_left (procs s n))
      in if n = bill_ptr s \<and> \<not> has_any (s_flags (priv_of s (proc_ptr s))) BILLABLE then wrap32 (t - 1) else t)"

lemma charge_if_keep:
  "(\<And>p. p_misc_flags (f p) = p_misc_flags p) \<Longrightarrow> p_misc_flags (procs (charge_if c n f s) m) = p_misc_flags (procs s m)"
  "(\<And>p. p_pending (f p) = p_pending p) \<Longrightarrow> p_pending (procs (charge_if c n f s) m) = p_pending (procs s m)"
  "(\<And>p. p_virt_left (f p) = p_virt_left p) \<Longrightarrow> p_virt_left (procs (charge_if c n f s) m) = p_virt_left (procs s m)"
  "(\<And>p. p_prof_left (f p) = p_prof_left p) \<Longrightarrow> p_prof_left (procs (charge_if c n f s) m) = p_prof_left (procs s m)"
  by (simp_all add: charge_if_def)

lemma charge_if_left:
  "p_virt_left (procs (charge_if c n (\<lambda>r. r\<lparr>p_virt_left := wrap32 (p_virt_left r - 1)\<rparr>) s) m) =
     (if c \<and> m = n then wrap32 (p_virt_left (procs s m) - 1) else p_virt_left (procs s m))"
  "p_prof_left (procs (charge_if c n (\<lambda>r. r\<lparr>p_prof_left := wrap32 (p_prof_left r - 1)\<rparr>) s) m) =
     (if c \<and> m = n then wrap32 (p_prof_left (procs s m) - 1) else p_prof_left (procs s m))"
  by (auto simp: charge_if_def)

lemma ap_charge_pending: "p_pending (procs (ap_charge s) n) = p_pending (procs s n)"
  unfolding ap_charge_def Let_def by (simp add: charge_if_keep)

lemma ap_charge_virt:
  "has_any (p_misc_flags (procs s n)) MF_VIRT_TIMER \<Longrightarrow> p_virt_left (procs (ap_charge s) n) = virt_after s n"
  unfolding ap_charge_def Let_def virt_after_def by (auto simp: charge_if_keep charge_if_left)

lemma ap_charge_prof:
  "has_any (p_misc_flags (procs s n)) MF_PROF_TIMER \<Longrightarrow> p_prof_left (procs (ap_charge s) n) = prof_after s n"
  unfolding ap_charge_def Let_def prof_after_def by (auto simp: charge_if_keep charge_if_left)

text \<open>
  What a tick does to the timers of a process, in terms of the state before: a timer that the charge brings to
  zero is stopped and its signal caused, one with time left keeps the rest.
\<close>

definition ticked :: "kstate \<Rightarrow> kstate \<Rightarrow> int \<Rightarrow> bool" where
  "ticked s s' n \<longleftrightarrow>
     (has_any (p_misc_flags (procs s n)) MF_VIRT_TIMER \<longrightarrow>
       (if virt_after s n \<le> 0 then \<not> has_any (p_misc_flags (procs s' n)) MF_VIRT_TIMER \<and> caused s s' n SIGVTALRM
        else has_any (p_misc_flags (procs s' n)) MF_VIRT_TIMER \<and> p_virt_left (procs s' n) = virt_after s n)) \<and>
     (has_any (p_misc_flags (procs s n)) MF_PROF_TIMER \<longrightarrow>
       (if prof_after s n \<le> 0 then \<not> has_any (p_misc_flags (procs s' n)) MF_PROF_TIMER \<and> caused s s' n SIGPROF
        else has_any (p_misc_flags (procs s' n)) MF_PROF_TIMER \<and> p_prof_left (procs s' n) = prof_after s n))"

lemma fired_ticked:
  assumes "kinv s" and "fired (ap_charge s) s' n"
  shows "ticked s s' n"
proof -
  have m: "p_misc_flags (procs (ap_charge s) n) = p_misc_flags (procs s n)"
    using ap_charge_rel [OF assms(1)] by (simp add: charge_rel_def charged_def)
  have c: "caused (ap_charge s) s' n sig = caused s s' n sig" for sig by (simp add: caused_def ap_charge_pending)
  show ?thesis
    using assms(2) ap_charge_virt [of s n] ap_charge_prof [of s n] unfolding fired_def ticked_def m c
    by (auto split: if_splits)
qed

lemma charge_relD:
  assumes "charge_rel s s'"
  shows "kinv s'" "proc_ptr s' = proc_ptr s" "bill_ptr s' = bill_ptr s" "realtime s' = realtime s"
    "clock_timers s' = clock_timers s" "next_timeout s' = next_timeout s" "system_hz s' = system_hz s"
    "intr_off s' = intr_off s" "p_misc_flags (procs s' n) = p_misc_flags (procs s n)" "live s' n = live s n"
    "p_priv (procs s' n) = p_priv (procs s n)" "privs s' = privs s" "lost_ticks s' = lost_ticks s"
    "p_endpoint (procs s' n) = p_endpoint (procs s n)"
  using assms by (auto simp: charge_rel_def charged_def quiet_def ipcp_def)

lemma vt_view_state:
  assumes "vt_view s' = vt_view s"
  shows "proc_ptr s' = proc_ptr s" "bill_ptr s' = bill_ptr s" "realtime s' = realtime s"
    "clock_timers s' = clock_timers s" "next_timeout s' = next_timeout s" "system_hz s' = system_hz s"
    "p_user_time (procs s' n) = p_user_time (procs s n)" "p_priv (procs s' n) = p_priv (procs s n)"
    "s_flags (privs s' i) = s_flags (privs s i)" "lost_ticks s' = lost_ticks s"
    "p_endpoint (procs s' n) = p_endpoint (procs s n)"
proof -
  note v = assms [unfolded vt_view_def]
  note a = note_view_state [OF v]
  note b = note_view_procs [OF v]
  show "proc_ptr s' = proc_ptr s" "bill_ptr s' = bill_ptr s" "realtime s' = realtime s"
    "clock_timers s' = clock_timers s" "next_timeout s' = next_timeout s" "system_hz s' = system_hz s"
    "lost_ticks s' = lost_ticks s"
    using a by simp_all
  show "p_user_time (procs s' n) = p_user_time (procs s n)" "p_priv (procs s' n) = p_priv (procs s n)"
    "s_flags (privs s' i) = s_flags (privs s i)" "p_endpoint (procs s' n) = p_endpoint (procs s n)"
    using b(1,3,8) [of n] b(10) [of i] by simp_all
qed

section \<open>The load update\<close>

lemma load_update_spec:
  assumes k: "kinv s"
  shows "\<exists>s' h l c. load_update s = Some s' \<and> s' = s\<lparr>proc_load_history := h, proc_last_slot := l, last_clock := c\<rparr> \<and> kinv s' \<and>
    l = uwrap16 (uwrap32 (realtime s) div system_hz s div LOAD_UNIT_SECS mod LOAD_HISTORY) \<and> c = realtime s \<and>
    h = (proc_load_history s)(l := uwrap16 ((if l = proc_last_slot s then proc_load_history s l else 0) +
          int (card (runnables s))))"
proof -
  define l where "l = uwrap16 (uwrap32 (realtime s) div system_hz s div LOAD_UNIT_SECS mod LOAD_HISTORY)"
  define s1 where "s1 = (if l \<noteq> proc_last_slot s
    then s\<lparr>proc_load_history := (proc_load_history s)(l := 0), proc_last_slot := l\<rparr> else s)"
  define h where "h = (proc_load_history s)(l := uwrap16 ((if l = proc_last_slot s then proc_load_history s l else 0) +
          int (card (runnables s))))"
  have k1: "kcore s1" using k by (simp add: s1_def kinv_alt)
  have v1: "ipcv s1 = ipcv s" by (simp add: s1_def)
  have rn: "runnables s1 = runnables s" by (simp add: s1_def runnables_def)
  have c: "count_queues s1 [0..NR_SCHED_QUEUES - 1] 0 = Some (int (card (runnables s)))"
    using count_queues_runnable [OF kcoreD(2) [OF k1]] rn by simp
  let ?t = "s1\<lparr>proc_load_history := (proc_load_history s1)(l := uwrap16 (proc_load_history s1 l + int (card (runnables s)))),
      last_clock := realtime s1\<rparr>"
  have r: "load_update s = Some ?t"
    unfolding load_update_def Let_def l_def [symmetric] s1_def [symmetric] c by simp
  have e: "?t = s\<lparr>proc_load_history := h, proc_last_slot := l, last_clock := realtime s\<rparr>"
    by (auto simp: s1_def h_def)
  have "kcore ?t" "ipcv ?t = ipcv s" using k1 v1 by simp_all
  then have "kinv ?t" using k by (simp add: kinv_alt)
  with r e show ?thesis unfolding h_def l_def by metis
qed

section \<open>The timer interrupt\<close>

text \<open>
  What the handler relies on besides the kernel invariant: the billable process is still there,
  and the process manager, which cannot be signalled, has no virtual timer.
\<close>

definition tick_ok :: "kstate \<Rightarrow> bool" where
  "tick_ok s \<longleftrightarrow> kinv s \<and> live s (bill_ptr s) \<and> \<not> has_any (p_misc_flags (procs s PM_PROC_NR)) VTIMERS"

lemma proc_ptr_live: "kinv s \<Longrightarrow> live s (proc_ptr s)"
  by (simp add: kinv_def ksane_def)

text \<open>The last step of the handler: a quantum that is used up ends.\<close>

lemma no_quantum_spec:
  assumes k: "kinv s" and p: "p = proc_ptr s"
  shows "\<exists>s'. (if p_rts_flags (procs s p) = 0 \<and> p_ticks_left (procs s p) \<le> 0 \<and> has_any (s_flags (priv_of s p)) PREEMPTIBLE
      then RTS_SET p RTS_NO_QUANTUM s else Some s) = Some s' \<and> kinv s' \<and> (\<forall>m. live s' m = live s m) \<and>
    note_view s' = note_view s \<and> sig_view s' = sig_view s \<and>
    (p_rts_flags (procs s' p) = 0 \<longrightarrow> has_any (s_flags (priv_of s' p)) PREEMPTIBLE \<longrightarrow> 0 < p_ticks_left (procs s' p))"
proof (cases "p_rts_flags (procs s p) = 0 \<and> p_ticks_left (procs s p) \<le> 0 \<and> has_any (s_flags (priv_of s p)) PREEMPTIBLE")
  case True
  have l: "live s p" using proc_ptr_live [OF k] p by simp
  from RTS_SET_core [OF kinvD(2) [OF k] l, of RTS_NO_QUANTUM] obtain s' where r: "RTS_SET p RTS_NO_QUANTUM s = Some s'"
    and k': "kcore s'" and sr: "sched_rel (set_rts p (p_rts_flags (procs s p) OR RTS_NO_QUANTUM) s) s'"
    by auto
  have "ipcv s' = ipcv (set_rts p (p_rts_flags (procs s p) OR RTS_NO_QUANTUM) s)" by (rule sched_rel_ipcv [OF sr])
  also have "\<dots> = ipcv s"
    by (auto simp: set_rts_def ipcv_def ipcp_def fun_eq_iff flag_simps)
  finally have v: "ipcv s' = ipcv s" .
  have "p_rts_flags (procs s' p) \<noteq> 0" using RTS_SET_rts [OF r, of p] by simp
  moreover have "kinv s'" using k' v k by (simp add: kinv_alt)
  moreover have "live s' m = live s m" for m by (rule live_ipcv) (simp only: v)
  moreover have "sig_view s' = sig_view s"
    using sig_view_sched [OF RTS_SET_sched_view [OF r]] by (simp add: sig_view_def set_rts_def fun_eq_iff or_and_dist)
  ultimately show ?thesis unfolding if_P [OF True] using r note_view_RTS(1) [OF r] by blast
next
  case False
  then have "p_rts_flags (procs s p) = 0 \<longrightarrow> has_any (s_flags (priv_of s p)) PREEMPTIBLE \<longrightarrow> 0 < p_ticks_left (procs s p)"
    by (simp only: not_less [symmetric]) blast
  with k show ?thesis unfolding if_not_P [OF False] by blast
qed

lemma ap_timer_int_handler_spec:
  assumes t: "tick_ok s"
  shows "\<exists>s'. ap_timer_int_handler s = Some (1, s') \<and> tick_ok s' \<and> proc_ptr s' = proc_ptr s \<and> realtime s' = realtime s \<and>
    clock_timers s' = clock_timers s \<and> next_timeout s' = next_timeout s \<and> lost_ticks s' = lost_ticks s \<and>
    (\<forall>m. live s' m = live s m) \<and> (\<forall>m. p_endpoint (procs s' m) = p_endpoint (procs s m)) \<and>
    p_user_time (procs s' (proc_ptr s)) = wrap32 (p_user_time (procs s (proc_ptr s)) + 1) \<and>
    \<not> vt_expired s' (proc_ptr s) \<and> \<not> vt_expired s' (bill_ptr s) \<and>
    fired (ap_charge s) s' (proc_ptr s) \<and> fired (ap_charge s) s' (bill_ptr s) \<and>
    (p_rts_flags (procs s' (proc_ptr s)) = 0 \<longrightarrow> has_any (s_flags (priv_of s' (proc_ptr s))) PREEMPTIBLE \<longrightarrow>
       0 < p_ticks_left (procs s' (proc_ptr s)))"
proof -
  let ?p = "proc_ptr s" and ?b = "bill_ptr s"
  have k: "kinv s" and lb: "live s ?b" and nv: "\<not> has_any (p_misc_flags (procs s PM_PROC_NR)) VTIMERS"
    using t by (simp_all add: tick_ok_def)
  define s1 where "s1 = ap_charge s"
  note c1 = charge_relD [OF ap_charge_rel [OF k], folded s1_def]
  have l1: "live s1 ?p" "live s1 ?b" using c1(10) lb proc_ptr_live [OF k] by blast+
  have n1: "\<not> has_any (p_misc_flags (procs s1 PM_PROC_NR)) VTIMERS" using c1(9) nv by simp
  have q1: "\<not> has_any (p_misc_flags (procs s1 ?p)) VTIMERS" if "?p = PM_PROC_NR" using n1 unfolding that .
  from vtimer_check_spec [OF c1(1) l1(1) q1] obtain s2 where r2: "vtimer_check ?p s1 = Some s2" and k2: "kinv s2"
    and v2: "vt_view s2 = vt_view s1" and x2: "\<not> vt_expired s2 ?p" and l2: "\<forall>m. live s2 m = live s1 m"
    and m2: "\<forall>m. (vt_expired s2 m \<longrightarrow> vt_expired s1 m) \<and>
      (has_any (p_misc_flags (procs s2 m)) VTIMERS \<longrightarrow> has_any (p_misc_flags (procs s1 m)) VTIMERS)"
    and d2: "fired s1 s2 ?p" "\<forall>m. m \<noteq> ?p \<longrightarrow> vt_same s1 s2 m"
    by blast
  have n2: "\<not> has_any (p_misc_flags (procs s2 PM_PROC_NR)) VTIMERS" using m2 n1 by blast
  have l2b: "live s2 ?b" using l2 l1(2) by blast
  have "\<exists>s3. (if ?p \<noteq> ?b then vtimer_check ?b s2 else Some s2) = Some s3 \<and> kinv s3 \<and> vt_view s3 = vt_view s2 \<and>
      \<not> vt_expired s3 ?p \<and> \<not> vt_expired s3 ?b \<and> (\<forall>m. live s3 m = live s2 m) \<and>
      \<not> has_any (p_misc_flags (procs s3 PM_PROC_NR)) VTIMERS \<and> fired s1 s3 ?p \<and> fired s1 s3 ?b"
  proof (cases "?p = ?b")
    case True
    with k2 x2 n2 d2(1) show ?thesis by auto
  next
    case False
    have q2: "\<not> has_any (p_misc_flags (procs s2 ?b)) VTIMERS" if "?b = PM_PROC_NR" using n2 unfolding that .
    from vtimer_check_spec [OF k2 l2b q2] obtain s3 where "vtimer_check ?b s2 = Some s3" "kinv s3"
      "vt_view s3 = vt_view s2" "\<not> vt_expired s3 ?b" "\<forall>m. live s3 m = live s2 m"
      "\<forall>m. (vt_expired s3 m \<longrightarrow> vt_expired s2 m) \<and>
        (has_any (p_misc_flags (procs s3 m)) VTIMERS \<longrightarrow> has_any (p_misc_flags (procs s2 m)) VTIMERS)"
      and d3: "fired s2 s3 ?b" "\<forall>m. m \<noteq> ?b \<longrightarrow> vt_same s2 s3 m"
      by blast
    moreover have "fired s1 s3 ?p" using fired_cong [OF _ d2(1), of s1 s3] d3(2) False by simp
    moreover have "fired s1 s3 ?b" using fired_cong [OF _ d3(1), of s1 s3] d2(2) False by simp
    ultimately show ?thesis using False x2 n2 by (intro exI [of _ s3]) auto
  qed
  then obtain s3 where r3: "(if ?p \<noteq> ?b then vtimer_check ?b s2 else Some s2) = Some s3" and k3: "kinv s3"
    and v3: "vt_view s3 = vt_view s2" and x3: "\<not> vt_expired s3 ?p" "\<not> vt_expired s3 ?b"
    and l3: "\<forall>m. live s3 m = live s2 m" and n3: "\<not> has_any (p_misc_flags (procs s3 PM_PROC_NR)) VTIMERS"
    and d3: "fired s1 s3 ?p" "fired s1 s3 ?b"
    by blast
  obtain s4 h a c where r4: "load_update s3 = Some s4" and k4: "kinv s4"
    and s4: "s4 = s3\<lparr>proc_load_history := h, proc_last_slot := a, last_clock := c\<rparr>"
    using load_update_spec [OF k3] by blast
  note v = vt_view_state [OF v3 [THEN trans, OF v2]]
  have p4: "?p = proc_ptr s4" using v(1) c1(2) by (simp add: s4)
  obtain s5 where r5: "(if p_rts_flags (procs s4 ?p) = 0 \<and> p_ticks_left (procs s4 ?p) \<le> 0 \<and>
      has_any (s_flags (priv_of s4 ?p)) PREEMPTIBLE then RTS_SET ?p RTS_NO_QUANTUM s4 else Some s4) = Some s5"
    and k5: "kinv s5" and l5: "\<forall>m. live s5 m = live s4 m" and v5: "note_view s5 = note_view s4" and g5: "sig_view s5 = sig_view s4"
    and q5: "p_rts_flags (procs s5 ?p) = 0 \<longrightarrow> has_any (s_flags (priv_of s5 ?p)) PREEMPTIBLE \<longrightarrow> 0 < p_ticks_left (procs s5 ?p)"
    using no_quantum_spec [OF k4 p4] by blast
  note f = note_view_state [OF v5] note_view_procs [OF v5]
  have run: "ap_timer_int_handler s = Some (1, s5)"
    unfolding ap_timer_int_handler_def Let_def s1_def [symmetric] r2 Option.bind.simps r3 r4 r5 ..
  have ex: "vt_expired s5 m \<longleftrightarrow> vt_expired s3 m" for m
    unfolding vt_expired_def using f(23) [of MF_VIRT_TIMER m] f(23) [of MF_PROF_TIMER m] f(19,20) [of m]
    by (simp add: s4)
  have "vt_same s3 s5 m" for m
    unfolding vt_same_def using f(23) [of MF_VIRT_TIMER m] f(23) [of MF_PROF_TIMER m] f(19,20) [of m] g5
    by (simp add: s4 sig_view_def)
  then have d5: "fired s1 s5 ?p" "fired s1 s5 ?b" using d3 fired_cong [OF vt_same_refl] by blast+
  have vt: "has_any (p_misc_flags (procs s5 m)) VTIMERS \<longleftrightarrow> has_any (p_misc_flags (procs s3 m)) VTIMERS" for m
    using f(23) [of VTIMERS m] by (simp add: s4)
  have lv: "live s5 m = live s m" for m
    using l5 l3 l2 c1(10) [of m] by (simp add: s4)
  have bp: "bill_ptr s5 = ?b" using f(2) v(2) c1(3) by (simp add: s4)
  have "tick_ok s5" unfolding tick_ok_def bp using k5 lv [of ?b] lb vt [of PM_PROC_NR] n3 by simp
  moreover have "p_user_time (procs s5 ?p) = wrap32 (p_user_time (procs s ?p) + 1)"
    using f(17) [of ?p] v(7) [of ?p] ap_charge_user [of s] by (simp add: s4 s1_def)
  moreover have "proc_ptr s5 = ?p" "realtime s5 = realtime s" "clock_timers s5 = clock_timers s"
    "next_timeout s5 = next_timeout s" "lost_ticks s5 = lost_ticks s"
    using f(1,3,4,5,14) v(1,3,4,5,10) c1(2,4,5,6,13) by (simp_all add: s4)
  moreover have "p_endpoint (procs s5 m) = p_endpoint (procs s m)" for m
    using f(22) [of m] v(11) [of m] c1(14) [of m] by (simp add: s4)
  ultimately show ?thesis using run lv ex x3 q5 d5 unfolding s1_def by blast
qed

end
