(* ===== verification/Kernel_Ipc_Props.thy ===== *)
theory Kernel_Ipc_Props
  imports Kernel_Ipc_Spec
begin

text \<open>
  The system call gate keeps the kernel invariant, and the properties of interprocess
  communication.
\<close>

section \<open>The gate\<close>

lemma set_misc_kinv:
  assumes k: "kinv s" and f: "f AND PM_NEVER \<noteq> 0 \<longrightarrow> p_misc_flags (procs s n) AND PM_NEVER \<noteq> 0"
  shows "kinv (set_misc n f s)" "ipcv (set_misc n f s) = ipcv s" "proc_ptr (set_misc n f s) = proc_ptr s"
proof -
  show v: "ipcv (set_misc n f s) = ipcv s" by (simp add: set_misc_def ipcv_def ipcp_def fun_eq_iff)
  have "kcore (set_misc n f s)"
    unfolding set_misc_def by (rule kcore_upd_proc [OF kinvD(2) [OF k]]) (use f in \<open>simp add: quiet_def\<close>)
  with k v show "kinv (set_misc n f s)" by (simp add: kinv_alt)
  show "proc_ptr (set_misc n f s) = proc_ptr s" by (simp add: set_misc_def)
qed

lemma set_misc_sel [simp]:
  "umsg (set_misc n f s) = umsg s" "privs (set_misc n f s) = privs s" "proc_ptr (set_misc n f s) = proc_ptr s"
  "syscall_0x80 (procs (set_misc n f s) m) = syscall_0x80 (procs s m)"
  "p_endpoint (procs (set_misc n f s) m) = p_endpoint (procs s m)"
  "p_sendmsg (procs (set_misc n f s) m) = p_sendmsg (procs s m)"
  "umap_local (procs (set_misc n f s) m) seg a b = umap_local (procs s m) seg a b"
  "WILLRECEIVE (procs (set_misc n f s) m) e = WILLRECEIVE (procs s m) e"
  "ipcv (set_misc n f s) = ipcv s"
  by (simp_all add: set_misc_def umap_local_def Let_def WILLRECEIVE_def RTS_ISSET_def ipcv_def ipcp_def fun_eq_iff upd_proc_def
      cong: if_cong)

lemma set_misc_uncaught [simp]:
  "uncaught_send c d m (set_misc n f s) = uncaught_send c d m s"
  "uncaught_senda c m k (set_misc n f s) = uncaught_senda c m k s"
proof -
  have "fetch (set_misc n f s) x = fetch s x" for x by (cases x) simp_all
  then show "uncaught_send c d m (set_misc n f s) = uncaught_send c d m s"
    by (simp add: uncaught_send_def waits_0x80_def send_fault_def send_ref_def)
  show "uncaught_senda c m k (set_misc n f s) = uncaught_senda c m k s"
    by (simp add: uncaught_senda_def uncaught_entry_def waits_0x80_def)
qed

text \<open>A call that makes the kernel copy a message that is not there without catching the fault.\<close>

definition uncaught :: "int \<Rightarrow> 32 word \<Rightarrow> int \<Rightarrow> int \<Rightarrow> kstate \<Rightarrow> bool" where
  "uncaught ct flags e m s \<longleftrightarrow>
     (ct = KIPC_SEND \<or> ct = KIPC_SENDREC) \<and> uncaught_send (proc_ptr s) (ENDPOINT_P e) m s \<or>
     ct = KIPC_SENDA \<and> uncaught_senda (proc_ptr s) m (sint flags) s"

lemma isokendpt_cong:
  assumes "kinv s" and "kinv s'" and "ipcv s' = ipcv s"
  shows "isokendpt s' e = isokendpt s e"
  unfolding isokendpt_view [OF kinvD(1) [OF assms(1)]] isokendpt_view [OF kinvD(1) [OF assms(2)]] assms(3) ..

lemma may_not_send_to_self: "ksane s \<Longrightarrow> live s c \<Longrightarrow> \<not> may_send_to s c c"
  by (simp add: ksane_def tables_ok_def may_send_to_def nr_to_id_def)

lemma kipc_check_dest:
  assumes k: "ksane s" and c: "kipc_check ct flags e s = Inr p" and l: "live s (proc_ptr s)"
    and ct: "ct = KIPC_SEND \<or> ct = KIPC_SENDREC \<or> ct = KIPC_NOTIFY"
  shows "isokendpt s e = Some p" "p \<noteq> proc_ptr s" "e \<noteq> ENDPT_ANY"
proof -
  have "isokendpt s e = Some p \<and> may_send_to s (proc_ptr s) p \<and> e \<noteq> ENDPT_ANY"
    using c ct by (auto simp: kipc_check_def Let_def split: if_splits option.splits)
  then show "isokendpt s e = Some p" "p \<noteq> proc_ptr s" "e \<noteq> ENDPT_ANY"
    using may_not_send_to_self [OF k l] by auto
qed

lemma kipc_check_receive:
  assumes "kipc_check KIPC_RECEIVE flags e s = Inr p"
  shows "e = ENDPT_ANY \<or> isokendpt s e = Some p"
  using assms by (auto simp: kipc_check_def Let_def split: if_splits option.splits)

lemma sent_sel:
  assumes "sent c e v v'" and "\<not> i_send (v c)" and "\<not> i_recv (v c)"
  shows "i_empty (v' n) = i_empty (v n)" "i_dead (v' n) = i_dead (v n)" "i_ep (v' n) = i_ep (v n)"
    "\<not> i_recv (v' c)" "i_send (v' c) \<Longrightarrow> i_sendto (v' c) = e"
  using assms by (auto simp: sent_def v_send_sel v_unrecv_def split: if_splits)

lemma sendrec_spec:
  assumes nu: "\<not> uncaught_send c d m s" and k: "kinv s" and c: "live s c" and nd: "\<not> i_dead (ipcv s c)" and ns: "\<not> i_send (ipcv s c)"
    and nr: "\<not> i_recv (ipcv s c)" and ok: "isokendpt s e = Some d" and ne: "d \<noteq> c" and e: "e \<noteq> ENDPT_ANY"
  shows "\<exists>r s'. Option.bind (mini_send c e m flags s)
      (\<lambda>(r, s1). if r \<noteq> 0 then Some (r, s1) else mini_receive kaddr c e m 0 s1) = Some (r, s') \<and>
    kinv s' \<and> proc_ptr s' = proc_ptr s"
proof -
  from mini_send_spec [OF nu k c ns nr ok ne, of flags] obtain r s1 where
    s1: "mini_send c e m flags s = Some (r, s1)" "kinv s1" "proc_ptr s1 = proc_ptr s"
    and v: "r = 0 \<Longrightarrow> sent c e (ipcv s) (ipcv s1)" by (metis (full_types))
  show ?thesis
  proof (cases "r = 0")
    case False
    with s1 show ?thesis by simp
  next
    case True
    note f = sent_sel [OF v [OF True] ns nr]
    have l1: "live s1 c" using c unfolding live_view f .
    have ok1: "isokendpt s1 e = Some d"
      using ok isokendpt_view [OF kinvD(1) [OF k], of e] isokendpt_view [OF kinvD(1) [OF s1(2)], of e] by (simp add: f)
    from mini_receive_spec [OF s1(2) l1, of e kaddr m 0] nd f e ok1 ne s1 True show ?thesis by auto
  qed
qed

lemma kipc_dispatch_spec:
  assumes k: "kinv s" and run: "proc_ptr s = c" "\<not> i_dead (ipcv s c)" "\<not> i_send (ipcv s c)" "\<not> i_recv (ipcv s c)"
    and chk: "kipc_check ct flags e s = Inr p"
    and self: "ct = KIPC_RECEIVE \<Longrightarrow> e \<noteq> i_ep (ipcv s c)" and nu: "\<not> uncaught ct flags e m s"
  shows "\<exists>r s'. kipc_dispatch kaddr ct flags e m s = Some (r, s') \<and> kinv s' \<and> proc_ptr s' = proc_ptr s"
proof -
  have l: "live s c" using kinvD(1) [OF k] run(1) by (simp add: ksane_def)
  let ?mf = "p_misc_flags (procs s c)"
  note dest = kipc_check_dest [OF kinvD(1) [OF k] chk, unfolded run(1), OF l]
  have nus: "\<not> uncaught_send c p m s" if "ct = KIPC_SEND \<or> ct = KIPC_SENDREC"
    using nu that run(1) isokendptD(1) [OF kinvD(1) [OF k] dest(1)] by (auto simp: uncaught_def)
  consider "ct = KIPC_SENDREC" | "ct = KIPC_SEND" | "ct = KIPC_RECEIVE" | "ct = KIPC_NOTIFY" | "ct = KIPC_SENDA"
    | "ct \<notin> {KIPC_SENDREC, KIPC_SEND, KIPC_RECEIVE, KIPC_NOTIFY, KIPC_SENDA}" by auto
  then show ?thesis
  proof cases
    case 1
    let ?s = "set_misc c (?mf OR MF_REPLY_PEND) s"
    have m: "kinv ?s" "ipcv ?s = ipcv s" "proc_ptr ?s = proc_ptr s"
      by (rule set_misc_kinv [OF k]; simp add: flag_simps)+
    have l': "live ?s c" using l unfolding live_view m(2) .
    have "isokendpt ?s e = Some p" using dest(1) 1 isokendpt_cong [OF k m(1,2)] by simp
    from sendrec_spec [OF _ m(1) l' _ _ _ this, of m flags kaddr] dest 1 run m nus show ?thesis
      by (simp add: kipc_dispatch_def Let_def)
  next
    case 2
    from mini_send_spec [OF nus k l run(3,4) dest(1), of flags] dest(2) 2 run(1) show ?thesis
      by (auto simp: kipc_dispatch_def Let_def)
  next
    case 3
    let ?s = "set_misc c (?mf AND NOT MF_REPLY_PEND) s"
    have m: "kinv ?s" "ipcv ?s = ipcv s" "proc_ptr ?s = proc_ptr s"
      by (rule set_misc_kinv [OF k]; use and_and_zero in blast)+
    have l': "live ?s c" using l unfolding live_view m(2) .
    have "\<exists>p. isokendpt ?s e = Some p \<and> p \<noteq> c" if "e \<noteq> ENDPT_ANY"
    proof -
      have "isokendpt s e = Some p" using kipc_check_receive chk 3 that by blast
      then have "isokendpt ?s e = Some p" "p \<noteq> c"
        using isokendpt_cong [OF k m(1,2)] self 3 isokendptD(3) [OF kinvD(1) [OF k]] by auto
      then show ?thesis by blast
    qed
    with mini_receive_spec [OF m(1) l', of e kaddr m 0] m 3 run show ?thesis
      by (simp add: kipc_dispatch_def Let_def)
  next
    case 4
    from mini_notify_spec [OF kinvD(2) [OF k] l, of e] obtain r s' where
      "mini_notify c e s = Some (r, s')" "kcore s'" "maybe_unrecv (ipcv s) (ipcv s')" "proc_ptr s' = proc_ptr s" by blast
    with 4 run(1) maybe_unrecv_ok [OF _ kinvD(3) [OF k]] show ?thesis by (simp add: kipc_dispatch_def Let_def kinv_alt)
  next
    case 5
    with mini_senda_spec [OF k, of c m "sint flags"] nu run(1) show ?thesis by (simp add: kipc_dispatch_def Let_def uncaught_def)
  next
    case 6
    with k show ?thesis by (simp add: kipc_dispatch_def Let_def)
  qed
qed

lemma runnable_view:
  assumes "proc_is_runnable (procs s c)"
  shows "\<not> i_dead (ipcv s c)" "\<not> i_send (ipcv s c)" "\<not> i_recv (ipcv s c)"
  using assms by (simp_all add: proc_is_runnable_def ipcv_def ipcp_def)

lemma kipc_call_kinv:
  assumes k: "kinv s" and run: "proc_is_runnable (procs s (proc_ptr s))"
    and self: "ct = KIPC_RECEIVE \<Longrightarrow> e \<noteq> p_endpoint (procs s (proc_ptr s))" and nu: "\<not> uncaught ct flags e m s"
  shows "\<exists>r s'. kipc_call kaddr ct flags e m s = Some (r, s') \<and> kinv s'"
proof -
  define c where "c = proc_ptr s"
  let ?mf = "p_misc_flags (procs s c)" and ?tr = "MF_SC_TRACE OR MF_SC_DEFER"
  have l: "live s c" using kinvD(1) [OF k] by (simp add: ksane_def c_def)
  note rv = runnable_view [OF run, folded c_def]
  show ?thesis
  proof (cases "has_any ?mf ?tr \<and> ?mf AND ?tr = MF_SC_TRACE")
    case True
    let ?s = "set_misc c ((?mf AND NOT MF_SC_TRACE) OR MF_SC_DEFER) s"
    have tr: "has_any ?mf MF_SC_TRACE"
    proof
      assume "?mf AND MF_SC_TRACE = 0"
      moreover have "(?mf AND ?tr) AND MF_SC_TRACE = ?mf AND MF_SC_TRACE" by (simp add: and.assoc)
      ultimately show False using True by simp
    qed
    have pm: "c \<noteq> PM_PROC_NR"
    proof
      assume "c = PM_PROC_NR"
      with kinvD(1) [OF k] have "?mf AND PM_NEVER = 0" by (simp add: ksane_def pm_ok_def)
      moreover have "(?mf AND PM_NEVER) AND MF_SC_TRACE = ?mf AND MF_SC_TRACE" by (simp add: and.assoc)
      ultimately show False using tr by simp
    qed
    have "((?mf AND NOT MF_SC_TRACE) OR MF_SC_DEFER) AND PM_NEVER = (?mf AND NOT MF_SC_TRACE) AND PM_NEVER"
      by (simp add: or_and_dist)
    then have m: "kinv ?s" "ipcv ?s = ipcv s"
      by (auto intro!: set_misc_kinv [OF k] simp: and_and_zero)
    have l': "live ?s c" using l unfolding live_view m(2) .
    have nr: "p_nr (procs s c) = c" using p_nr_valid [OF kinvD(1) [OF k]] l by blast
    from cause_sig_spec [OF kinvD(2) [OF m(1)] l' pm, of SIGTRAP] obtain s1 where
      "cause_sig c SIGTRAP ?s = Some s1" "kcore s1" "maybe_unrecv (ipcv ?s) (ipcv s1)" by blast
    then show ?thesis
      using True nr maybe_unrecv_ok [OF _ kinvD(3) [OF m(1)]]
      by (simp add: kipc_call_def Let_def c_def [symmetric] kinv_alt)
  next
    case False
    define s1 where "s1 = (if has_any ?mf ?tr then set_misc c ((?mf AND NOT MF_SC_DEFER) OR MF_SC_ACTIVE) s else s)"
    have "((?mf AND NOT MF_SC_DEFER) OR MF_SC_ACTIVE) AND PM_NEVER = (?mf AND NOT MF_SC_DEFER) AND PM_NEVER"
      by (simp add: or_and_dist)
    then have "((?mf AND NOT MF_SC_DEFER) OR MF_SC_ACTIVE) AND PM_NEVER \<noteq> 0 \<longrightarrow> ?mf AND PM_NEVER \<noteq> 0"
      using and_and_zero by metis
    from set_misc_kinv [OF k this] k have s1: "kinv s1" "ipcv s1 = ipcv s" "proc_ptr s1 = c"
      unfolding s1_def c_def by presburger+
    have u: "kipc_call kaddr ct flags e m s = (case kipc_check ct flags e s1 of Inl x \<Rightarrow> Some (x, s1)
        | Inr _ \<Rightarrow> kipc_dispatch kaddr ct flags e m s1)"
      unfolding kipc_call_def Let_def c_def [symmetric] s1_def [symmetric] using False by argo
    show ?thesis
    proof (cases "kipc_check ct flags e s1")
      case (Inl x)
      with u s1 show ?thesis by simp
    next
      case (Inr p)
      have "ct = KIPC_RECEIVE \<Longrightarrow> e \<noteq> i_ep (ipcv s1 c)" using self s1(2) by (simp add: c_def ipcv_sel)
      moreover have "\<not> uncaught ct flags e m s1" using nu by (simp add: s1_def uncaught_def)
      ultimately show ?thesis using kipc_dispatch_spec [OF s1(1,3) _ _ _ Inr, of m kaddr] rv s1(2) u Inr by auto
    qed
  qed
qed

section \<open>What a send does, branch by branch\<close>

lemma mini_send_unfold:
  assumes k: "kinv s" and ok: "isokendpt s e = Some d"
  shows "mini_send c e m flags s =
    (if send_fault c m s then Some (- EFAULT, s)
     else if i_dead (ipcv s d) then Some (- EDSTDIED, s)
     else if WILLRECEIVE (procs s d) (p_endpoint (procs s c)) then
       Option.bind (QueueMess (p_endpoint (procs s c)) (send_ref c m s) d s)
         (\<lambda>(r, s1). if r \<noteq> 0 then Some (r, s1) else Option.bind (RTS_UNSET d RTS_RECEIVING s1) (\<lambda>s2. Some (0, s2)))
     else if has_any flags KIPC_FLG_NONBLOCK then Some (- ENOTREADY, s)
     else Option.bind (deadlock KIPC_SEND c d s)
       (\<lambda>dl. if dl \<noteq> 0 then Some (- ELOCKED, s)
         else case fetch s (send_ref c m s) of None \<Rightarrow> Some (- EFAULT, s)
           | Some x \<Rightarrow> Option.bind (send_block c e d x s) (\<lambda>s'. Some (0, s'))))"
proof -
  note dd = isokendptD [OF kinvD(1) [OF k] ok]
  obtain lin where lin: "umap_local (procs s c) SEG_D m MSG_SIZE = Some lin" using umap_local_D by blast
  have pd: "proc_addr d = Some d" using dd by (simp add: proc_addr_def)
  show ?thesis
    by (simp add: mini_send_def lin pd dd(1) [symmetric] Let_def send_ref_def send_fault_def send_block_def
        cong: if_cong split: option.split)
qed

lemma send_uncaught:
  assumes "kinv s" and "isokendpt s e = Some d" and "uncaught_send c d m s"
  shows "mini_send c e m flags s = None"
  using assms(3) by (simp add: mini_send_unfold [OF assms(1,2)] uncaught_send_def waits_0x80_def QueueMess_def)

lemma call_uncaught:
  assumes k: "kinv s" and u: "uncaught ct flags e m s" "ct \<noteq> KIPC_SENDA"
    and t: "\<not> has_any (p_misc_flags (procs s (proc_ptr s))) (MF_SC_TRACE OR MF_SC_DEFER)"
    and chk: "kipc_check ct flags e s = Inr p"
  shows "kipc_call kaddr ct flags e m s = None"
proof -
  have ct: "ct = KIPC_SEND \<or> ct = KIPC_SENDREC" and us: "uncaught_send (proc_ptr s) (ENDPOINT_P e) m s"
    using u by (auto simp: uncaught_def)
  have l: "live s (proc_ptr s)" using kinvD(1) [OF k] by (simp add: ksane_def)
  have ok: "isokendpt s e = Some p" using kipc_check_dest(1) [OF kinvD(1) [OF k] chk l] ct by blast
  have p: "p = ENDPOINT_P e" by (rule isokendptD(1) [OF kinvD(1) [OF k] ok])
  let ?s = "set_misc (proc_ptr s) (p_misc_flags (procs s (proc_ptr s)) OR MF_REPLY_PEND) s"
  have m: "kinv ?s" "ipcv ?s = ipcv s" by (rule set_misc_kinv [OF k]; simp add: flag_simps)+
  have "mini_send (proc_ptr s) e m flags s = None"
    using send_uncaught [OF k ok] us p by simp
  moreover have "mini_send (proc_ptr s) e m flags ?s = None"
    using send_uncaught [OF m(1)] isokendpt_cong [OF k m] ok us p by simp
  ultimately have "kipc_dispatch kaddr ct flags e m s = None"
    using ct by (auto simp: kipc_dispatch_def Let_def)
  then show ?thesis using t chk by (simp add: kipc_call_def Let_def)
qed

lemma send_blocks:
  assumes k: "kinv s" and c: "live s c" and ns: "\<not> i_send (ipcv s c)" and nr: "\<not> i_recv (ipcv s c)"
    and ok: "isokendpt s e = Some d" and ne: "d \<noteq> c"
    and w: "\<not> WILLRECEIVE (procs s d) (p_endpoint (procs s c))"
    and C: "callers_ok (ipcv s) C" and r: "mini_send c e m flags s = Some (0, s')"
  shows "callers_ok (ipcv s') (C(d := C d @ [c]))" "i_send (ipcv s' c)"
    "fetch s (send_ref c m s) = Some (p_sendmsg (procs s' c))"
proof -
  note dd = isokendptD [OF kinvD(1) [OF k] ok]
  from r w have nd: "\<not> i_dead (ipcv s d)" and dl: "deadlock KIPC_SEND c d s = Some 0"
    and "\<exists>x. fetch s (send_ref c m s) = Some x \<and> send_block c e d x s = Some s'"
    by (auto simp: mini_send_unfold [OF k ok] opt_simps split: if_splits option.splits)
  then obtain x where x: "fetch s (send_ref c m s) = Some x" and sb: "send_block c e d x s = Some s'" by blast
  have ep: "ep_ok (ipcv s) e" using dd nd by (simp add: ep_ok_def Let_def)
  from send_block_spec [OF k c C ep, of x] sb dd(1) have v: "ipcv s' = v_send c e (cell_after Head (C d)) (ipcv s)"
    and m: "p_sendmsg (procs s' c) = x" by auto
  obtain ds where ds: "chain (waits (ipcv s)) (Some (ENDPOINT_P e)) ds" "c \<notin> set ds"
    using send_no_cycle [OF k c dd(5) ne w dl] dd(1) by auto
  from c have vc: "valid_nr c" "\<not> i_empty (ipcv s c)" unfolding live_view by auto
  from v_send_ok(2) [OF kinvD(3) [OF k] vc ns nr ep ds C] show "callers_ok (ipcv s') (C(d := C d @ [c]))"
    using dd(1) v by simp
  show "i_send (ipcv s' c)" by (simp add: v v_send_sel)
  show "fetch s (send_ref c m s) = Some (p_sendmsg (procs s' c))" using x m by simp
qed

lemma send_delivers:
  assumes k: "kinv s" and ok: "isokendpt s e = Some d"
    and w: "WILLRECEIVE (procs s d) (p_endpoint (procs s c))" and r: "mini_send c e m flags s = Some (0, s')"
  shows "\<exists>x. fetch s (send_ref c m s) = Some x \<and>
    p_delivermsg (procs s' d) = x\<lparr>m_source := p_endpoint (procs s c)\<rparr> \<and> ipcv s' = v_unrecv d (ipcv s)"
proof -
  from r w obtain s1 where q: "QueueMess (p_endpoint (procs s c)) (send_ref c m s) d s = Some (0, s1)"
    and u: "RTS_UNSET d RTS_RECEIVING s1 = Some s'"
    by (auto simp: mini_send_unfold [OF k ok] opt_simps split: if_splits)
  from q obtain x where x: "fetch s (send_ref c m s) = Some x"
    and s1: "s1 = upd_proc d (\<lambda>p. p\<lparr>p_delivermsg := x\<lparr>m_source := p_endpoint (procs s c)\<rparr>,
      p_misc_flags := p_misc_flags p OR MF_DELIVERMSG\<rparr>) s"
    by (auto simp: QueueMess_def split: option.splits if_splits)
  note rel = RTS_UNSET_rel [OF u]
  have "p_delivermsg (procs s' d) = x\<lparr>m_source := p_endpoint (procs s c)\<rparr>"
    using sched_view_fields(12) [OF RTS_UNSET_sched_view [OF u], of d] by (simp add: set_rts_def s1)
  moreover have "ipcv s' = v_unrecv d (ipcv s1)"
    using sched_rel_ipcv [OF rel] by (simp only: ipcv_rts)
  moreover have "ipcv s1 = ipcv s" unfolding s1 by (rule deliver_kept(2) [OF kinvD(2) [OF k]])
  ultimately show ?thesis using x by simp
qed

section \<open>What a receive from anyone does\<close>

lemma lowest_bit_0 [simp]: "lowest_bit 0 = None"
  unfolding lowest_bit_def find_None_iff by simp

lemma notify_scan_none:
  "(\<And>x. s_notify_pending (priv_of s c) x = 0) \<Longrightarrow> notify_scan cs src_e src_p s c = None"
  by (induction cs) simp_all

lemma receive_any_first:
  assumes k: "kinv s" and d: "live s d" and nd: "\<not> i_dead (ipcv s d)" and ns: "\<not> i_send (ipcv s d)" and nr: "\<not> i_recv (ipcv s d)"
    and C: "callers_ok (ipcv s) C" and q: "C d = x # xs"
    and np: "\<And>i. s_notify_pending (priv_of s d) i = 0" and nf: "\<not> send_fault d m s"
    and sd: "\<not> has_any (p_misc_flags (procs s x)) MF_SIG_DELAY" and ne: "x \<noteq> d"
  shows "\<exists>s'. mini_receive kaddr d ENDPT_ANY m flags s = Some (0, s') \<and>
    p_delivermsg (procs s' d) = (p_sendmsg (procs s x))\<lparr>m_source := p_endpoint (procs s x)\<rparr> \<and>
    \<not> i_send (ipcv s' x) \<and> callers_ok (ipcv s') (C(d := xs))"
proof -
  obtain lin where lin: "(if syscall_0x80 (procs s d) then Some kaddr else umap_local (procs s d) SEG_D m MSG_SIZE) = Some lin"
    using umap_local_D [of "procs s d" m MSG_SIZE] by (cases "syscall_0x80 (procs s d)") auto
  define s1 where "s1 = upd_proc d (\<lambda>p. p\<lparr>p_delivermsg_lin := lin,
    p_delivermsg_vir := (if syscall_0x80 (procs s d) then kaddr else m)\<rparr>) s"
  have v1: "ipcv s1 = ipcv s" by (simp add: s1_def ipcv_def ipcp_def fun_eq_iff)
  have k1: "kinv s1"
  proof -
    have "kcore s1" unfolding s1_def by (rule kcore_upd_proc [OF kinvD(2) [OF k]]) (simp add: quiet_def)
    with k v1 show ?thesis by (simp add: kinv_alt)
  qed
  have C1: "callers_ok (ipcv s1) C" using C v1 by simp
  have rd: "reachable_ep (ipcv s1) d" unfolding reachable_ep_def v1 using d nd unfolding live_view by auto
  note cd = callers_okD [OF C1 rd]
  have np1: "s_notify_pending (priv_of s1 d) i = 0" for i using np by (simp add: s1_def priv_of_def)
  have w: "walk (\<lambda>y. ENDPT_ANY = ENDPT_ANY \<or> ENDPT_ANY = p_nr (procs s1 y)) (q_links s1) (p_caller_q (procs s1 d)) Head = Some Head"
    using callq.walk_state [OF cd(1), of "\<lambda>_. True"] q by (simp add: q_links_view)
  have rc: "cell_rd (q_links s1) (p_caller_q (procs s1 d)) Head = Some x"
    using cd(1) q by (simp add: q_links_view)
  have "receive_search d ENDPT_ANY ENDPT_ANY flags s1 = receive_queued d Head x s1"
    using w rc notify_scan_none [OF np1, of "[0..NR_SYS_CHUNKS - 1]" ENDPT_ANY ENDPT_ANY]
    by (simp only: receive_search_def Option.bind.simps option.case if_cancel)
  moreover have "mini_receive kaddr d ENDPT_ANY m flags s = receive_search d ENDPT_ANY ENDPT_ANY flags s1"
  proof -
    have "\<not> (\<not> syscall_0x80 (procs s d) \<and> lin = 0)" using nf lin by (auto simp: send_fault_def split: if_splits)
    then show ?thesis
      using ns by (simp only: mini_receive_def Let_def lin Option.bind.simps s1_def [symmetric] RTS_ISSET_view v1) simp
  qed
  ultimately have run: "mini_receive kaddr d ENDPT_ANY m flags s = receive_queued d Head x s1" by simp
  have x: "x \<in> set (C d)" using q by simp
  have h: "cell_after Head (takeWhile (\<lambda>y. y \<noteq> x) (C d)) = Head" by (simp add: q)
  from receive_queued_spec [OF k1 C1 rd x] obtain s' where s': "receive_queued d Head x s1 = Some (0, s')"
    unfolding h by blast
  define s2 where "s2 = upd_proc d (\<lambda>p. p\<lparr>p_delivermsg := (p_sendmsg (procs s1 x))\<lparr>m_source := p_endpoint (procs s1 x)\<rparr>,
    p_misc_flags := p_misc_flags p OR MF_DELIVERMSG\<rparr>) s1"
  have sd2: "\<not> has_any (p_misc_flags (procs s2 x)) MF_SIG_DELAY"
    using sd ne by (simp add: s2_def s1_def)
  from s' sd2 obtain s3 where u: "RTS_UNSET x RTS_SENDING s2 = Some s3"
    and e: "s' = cell_wr (set_caller_q d) set_q_link Head (q_links s3 x) s3"
    by (auto simp: receive_queued_def QueueMess_def opt_simps s2_def [symmetric] split: if_splits)
  have v2: "ipcv s2 = ipcv s" using v1 by (simp add: s2_def ipcv_def ipcp_def fun_eq_iff)
  have v3: "ipcv s3 = (ipcv s)(x := (ipcv s x)\<lparr>i_send := False\<rparr>)"
    using sched_rel_ipcv [OF RTS_UNSET_rel [OF u]] by (simp only: ipcv_rts v2)
  have v': "ipcv s' = v_take d Head x (ipcv s)" by (simp add: e v3 v_take_def ipcv_sel)
  have "p_delivermsg (procs s3 d) = p_delivermsg (procs s2 d)"
    using sched_view_fields(12) [OF RTS_UNSET_sched_view [OF u], of d] by (simp add: set_rts_def)
  then have "p_delivermsg (procs s' d) = (p_sendmsg (procs s x))\<lparr>m_source := p_endpoint (procs s x)\<rparr>"
    using ne by (simp add: e cell_wr_def set_caller_q_def s2_def s1_def)
  moreover have "\<not> i_send (ipcv s' x)" by (simp add: v' v_take_sel)
  moreover have "callers_ok (ipcv s') (C(d := xs))"
    using v_take_ok(2) [OF kinvD(3) [OF k] C _ x] rd v1 unfolding h v' by (simp add: q)
  ultimately show ?thesis using run s' by auto
qed

section \<open>A process that waits for itself\<close>

lemma deadlock_loop_self:
  assumes v: "valid_nr d" and r: "RTS_ISSET (procs s d) RTS_RECEIVING"
    and g: "p_getfrom_e (procs s d) \<noteq> ENDPT_ANY" "okendpt s (p_getfrom_e (procs s d)) = Some d"
    and ne: "d \<noteq> p_nr (procs s c)"
  shows "deadlock_loop fn c d g s = None"
proof (induction "nat (NR_TASKS + NR_PROCS - g)" arbitrary: g)
  case 0
  have "d \<noteq> ENDPT_ANY" using v by auto
  with 0 show ?case by (subst deadlock_loop.simps) simp
next
  case (Suc n)
  have a: "d \<noteq> ENDPT_ANY" using v by auto
  from Suc(2) have "deadlock_loop fn c d (g + 1) s = None" by (intro Suc(1)) simp
  with a r g ne show ?case by (subst deadlock_loop.simps) (simp add: Let_def del: RTS_ISSET_view)
qed

section \<open>The sample state\<close>

lemma ENDPOINT_P_small: "valid_nr n \<Longrightarrow> ENDPOINT_P n = n"
  by (simp add: valid_nr_def ENDPOINT_P_def wrap32_id c_rem_nonneg)

lemma sample_ipcv: "ipcv sample n = \<lparr>i_empty = n \<notin> {-4, -3, -2, -1, 0, 1, 11}, i_recv = n \<in> {-3, -2, 1}, i_send = False,
  i_dead = False, i_sendto = ENDPT_NONE, i_getfrom = ENDPT_ANY, i_ep = n, i_callq = None, i_link = None\<rparr>"
  by (auto simp: ipcv_def ipcp_def sample_def sample_proc_def)

lemma sample_callers: "callers_ok (ipcv sample) (\<lambda>_. [])"
  by (simp add: callers_ok_def senders_def sample_ipcv)

lemma sample_ipc_ok: "ipc_ok (ipcv sample)"
proof -
  have w: "waits (ipcv sample) = (\<lambda>_. None)" by (auto simp: waits_def sample_ipcv)
  have "chain (\<lambda>_. None) (Some n) [n]" for n :: int by simp
  then have "acyc (waits (ipcv sample))" unfolding acyc_def w by blast
  moreover have "blocked_ok (ipcv sample)" by (simp add: blocked_ok_def sample_ipcv ENDPOINT_P_small)
  ultimately show ?thesis using sample_callers by (auto simp: ipc_ok_def)
qed

lemma sample_kinv: "kinv sample"
proof -
  have f: "free_ok sample" by (simp add: free_ok_def sample_def sample_proc_def)
  have pr: "privs sample i = sample_priv i" for i by (simp add: sample_def)
  have po: "priv_of sample n = sample_priv (if n < 12 then n + 4 else 15)" for n
    by (simp add: priv_of_def sample_def sample_proc_def)
  have nz: "\<not> get_sys_bit (\<lambda>_. 0) i" for i by (simp add: get_sys_bit_def)
  have lv: "live sample n \<longleftrightarrow> n \<in> {-4, -3, -2, -1, 0, 1, 11}" for n
    by (auto simp: sample_def sample_proc_def valid_nr_def)
  have "tables_ok sample"
    unfolding tables_ok_def lv pr po
    by (auto simp: sample_priv_def get_unset_sys_bit nz valid_nr_def sample_def sample_proc_def)
  moreover have "pm_ok sample" unfolding pm_ok_def lv by (simp add: sample_def sample_proc_def)
  moreover have "live sample (proc_ptr sample)" unfolding lv by (simp add: sample_def)
  ultimately show ?thesis using f sample_runq_inv sample_lock_ok sample_ipc_ok by (simp add: kinv_def ksane_def)
qed

text \<open>The sample state with the user process blocked sending to the process manager.\<close>

definition sample_blocked :: kstate where
  "sample_blocked = sample\<lparr>rdy_head := (rdy_head sample)(7 := None),
     procs := (procs sample)(0 := (procs sample 0)\<lparr>p_caller_q := Some 11\<rparr>,
       11 := (procs sample 11)\<lparr>p_rts_flags := RTS_SENDING, p_sendto_e := 0\<rparr>)\<rparr>"

lemma blocked_ipcv: "ipcv sample_blocked = (ipcv sample)(0 := (ipcv sample 0)\<lparr>i_callq := Some 11\<rparr>,
    11 := (ipcv sample 11)\<lparr>i_send := True, i_sendto := 0\<rparr>)"
  by (auto simp: ipcv_def ipcp_def sample_blocked_def fun_eq_iff sample_def sample_proc_def)

lemma blocked_callers: "callers_ok (ipcv sample_blocked) ((\<lambda>_. [])(0 := [11]))"
  by (auto simp: callers_ok_def senders_def blocked_ipcv sample_ipcv valid_nr_def ENDPOINT_P_small)

lemma blocked_kinv: "kinv sample_blocked"
proof -
  have c0: "live sample 11" "ep_ok (ipcv sample) 0" "valid_nr 11"
    unfolding live_view by (simp_all add: sample_ipcv valid_nr_def ep_ok_def ENDPOINT_P_small Let_def)
  have "chain (waits (ipcv sample)) (Some (ENDPOINT_P 0)) [0]"
    by (simp add: waits_def sample_ipcv ENDPOINT_P_small valid_nr_def)
  then have "ipc_ok (v_send 11 0 Head (ipcv sample))"
    using v_send_ok(1) [OF sample_ipc_ok c0(3) _ _ _ c0(2) _ _ sample_callers, of "[0]"] by (simp add: sample_ipcv)
  moreover have "v_send 11 0 Head (ipcv sample) = ipcv sample_blocked"
    unfolding blocked_ipcv
    by (auto simp: v_send_def v_set_link_def v_set_callq_def cell_wr_def ENDPOINT_P_small valid_nr_def sample_ipcv fun_eq_iff)
  ultimately have i: "ipc_ok (ipcv sample_blocked)" by simp
  let ?Q = "\<lambda>q. if q = 15 then [-4] else if q = 3 then [0] else [] :: int list"
  have run: "runnables sample_blocked = {-4, 0}"
    by (auto simp: runnables_def sample_blocked_def sample_def sample_proc_def proc_is_runnable_def valid_nr_def)
  have "queues sample_blocked {-4, 0} ?Q"
    by (auto simp: queues_def sample_blocked_def sample_def sample_proc_def)
  moreover have "prio_ok sample_blocked"
    by (simp add: prio_ok_def sample_blocked_def sample_def sample_proc_def valid_q_def)
  moreover have "valid_nr (proc_ptr sample_blocked)" by (simp add: sample_blocked_def sample_def valid_nr_def)
  ultimately have r: "runq_inv sample_blocked" unfolding runq_inv_def run by blast
  have lv: "live sample_blocked n \<longleftrightarrow> live sample n" for n
    unfolding live_view by (simp add: blocked_ipcv)
  have po: "priv_of sample_blocked n = priv_of sample n" "privs sample_blocked = privs sample"
    "p_nr (procs sample_blocked n) = p_nr (procs sample n)" "p_priv (procs sample_blocked n) = p_priv (procs sample n)"
    "p_misc_flags (procs sample_blocked n) = p_misc_flags (procs sample n)" "proc_ptr sample_blocked = proc_ptr sample"
    "syscall_0x80 (procs sample_blocked n) = syscall_0x80 (procs sample n)" "umsg sample_blocked = umsg sample"
    "intr_off sample_blocked = intr_off sample" "locklevel sample_blocked = locklevel sample" for n
    by (auto simp: sample_blocked_def priv_of_def)
  have "free_ok sample_blocked" by (simp add: free_ok_def sample_blocked_def sample_def sample_proc_def)
  with kinvD(1) [OF sample_kinv] have "ksane sample_blocked"
    unfolding ksane_def tables_ok_def pm_ok_def lock_ok_def lv po by blast
  with i r show ?thesis by (simp add: kinv_def)
qed

text \<open>
  The sample state with the memory manager waiting after an interrupt 0x80, and no message in the memory of the others.
\<close>

definition sample_nomem :: kstate where
  "sample_nomem = (upd_proc 1 (\<lambda>p. p\<lparr>syscall_0x80 := True\<rparr>) sample)\<lparr>umsg := \<lambda>_. None\<rparr>"

lemma nomem_kinv: "kinv sample_nomem"
proof -
  let ?s = "upd_proc 1 (\<lambda>p. p\<lparr>syscall_0x80 := True\<rparr>) sample"
  have k: "kcore ?s" by (rule kcore_upd_proc [OF kinvD(2) [OF sample_kinv]]) (simp add: quiet_def)
  have g: "procs sample_nomem = procs ?s" "privs sample_nomem = privs ?s" "rdy_head sample_nomem = rdy_head ?s"
    "rdy_tail sample_nomem = rdy_tail ?s" "proc_ptr sample_nomem = proc_ptr ?s" "intr_off sample_nomem = intr_off ?s"
    "locklevel sample_nomem = locklevel ?s"
    by (simp_all add: sample_nomem_def)
  have "runq_inv sample_nomem = runq_inv ?s" by (rule runq_inv_cong) (simp_all only: g)
  with k have "kcore sample_nomem"
    unfolding kcore_def ksane_def free_ok_def tables_ok_def pm_ok_def lock_ok_def priv_of_def g by blast
  moreover have "ipcv sample_nomem = ipcv sample"
    by (simp add: ipcv_def ipcp_def fun_eq_iff sample_nomem_def)
  ultimately show ?thesis using sample_ipc_ok by (simp add: kinv_alt)
qed

section \<open>Properties\<close>



text \<open>
  C2. The search for a deadlock ends and is exact. It follows who waits for whom from the
  destination and never runs off its trace array. It returns 0 when the caller is not on that
  path, and when the destination waits for the caller alone and the two complement each other (the caller sends and
  the destination is not sending, or the caller receives and the destination is sending). In every other
  case it returns the number of processes in the circle, the caller included.
\<close>

theorem deadlock_decides:
  assumes "kinv s" and "valid_nr c" and "valid_nr d" and "d \<noteq> c" and "fn = KIPC_SEND \<or> fn = KIPC_RECEIVE"
  shows "\<exists>ds. chain (waits (ipcv s)) (Some d) ds \<and> deadlock fn c d s = Some
    (if c \<notin> set ds then 0
     else if waits (ipcv s) d = Some c \<and> (i_send (ipcv s d) \<longleftrightarrow> fn = KIPC_RECEIVE) then 0
     else 1 + int (length (takeWhile (\<lambda>x. x \<noteq> c) ds)))"
proof -
  obtain ds where ds: "chain (waits (ipcv s)) (Some d) ds" using waits_path [OF kinvD(3) [OF assms(1)] assms(3)] by blast
  have "has_any (p_rts_flags (procs s d) XOR push_bit 2 (word_of_int fn)) RTS_SENDING \<longleftrightarrow>
      (i_send (ipcv s d) \<longleftrightarrow> fn = KIPC_RECEIVE)"
    using assms(5) xor_sending [of "p_rts_flags (procs s d)"] by (elim disjE) (simp_all add: ipcv_def ipcp_def)
  with deadlock_exact [OF kinvD(1) [OF assms(1)] kinvD(3) [OF assms(1)] assms(2-4) ds, of fn] ds show ?thesis by auto
qed

theorem deadlock_decides_witness:
  "kinv sample_blocked \<and> deadlock KIPC_SEND 0 11 sample_blocked = Some 2 \<and> deadlock KIPC_RECEIVE 0 11 sample_blocked = Some 0"
proof -
  have w: "waits (ipcv sample_blocked) 11 = Some 0" "waits (ipcv sample_blocked) 0 = None" "i_send (ipcv sample_blocked 11)"
    by (simp_all add: waits_def blocked_ipcv sample_ipcv ENDPOINT_P_small valid_nr_def)
  then have ds: "ds = [11, 0]" if "chain (waits (ipcv sample_blocked)) (Some 11) ds" for ds
    using that by (auto simp: chain_Some)
  have "deadlock KIPC_SEND 0 11 sample_blocked = Some 2"
    using deadlock_decides [OF blocked_kinv, of 0 11 KIPC_SEND] w by (auto simp: valid_nr_def dest!: ds)
  moreover have "deadlock KIPC_RECEIVE 0 11 sample_blocked = Some 0"
    using deadlock_decides [OF blocked_kinv, of 0 11 KIPC_RECEIVE] w by (auto simp: valid_nr_def dest!: ds)
  ultimately show ?thesis using blocked_kinv by blast
qed

text \<open>
  C9. A send to a process that is not ready, when it returns 0, has blocked the caller behind
  all callers already waiting for the same destination, with its message saved in the process
  table; the other queues are as before.
\<close>

theorem send_queues_caller:
  assumes "kinv s" and "live s c" and "\<not> i_send (ipcv s c)" and "\<not> i_recv (ipcv s c)"
    and "isokendpt s e = Some d" and "d \<noteq> c" and "\<not> WILLRECEIVE (procs s d) (p_endpoint (procs s c))"
    and "callers_ok (ipcv s) C" and "mini_send c e m flags s = Some (0, s')"
  shows "callers_ok (ipcv s') (C(d := C d @ [c])) \<and> i_send (ipcv s' c) \<and>
    fetch s (send_ref c m s) = Some (p_sendmsg (procs s' c))"
  using send_blocks [OF assms] by blast

text \<open>A send of the user process to the process manager, which is running.\<close>

lemma sample_send: "\<exists>s'. mini_send 11 0 16 0 sample = Some (0, s')"
proof -
  have ok: "isokendpt sample 0 = Some 0"
    using isokendpt_view [OF kinvD(1) [OF sample_kinv], of 0] by (simp add: sample_ipcv ENDPOINT_P_small valid_nr_def)
  have u: "umap_local (procs sample 11) SEG_D 16 MSG_SIZE = Some 16"
    by (simp add: umap_local_def Let_def sample_def sample_proc_def uwrap32_def)
  have n80: "\<not> syscall_0x80 (procs sample n)" for n by (simp add: sample_def sample_proc_def)
  have nf: "\<not> send_fault 11 16 sample" by (simp add: send_fault_def u)
  have fe: "fetch sample (send_ref 11 16 sample) = Some msg0" by (simp add: send_ref_def n80 u) (simp add: sample_def)
  have w: "\<not> WILLRECEIVE (procs sample 0) (p_endpoint (procs sample 11))" by (simp add: WILLRECEIVE_view sample_ipcv)
  have wn: "waits (ipcv sample) n = None" for n by (simp add: waits_def sample_ipcv)
  have "deadlock KIPC_SEND 11 0 sample = Some 0"
    unfolding deadlock_def
    by (subst deadlock_step [OF kinvD(1) [OF sample_kinv] kinvD(4) [OF sample_kinv]]) (simp_all add: valid_nr_def wn)
  moreover have "live sample 11" "ep_ok (ipcv sample) 0"
    unfolding live_view by (simp_all add: sample_ipcv valid_nr_def ep_ok_def ENDPOINT_P_small Let_def)
  then obtain s' where "send_block 11 0 (ENDPOINT_P 0) msg0 sample = Some s'"
    using send_block_spec [OF sample_kinv _ sample_callers, of 11 0 msg0] by blast
  then have "send_block 11 0 0 msg0 sample = Some s'" by (simp add: ENDPOINT_P_small valid_nr_def)
  ultimately show ?thesis
    by (simp add: mini_send_unfold [OF sample_kinv ok] nf fe w sample_ipcv)
qed

theorem send_queues_caller_witness:
  "\<exists>s'. mini_send 11 0 16 0 sample = Some (0, s') \<and> callers_ok (ipcv s') ((\<lambda>_. [])(0 := [11])) \<and> i_send (ipcv s' 11)"
proof -
  obtain s' where s': "mini_send 11 0 16 0 sample = Some (0, s')" using sample_send by blast
  have "isokendpt sample 0 = Some 0"
    using isokendpt_view [OF kinvD(1) [OF sample_kinv], of 0] by (simp add: sample_ipcv ENDPOINT_P_small valid_nr_def)
  moreover have "live sample 11" unfolding live_view by (simp add: sample_ipcv valid_nr_def)
  ultimately show ?thesis
    using send_queues_caller [OF sample_kinv _ _ _ _ _ _ sample_callers s'] s'
    by (simp add: sample_ipcv WILLRECEIVE_view)
qed

text \<open>
  C25. A send to a process that waits for it, when it returns 0, has stored exactly the sent
  message, with the endpoint of the caller as its source, in the message buffer of the
  destination, and has ended its wait without changing who else is blocked.
\<close>

theorem send_delivers_message:
  assumes "kinv s" and "isokendpt s e = Some d" and "WILLRECEIVE (procs s d) (p_endpoint (procs s c))"
    and "mini_send c e m flags s = Some (0, s')"
  shows "\<exists>x. fetch s (send_ref c m s) = Some x \<and>
    p_delivermsg (procs s' d) = x\<lparr>m_source := p_endpoint (procs s c)\<rparr> \<and> ipcv s' = v_unrecv d (ipcv s)"
  by (rule send_delivers [OF assms])

theorem send_delivers_message_witness:
  "\<exists>s'. mini_send 0 1 16 0 sample = Some (0, s') \<and> m_source (p_delivermsg (procs s' 1)) = 0 \<and> \<not> i_recv (ipcv s' 1)"
proof -
  have ok: "isokendpt sample 1 = Some 1"
    using isokendpt_view [OF kinvD(1) [OF sample_kinv], of 1] by (simp add: sample_ipcv ENDPOINT_P_small valid_nr_def)
  have w: "WILLRECEIVE (procs sample 1) (p_endpoint (procs sample 0))" by (simp add: WILLRECEIVE_view sample_ipcv)
  have u: "umap_local (procs sample 0) SEG_D 16 MSG_SIZE = Some 16"
    by (simp add: umap_local_def Let_def sample_def sample_proc_def uwrap32_def)
  have n80: "\<not> syscall_0x80 (procs sample n)" for n by (simp add: sample_def sample_proc_def)
  have fe: "fetch sample (send_ref 0 16 sample) = Some msg0" by (simp add: send_ref_def n80 u) (simp add: sample_def)
  obtain r s1 where q: "QueueMess (p_endpoint (procs sample 0)) (send_ref 0 16 sample) 1 sample = Some (r, s1)" "kcore s1"
    "ipcv s1 = ipcv sample" using QueueMess_any [OF kinvD(2) [OF sample_kinv]] n80 by blast
  then have r: "r = 0" by (simp add: QueueMess_def fe)
  have "live s1 1" unfolding live_view q(3) by (simp add: sample_ipcv valid_nr_def)
  from unblock_receiver [OF q(2) this] obtain s' where "RTS_UNSET 1 RTS_RECEIVING s1 = Some s'" by blast
  then have s': "mini_send 0 1 16 0 sample = Some (0, s')"
    using q r w by (simp add: mini_send_unfold [OF sample_kinv ok] send_fault_def u sample_ipcv)
  from send_delivers_message [OF sample_kinv ok w s'] s' show ?thesis
    by (auto simp: v_unrecv_def) (simp add: sample_def sample_proc_def)
qed

text \<open>
  C10. A receive from anyone, with no notification pending, takes the message of the caller that
  has waited longest: its saved message arrives with its endpoint as the source, it is no longer
  blocked sending, and the rest of the queue keeps its order.
\<close>

theorem receive_takes_first:
  assumes "kinv s" and "live s d" and "\<not> i_dead (ipcv s d)" and "\<not> i_send (ipcv s d)" and "\<not> i_recv (ipcv s d)"
    and "callers_ok (ipcv s) C" and "C d = x # xs"
    and "\<And>i. s_notify_pending (priv_of s d) i = 0" and "\<not> send_fault d m s"
    and "\<not> has_any (p_misc_flags (procs s x)) MF_SIG_DELAY" and "x \<noteq> d"
  shows "\<exists>s'. mini_receive kaddr d ENDPT_ANY m flags s = Some (0, s') \<and>
    p_delivermsg (procs s' d) = (p_sendmsg (procs s x))\<lparr>m_source := p_endpoint (procs s x)\<rparr> \<and>
    \<not> i_send (ipcv s' x) \<and> callers_ok (ipcv s') (C(d := xs))"
  by (rule receive_any_first [OF assms])

theorem receive_takes_first_witness:
  "kinv sample_blocked \<and> (\<exists>s'. mini_receive 0 0 ENDPT_ANY 16 0 sample_blocked = Some (0, s') \<and>
     m_source (p_delivermsg (procs s' 0)) = 11 \<and> \<not> i_send (ipcv s' 11))"
proof -
  have l: "live sample_blocked 0" unfolding live_view by (simp add: blocked_ipcv sample_ipcv valid_nr_def)
  have u: "umap_local (procs sample_blocked 0) SEG_D 16 MSG_SIZE = Some 16"
    by (simp add: umap_local_def Let_def sample_blocked_def sample_def sample_proc_def uwrap32_def)
  have np: "s_notify_pending (priv_of sample_blocked 0) i = 0" for i
    by (simp add: priv_of_def sample_blocked_def sample_def sample_proc_def sample_priv_def)
  have "\<exists>s'. mini_receive 0 0 ENDPT_ANY 16 0 sample_blocked = Some (0, s') \<and>
      p_delivermsg (procs s' 0) = (p_sendmsg (procs sample_blocked 11))\<lparr>m_source := p_endpoint (procs sample_blocked 11)\<rparr> \<and>
      \<not> i_send (ipcv s' 11) \<and> callers_ok (ipcv s') (((\<lambda>_. [])(0 := [11]))(0 := []))"
    by (rule receive_takes_first [OF blocked_kinv l _ _ _ blocked_callers])
      (simp_all add: blocked_ipcv sample_ipcv np send_fault_def u, simp add: sample_blocked_def sample_def sample_proc_def)
  then show ?thesis
    using blocked_kinv by (auto simp: sample_blocked_def sample_def sample_proc_def)
qed

text \<open>
  C32. A receive from oneself is not excluded: once a process waits for its own endpoint, the
  search for a deadlock of any other process that wants to send to it never returns; it goes
  round in the same place and writes beyond its trace array.
\<close>

theorem deadlock_self_receiver:
  assumes "valid_nr d" and "RTS_ISSET (procs s d) RTS_RECEIVING"
    and "p_getfrom_e (procs s d) \<noteq> ENDPT_ANY" and "okendpt s (p_getfrom_e (procs s d)) = Some d"
    and "d \<noteq> p_nr (procs s c)"
  shows "deadlock fn c d s = None"
  unfolding deadlock_def by (rule deadlock_loop_self [OF assms])

definition sample_self :: kstate where
  "sample_self = upd_proc 1 (\<lambda>p. p\<lparr>p_getfrom_e := 1\<rparr>) sample"

theorem deadlock_self_receiver_witness:
  "okendpt sample_self (p_getfrom_e (procs sample_self 1)) = Some 1 \<and> deadlock KIPC_SEND 11 1 sample_self = None"
proof -
  have "isokendpt sample_self 1 = Some 1"
    using isokprocn_valid [of 1]
    by (simp add: isokendpt_def Let_def ENDPOINT_P_small valid_nr_def sample_self_def sample_def sample_proc_def isemptyp_def)
  then have ok: "okendpt sample_self (p_getfrom_e (procs sample_self 1)) = Some 1"
    by (simp add: okendpt_def) (simp add: sample_self_def)
  have "deadlock KIPC_SEND 11 1 sample_self = None"
    by (rule deadlock_self_receiver [OF _ _ _ ok])
      (simp_all add: valid_nr_def sample_self_def sample_def sample_proc_def RTS_ISSET_def del: RTS_ISSET_view)
  with ok show ?thesis by blast
qed


lemma ENDPOINT_parts:
  assumes "0 \<le> g" and "g \<le> ENDPOINT_MAX_GENERATION" and "- MAX_NR_TASKS \<le> p" and "p \<le> ENDPT_SELF"
  shows "ENDPOINT_P (ENDPOINT g p) = p \<and> ENDPOINT_G (ENDPOINT g p) = g"
proof -
  have g: "0 \<le> g" "g \<le> 58740" using assms(1,2) by (simp_all add: ENDPOINT_MAX_GENERATION_def)
  define x where "x = g * ENDPOINT_GENERATION_SIZE + p"
  have e: "ENDPOINT g p = x" using g assms(3,4) by (simp add: ENDPOINT_def x_def wrap32_id)
  have b: "0 \<le> x + 1023" "x + 1023 \<le> 2147483647" using g assms(3,4) by (simp_all add: x_def)
  have s: "x + 1023 = g * ENDPOINT_GENERATION_SIZE + (p + 1023)" by (simp add: x_def)
  have "(x + 1023) mod ENDPOINT_GENERATION_SIZE = p + 1023" "(x + 1023) div ENDPOINT_GENERATION_SIZE = g"
    unfolding s using assms(3,4) by simp_all
  then show ?thesis
    unfolding ENDPOINT_P_def ENDPOINT_G_def e using b by (simp add: wrap32_id c_rem_nonneg c_div_nonneg)
qed

text \<open>
  Endpoint numbers round trip: the process number and the generation of an endpoint are the
  ones it was built from, for every process slot and every generation the kernel hands out.
\<close>

lemma endpoint_roundtrip:
  assumes "0 \<le> g" and "g \<le> ENDPOINT_MAX_GENERATION" and "- MAX_NR_TASKS \<le> p" and "p \<le> ENDPT_SELF"
  shows "ENDPOINT_P (ENDPOINT g p) = p \<and> ENDPOINT_G (ENDPOINT g p) = g"
  using ENDPOINT_parts [OF assms] .

lemma endpoint_roundtrip_witness:
  "(7::int) \<le> ENDPOINT_MAX_GENERATION \<and> ENDPOINT_P (ENDPOINT 7 42) = 42 \<and> ENDPOINT_G (ENDPOINT 7 42) = 7"
  using endpoint_roundtrip [of 7 42] by (simp add: ENDPOINT_MAX_GENERATION_def)

end
