(* ===== verification/Kernel_Clock_Props.thy ===== *)
theory Kernel_Clock_Props
  imports Kernel_Clock Kernel_Ipc_Props
begin

text \<open>
  The clock task: balancing the queues re-arms its timer for a later time, so running the
  expired watchdogs ends; and the properties of the clock.
\<close>

section \<open>A notification arrives\<close>

text \<open>The process has been notified by \<open>c\<close>: the message is being delivered, or it is pending.\<close>

definition notified :: "kstate \<Rightarrow> int \<Rightarrow> int \<Rightarrow> bool" where
  "notified s c d \<longleftrightarrow> get_sys_bit (s_notify_pending (priv_of s d)) (s_id (priv_of s c)) \<or>
     has_any (p_misc_flags (procs s d)) MF_DELIVERMSG \<and> m_source (p_delivermsg (procs s d)) = p_endpoint (procs s c)"

lemma priv_of_upd_priv_of:
  "s_id (f (priv_of s n)) = s_id (priv_of s n) \<Longrightarrow> s_id (priv_of (upd_priv_of n f s) m) = s_id (priv_of s m)"
  by (auto simp: priv_of_def upd_priv_of_def upd_priv_def)

lemma mini_notify_notified:
  assumes n: "mini_notify c e s = Some (r, s')" and ok: "isokendpt s e = Some d"
  shows "notified s' c d"
proof (cases "WILLRECEIVE (procs s d) (p_endpoint (procs s c)) \<and> \<not> has_any (p_misc_flags (procs s d)) MF_REPLY_PEND")
  case True
  obtain m s1 where b: "BuildNotifyMessage (p_nr (procs s c)) d s = (m, s1)" by fastforce
  then have p1: "procs s1 = procs s"
    by (auto simp: BuildNotifyMessage_def Let_def upd_priv_of_def upd_priv_def split: if_splits)
  define s2 where "s2 = upd_proc d (\<lambda>p. p\<lparr>p_delivermsg := m\<lparr>m_source := p_endpoint (procs s c)\<rparr>,
      p_misc_flags := p_misc_flags p OR MF_DELIVERMSG\<rparr>) s1"
  from n ok True b p1 have u: "RTS_UNSET d RTS_RECEIVING s2 = Some s'"
    by (auto simp: mini_notify_def QueueMess_def opt_simps s2_def)
  note v = sched_view_fields [OF RTS_UNSET_sched_view [OF u]]
  have "p_misc_flags (procs s' d) = p_misc_flags (procs s2 d)" "p_delivermsg (procs s' d) = p_delivermsg (procs s2 d)"
    "p_endpoint (procs s' c) = p_endpoint (procs s c)"
    using v(3,12) [of d] v(10) [of c] by (auto simp: set_rts_def s2_def p1)
  then show ?thesis by (simp add: notified_def s2_def or_and_dist)
next
  case False
  with n ok have "s' = upd_priv_of d (\<lambda>pr. pr\<lparr>s_notify_pending :=
      set_sys_bit (s_notify_pending pr) (s_id (priv_of s c))\<rparr>) s"
    by (auto simp: mini_notify_def)
  then show ?thesis
    by (simp add: notified_def priv_of_upd_priv_of)
      (simp add: priv_of_def upd_priv_of_def upd_priv_def get_set_sys_bit)
qed

text \<open>Nothing but the fields it reads matters for it, and a notification of others by \<open>c\<close> keeps it.\<close>

lemma notified_cong:
  assumes "\<And>n. p_misc_flags (procs s' n) = p_misc_flags (procs s n)" "\<And>n. p_delivermsg (procs s' n) = p_delivermsg (procs s n)"
    "\<And>n. p_endpoint (procs s' n) = p_endpoint (procs s n)" "\<And>n. p_priv (procs s' n) = p_priv (procs s n)" "privs s' = privs s"
  shows "notified s' c d = notified s c d"
  using assms by (simp add: notified_def priv_of_def)

lemma notified_fields [simp]:
  "notified (with_lock a b s) c d = notified s c d" "notified (s\<lparr>clock_timers := q\<rparr>) c d = notified s c d"
  "notified (s\<lparr>next_timeout := i\<rparr>) c d = notified s c d"
  by (rule notified_cong; simp)+

lemma isokendpt_fields [simp]:
  "isokendpt (with_lock a b s) e = isokendpt s e" "isokendpt (s\<lparr>clock_timers := q\<rparr>) e = isokendpt s e"
  by (simp_all add: isokendpt_def Let_def)

lemma BuildNotify_privs:
  assumes "BuildNotifyMessage src d s = (m, s')"
  shows "procs s' = procs s" "s_notify_pending (privs s' i) = s_notify_pending (privs s i)" "s_id (privs s' i) = s_id (privs s i)"
  using assms by (auto simp: BuildNotifyMessage_def Let_def upd_priv_of_def upd_priv_def priv_of_def split: if_splits)

lemma mini_notify_keeps:
  assumes n: "mini_notify c e s = Some (r, s')" and b: "notified s c d"
  shows "notified s' c d"
proof (cases "isokendpt s e")
  case None
  with n b show ?thesis by (auto simp: mini_notify_def)
next
  case (Some d')
  show ?thesis
  proof (cases "WILLRECEIVE (procs s d') (p_endpoint (procs s c)) \<and> \<not> has_any (p_misc_flags (procs s d')) MF_REPLY_PEND")
    case True
    obtain m s1 where bn: "BuildNotifyMessage (p_nr (procs s c)) d' s = (m, s1)" by fastforce
    note p1 = BuildNotify_privs [OF bn]
    define s2 where "s2 = upd_proc d' (\<lambda>p. p\<lparr>p_delivermsg := m\<lparr>m_source := p_endpoint (procs s c)\<rparr>,
        p_misc_flags := p_misc_flags p OR MF_DELIVERMSG\<rparr>) s1"
    from n Some True bn p1(1) have u: "RTS_UNSET d' RTS_RECEIVING s2 = Some s'"
      by (auto simp: mini_notify_def QueueMess_def opt_simps s2_def)
    note v = sched_view_fields [OF RTS_UNSET_sched_view [OF u]]
    have "notified s2 c d"
      using b by (auto simp: notified_def priv_of_def s2_def p1 or_and_dist)
    moreover have "notified s' c d = notified s2 c d"
      by (rule notified_cong) (use v(2,3,10,12,16) in \<open>auto simp: set_rts_def\<close>)
    ultimately show ?thesis by simp
  next
    case False
    with n Some have "s' = upd_priv_of d' (\<lambda>pr. pr\<lparr>s_notify_pending :=
        set_sys_bit (s_notify_pending pr) (s_id (priv_of s c))\<rparr>) s"
      by (auto simp: mini_notify_def)
    with b show ?thesis
      by (auto simp: notified_def priv_of_def upd_priv_of_def upd_priv_def get_set_sys_bit)
  qed
qed

lemma lock_notify_notifies:
  assumes n: "lock_notify c e s = Some (r, s')" and c: "isokendpt s c = Some p" and l: "lock_ok s"
  shows "isokendpt s e = Some d \<Longrightarrow> notified s' p d" "notified s p d \<Longrightarrow> notified s' p d"
proof -
  obtain s1 s2 where a: "reallock s = Some s1" "mini_notify p e s1 = Some (r, s2)" "realunlock s2 = Some s'"
    using n c by (auto simp: lock_notify_def opt_simps)
  have s1: "procs s1 = procs s" "privs s1 = privs s" using a(1) by (auto simp: reallock_def split: if_splits)
  have s': "procs s' = procs s2" "privs s' = privs s2" using a(3) by (auto simp: realunlock_def Let_def split: if_splits)
  have i: "isokendpt s1 e = isokendpt s e" by (simp add: isokendpt_def Let_def s1)
  have n1: "notified s1 p d = notified s p d" by (rule notified_cong) (simp_all add: s1)
  have n2: "notified s' p d = notified s2 p d" by (rule notified_cong) (simp_all add: s')
  show "isokendpt s e = Some d \<Longrightarrow> notified s' p d" using mini_notify_notified [OF a(2)] i n2 by simp
  show "notified s p d \<Longrightarrow> notified s' p d" using mini_notify_keeps [OF a(2)] n1 n2 by simp
qed

section \<open>Balancing, with its bounds\<close>

text \<open>Quantum and ticks left are \<^verbatim>\<open>char\<close> fields.\<close>

definition char_ok :: "kstate \<Rightarrow> bool" where
  "char_ok s \<longleftrightarrow> (\<forall>n. -128 \<le> p_quantum_size (procs s n) \<and> p_quantum_size (procs s n) \<le> 127 \<and>
     -128 \<le> p_ticks_left (procs s n) \<and> p_ticks_left (procs s n) \<le> 127)"

lemma char_ok_link: "link_view s' = link_view s \<Longrightarrow> char_ok s' = char_ok s"
  unfolding char_ok_def using link_viewD(4,5) [of s' s] by simp

lemma char_ok_set_rts [simp]: "char_ok (set_rts n f s) = char_ok s"
  by (auto simp: char_ok_def set_rts_def)

lemma char_ok_RTS_SET: "RTS_SET n f s = Some s' \<Longrightarrow> char_ok s' = char_ok s"
  by (auto simp: RTS_SET_def opt_simps char_ok_link [OF dequeue_link_view] split: if_splits)

lemma sched_char_ok: "sched rp s = (q, fr, s1) \<Longrightarrow> char_ok s \<Longrightarrow> char_ok s1"
  by (auto simp: sched_def Let_def char_ok_def split: if_splits)

lemma enqueue_char_ok:
  assumes "enqueue rp s = Some s'" and c: "char_ok s"
  shows "char_ok s'"
proof -
  obtain q fr s1 where sch: "sched rp s = (q, fr, s1)" by (metis prod_cases3)
  then obtain s2 where l: "link_ready rp q fr s1 = Some s2"
    and s': "s' = s2 \<or> RTS_SET (proc_ptr s2) RTS_PREEMPTED s2 = Some s'"
    using assms(1) by (auto simp: enqueue_def opt_simps split: if_splits)
  have "char_ok s2" using char_ok_link [OF link_ready_link_view [OF l]] sched_char_ok [OF sch c] by simp
  with s' char_ok_RTS_SET show ?thesis by blast
qed

lemma proc_ptr_sched_view: "sched_view s' = sched_view s \<Longrightarrow> proc_ptr s' = proc_ptr s"
  by (rule sched_view_fields(17))

text \<open>One process: the ticks added stay small, and only the current process can be marked preempted.\<close>

lemma balance_one_bound:
  assumes b: "balance_one rp t s = Some (t', s')" and c: "char_ok s"
    and t: "\<bar>t\<bar> \<le> 255 * k" "k < 1000"
  shows "char_ok s'" "\<bar>t'\<bar> \<le> 255 * (k + 1)"
    "n \<noteq> proc_ptr s \<Longrightarrow> p_rts_flags (procs s' n) = p_rts_flags (procs s n)"
proof -
  have q: "-128 \<le> p_quantum_size (procs s rp)" "p_quantum_size (procs s rp) \<le> 127"
    "-128 \<le> p_ticks_left (procs s rp)" "p_ticks_left (procs s rp) \<le> 127"
    using c by (auto simp: char_ok_def)
  consider (empty) "isemptyp (procs s rp)"
    | (raise) "\<not> isemptyp (procs s rp)" "p_priority (procs s rp) > p_max_priority (procs s rp)"
    | (renew) "\<not> isemptyp (procs s rp)" "\<not> p_priority (procs s rp) > p_max_priority (procs s rp)"
    by blast
  then have "char_ok s' \<and> \<bar>t'\<bar> \<le> 255 * (k + 1) \<and> (n \<noteq> proc_ptr s \<longrightarrow> p_rts_flags (procs s' n) = p_rts_flags (procs s n))"
  proof cases
    case empty
    with b c t show ?thesis by (auto simp: balance_one_def)
  next
    case raise
    let ?u = "upd_proc rp (\<lambda>p. p\<lparr>p_priority := wrap8 (p_priority p - 1)\<rparr>)"
    from b raise obtain s1 where d: "(if proc_is_runnable (procs s rp) then dequeue rp s else Some s) = Some s1"
      and t': "t' = wrap32 (t + p_quantum_size (procs s1 rp))"
      and e: "(if proc_is_runnable (procs (?u s1) rp) then enqueue rp (?u s1) else Some (?u s1)) = Some s'"
      by (auto simp: balance_one_def Let_def opt_simps)
    have l: "link_view s1 = link_view s" using d by (auto dest: dequeue_link_view split: if_splits)
    have c1: "char_ok (?u s1)" using char_ok_link [OF l] c by (simp add: char_ok_def)
    have p1: "proc_ptr (?u s1) = proc_ptr s" using link_viewD(7) [OF l] by (simp add: upd_proc_def)
    have r1: "p_rts_flags (procs (?u s1) n) = p_rts_flags (procs s n)" using link_viewD(1) [OF l] by simp
    have "\<bar>t'\<bar> \<le> 255 * (k + 1)"
      using t q t' link_viewD(5) [OF l, of rp] by (simp add: wrap32_id)
    with e c1 p1 r1 enqueue_char_ok [of rp "?u s1" s'] enqueue_rts [of rp "?u s1" s' n] show ?thesis
      by (auto split: if_splits)
  next
    case renew
    have d: "\<bar>t + (p_quantum_size (procs s rp) - p_ticks_left (procs s rp))\<bar> \<le> 255 * (k + 1)"
      using t q by (simp add: abs_le_iff)
    then have "wrap32 (t + (p_quantum_size (procs s rp) - p_ticks_left (procs s rp))) =
        t + (p_quantum_size (procs s rp) - p_ticks_left (procs s rp))"
      using t(2) by (intro wrap32_id) (simp_all add: abs_le_iff)
    with d b c renew show ?thesis by (auto simp: balance_one_def char_ok_def)
  qed
  then show "char_ok s'" "\<bar>t'\<bar> \<le> 255 * (k + 1)"
    "n \<noteq> proc_ptr s \<Longrightarrow> p_rts_flags (procs s' n) = p_rts_flags (procs s n)" by blast+
qed

lemma balance_loop_bound:
  assumes "balance_loop rps t s = Some (t', s')" and "char_ok s" and "\<bar>t\<bar> \<le> 255 * k" and "k + int (length rps) < 1000"
    and "runq_inv s" and "\<forall>rp \<in> set rps. valid_nr rp"
  shows "char_ok s' \<and> \<bar>t'\<bar> \<le> 255 * (k + int (length rps)) \<and> sched_rel s s'"
  using assms
proof (induction rps arbitrary: t s k)
  case Nil
  then show ?case by (simp add: sched_rel_def)
next
  case (Cons rp rps)
  from Cons.prems(1) obtain t1 s1 where b: "balance_one rp t s = Some (t1, s1)"
    and r: "balance_loop rps t1 s1 = Some (t', s')" by (auto simp: opt_simps)
  have k: "k < 1000" using Cons.prems(4) by simp
  note o = balance_one_bound [OF b Cons.prems(2,3) k]
  have i1: "runq_inv s1" and v1: "sched_view s1 = sched_view s"
    using balance_one_inv [OF Cons.prems(5), of rp t] Cons.prems(6) b by auto
  from Cons.IH [OF r o(1,2)] Cons.prems(4,6) i1
  have h: "char_ok s'" "\<bar>t'\<bar> \<le> 255 * (k + 1 + int (length rps))" "sched_rel s1 s'" by auto
  have "sched_rel s s'"
    using h(3) v1 o(3) proc_ptr_sched_view [OF v1] by (simp add: sched_rel_def)
  with h show ?case by (simp add: algebra_simps)
qed

lemma balance_queues_spec:
  assumes k: "kinv s" and q: "timer_queue (clock_timers s) xs" and off: "\<not> intr_off s" and c: "char_ok s"
    and rt: "0 \<le> realtime s" "realtime s \<le> 2147456000"
  shows "\<exists>s' n. balance_queues s = Some s' \<and> kinv s' \<and> \<not> intr_off s' \<and> char_ok s' \<and> realtime s' = realtime s \<and>
    timers_ok s' \<and> 100 \<le> n \<and>
    timer_queue (clock_timers s') (timer_insert (\<lambda>x. tmr_exp_time (tmr (clock_timers s) x)) QueueTimer (realtime s + n)
       (remove1 QueueTimer xs)) \<and>
    tmr_exp_time (tmr (clock_timers s') QueueTimer) = realtime s + n \<and>
    tmr_func (tmr (clock_timers s') QueueTimer) = WD_balance_queues \<and>
    (\<forall>x. x \<noteq> QueueTimer \<longrightarrow> tmr_exp_time (tmr (clock_timers s') x) = tmr_exp_time (tmr (clock_timers s) x) \<and>
       tmr_func (tmr (clock_timers s') x) = tmr_func (tmr (clock_timers s) x)) \<and>
    (\<forall>x. tmr_arg (tmr (clock_timers s') x) = tmr_arg (tmr (clock_timers s) x)) \<and>
    (\<forall>e. isokendpt s' e = isokendpt s e) \<and> (\<forall>c d. notified s' c d = notified s c d)"
proof -
  have ll: "locklevel s = 0" using k off by (simp add: kinv_def ksane_def lock_ok_def)
  define s1 where "s1 = with_lock True 1 s"
  have r: "reallock s = Some s1" using off ll by (simp add: reallock_eq s1_def)
  have k1: "kcore s1" unfolding s1_def by (rule kcore_with_lock [OF kinvD(2) [OF k]]) simp_all
  let ?rps = "[- NR_TASKS..NR_PROCS - 1]"
  have val: "\<forall>rp \<in> set ?rps. valid_nr rp" by (simp add: valid_nr_def)
  from balance_loop_inv [OF kcoreD(2) [OF k1] val, of 0] obtain ta s2
    where b: "balance_loop ?rps 0 s1 = Some (ta, s2)" and i2: "runq_inv s2" by blast
  have c1: "char_ok s1" using c by (simp add: s1_def char_ok_def)
  have len: "length ?rps = 104" by (simp add: length_upto)
  from balance_loop_bound [OF b c1 _ _ kcoreD(2) [OF k1] val, of 0] len
  have c2: "char_ok s2" and ta: "\<bar>ta\<bar> \<le> 26520" and sr: "sched_rel s1 s2" by simp_all
  have k2: "kcore s2" using sched_rel_ksane [OF sr] kcoreD(1) [OF k1] i2 by (simp add: kcore_def)
  have v2: "ipcv s2 = ipcv s" using sched_rel_ipcv [OF sr] by (simp add: s1_def)
  have e2: "clock_timers s2 = clock_timers s" "realtime s2 = realtime s" "intr_off s2" "locklevel s2 = 1"
    using sched_view_timers [of s2 s1] sr by (simp_all add: sched_rel_def s1_def with_lock_def)
  define s3 where "s3 = with_lock False 0 s2"
  have s3: "realunlock s2 = Some s3"
    using e2 by (simp add: realunlock_def s3_def with_lock_def Let_def)
  have k3: "kcore s3" unfolding s3_def by (rule kcore_with_lock [OF k2]) simp_all
  have f3: "clock_timers s3 = clock_timers s" "get_uptime s3 = realtime s" "realtime s3 = realtime s" "ipcv s3 = ipcv s" "\<not> intr_off s3"
    using e2 v2 by (simp_all add: s3_def) (simp_all add: with_lock_def get_uptime_def)
  let ?n = "max 100 ta"
  have w: "wrap32 (realtime s + ?n) = realtime s + ?n" using rt ta by (intro wrap32_id) auto
  have q3: "timer_queue (clock_timers s3) xs" using q f3 by simp
  from set_timer_spec [OF q3, of QueueTimer "realtime s + ?n" WD_balance_queues] obtain s'
    where s': "set_timer QueueTimer (realtime s + ?n) WD_balance_queues s3 = Some s'"
      and t': "timers_ok s'" and v': "timer_view s' = timer_view s3"
      and tq: "timer_queue (clock_timers s') (timer_insert (\<lambda>x. tmr_exp_time (tmr (clock_timers s3) x)) QueueTimer
        (realtime s + ?n) (remove1 QueueTimer xs))"
      and e': "tmr_exp_time (tmr (clock_timers s') QueueTimer) = realtime s + ?n"
        "tmr_func (tmr (clock_timers s') QueueTimer) = WD_balance_queues"
      and o': "\<forall>x. x \<noteq> QueueTimer \<longrightarrow> tmr_exp_time (tmr (clock_timers s') x) = tmr_exp_time (tmr (clock_timers s3) x) \<and>
       tmr_func (tmr (clock_timers s') x) = tmr_func (tmr (clock_timers s3) x)"
      and a': "\<forall>x. tmr_arg (tmr (clock_timers s') x) = tmr_arg (tmr (clock_timers s3) x)"
    by blast
  have run: "balance_queues s = Some s'"
    by (simp only: balance_queues_def r b s3 f3(2) w s' Let_def Option.bind.simps prod.case)
  have k': "kinv s'" using kinv_timer_view [OF v'] k3 f3(4) k by (simp add: kinv_alt)
  have iv: "ipcv s' = ipcv s" using kinv_timer_view(2) [OF v'] f3(4) by simp
  have "isokendpt s' e = isokendpt s e" for e by (rule isokendpt_cong [OF k k' iv])
  moreover have "notified s' c d = notified s c d" for c d
  proof -
    have "procs s' = procs s2" "privs s' = privs s2"
      using arg_cong [OF v', of procs] arg_cong [OF v', of privs] by (simp_all add: timer_view_def s3_def)
    moreover have "sched_view s2 = sched_view s1" using sr by (simp add: sched_rel_def)
    note w = sched_view_fields [OF this]
    ultimately show ?thesis by (intro notified_cong) (use w(2,3,10,12,16) in \<open>auto simp: s1_def\<close>)
  qed
  moreover have "\<not> intr_off s'" using f3(5) arg_cong [OF v', of intr_off] by (simp add: timer_view_def)
  moreover have "char_ok s'"
    using c2 arg_cong [OF v', of procs] by (simp add: timer_view_def char_ok_def s3_def)
  moreover have "realtime s' = realtime s" using f3(3) arg_cong [OF v', of realtime] by (simp add: timer_view_def)
  ultimately show ?thesis using run t' tq e' o' a' k' unfolding f3(1) by (intro exI [of _ s'] exI [of _ ?n]) simp
qed

section \<open>Alarms\<close>

lemma RTS_UNSET_char_ok: "RTS_UNSET n f s = Some s' \<Longrightarrow> char_ok s \<Longrightarrow> char_ok s'"
  by (auto simp: RTS_UNSET_def Let_def dest: enqueue_char_ok split: if_splits)

lemma mini_notify_char_ok:
  assumes "mini_notify c e s = Some (r, s')" and "char_ok s"
  shows "char_ok s'"
proof -
  have d: "char_ok (upd_proc d (\<lambda>p. p\<lparr>p_delivermsg := m, p_misc_flags := p_misc_flags p OR MF_DELIVERMSG\<rparr>) s)"
    "char_ok (upd_priv_of d g s)" if "char_ok s" for d m g s
    using that by (auto simp: char_ok_def upd_priv_of_def upd_priv_def)
  show ?thesis
    using assms d RTS_UNSET_char_ok
    by (fastforce simp: mini_notify_def QueueMess_def BuildNotifyMessage_def Let_def opt_simps split: option.splits if_splits)
qed

lemma char_ok_fields [simp]:
  "char_ok (with_lock a b s) = char_ok s" "char_ok (s\<lparr>intr_off := a\<rparr>) = char_ok s"
  "char_ok (s\<lparr>locklevel := b\<rparr>) = char_ok s" "char_ok (s\<lparr>clock_timers := q\<rparr>) = char_ok s"
  by (simp_all add: char_ok_def)

lemma lock_notify_frame:
  assumes n: "lock_notify c e s = Some (r, s')" and k: "kcore s" and off: "\<not> intr_off s" and c: "char_ok s"
  shows "\<not> intr_off s' \<and> char_ok s'"
proof (cases "isokendpt s c")
  case None
  with n off c show ?thesis by (simp add: lock_notify_def)
next
  case (Some d)
  have l0: "locklevel s = 0" using k off by (simp add: kcore_def ksane_def lock_ok_def)
  with n Some off obtain s2 where m: "mini_notify d e (with_lock True 1 s) = Some (r, s2)" and u: "realunlock s2 = Some s'"
    by (auto simp: lock_notify_def reallock_eq opt_simps)
  have "char_ok s2" using mini_notify_char_ok [OF m] c by simp
  moreover have "intr_off s2" "locklevel s2 = 1" using mini_notify_lock [OF m] by simp_all
  ultimately show ?thesis using u by (auto simp: realunlock_def Let_def)
qed

section \<open>Expired timers\<close>

definition no_shutdown :: "(ktimer, watchdog) tmrq \<Rightarrow> bool" where
  "no_shutdown q \<longleftrightarrow> (\<forall>xs. timer_queue q xs \<longrightarrow> (\<forall>x \<in> set xs. tmr_func (tmr q x) \<noteq> WD_shutdown))"

text \<open>
  The invariant of the expiry loop. The uptime leaves room for the longest balancing period, so
  that the time of the next balancing does not wrap around.
\<close>

definition wd_inv :: "int \<Rightarrow> (ktimer, watchdog) tmrq \<Rightarrow> kstate \<Rightarrow> bool" where
  "wd_inv now q s \<longleftrightarrow> kinv s \<and> \<not> intr_off s \<and> char_ok s \<and> realtime s = now \<and> 0 \<le> now \<and> now \<le> 2147456000 \<and> no_shutdown q"

lemma timer_queue_unique: "timer_queue q xs \<Longrightarrow> timer_queue q ys \<Longrightarrow> xs = ys"
  by (auto simp: timer_queue_def intro: chain_unique)

lemma kinv_timers [simp]: "kinv (s\<lparr>clock_timers := q\<rparr>) = kinv s"
  by (simp add: kinv_alt)

lemma due_insert:
  assumes "now < tmr_exp_time (tmr q' tp)" and "\<And>x. x \<noteq> tp \<Longrightarrow> tmr_exp_time (tmr q' x) = tmr_exp_time (tmr q x)"
    and "distinct xs"
  shows "due now q' (timer_insert e tp t (remove1 tp xs)) \<le> due now q xs"
proof -
  let ?P = "\<lambda>q x. tmr_exp_time (tmr q x) \<le> now"
  have "filter (?P q') (timer_insert e tp t zs) = filter (?P q') zs" for zs
  proof -
    have "filter (?P q') (takeWhile (\<lambda>x. e x \<le> t) zs) @ filter (?P q') (dropWhile (\<lambda>x. e x \<le> t) zs) = filter (?P q') zs"
      by (simp flip: filter_append)
    then show ?thesis using assms(1) by (simp add: timer_insert_def)
  qed
  moreover have "filter (?P q') (remove1 tp xs) = filter (?P q) (remove1 tp xs)"
    using assms(2,3) by (intro filter_cong) (auto simp: distinct_remove1_removeAll)
  moreover have "length (filter (?P q) (remove1 tp xs)) \<le> length (filter (?P q) xs)"
    by (induction xs) auto
  ultimately show ?thesis by (simp add: due_def)
qed

text \<open>
  What one watchdog function does. The timers behind the one that expired stay in the queue as they are, but for the
  timer of the balancing, which balancing sets to a later time; endpoints stay valid; whoever has been notified
  by the clock stays notified; and an alarm notifies the process it is for.
\<close>

definition same_timer :: "(ktimer, watchdog) tmrq \<Rightarrow> (ktimer, watchdog) tmrq \<Rightarrow> ktimer \<Rightarrow> bool" where
  "same_timer q q' x \<longleftrightarrow> tmr_exp_time (tmr q' x) = tmr_exp_time (tmr q x) \<and> tmr_func (tmr q' x) = tmr_func (tmr q x) \<and>
     tmr_arg (tmr q' x) = tmr_arg (tmr q x)"

definition rearmed :: "int \<Rightarrow> (ktimer, watchdog) tmrq \<Rightarrow> ktimer list \<Rightarrow> bool" where
  "rearmed now q ys \<longleftrightarrow> QueueTimer \<in> set ys \<and> now + 100 \<le> tmr_exp_time (tmr q QueueTimer) \<and>
     tmr_func (tmr q QueueTimer) = WD_balance_queues"

definition wd_step ::
    "int \<Rightarrow> (ktimer, watchdog) tmrq \<Rightarrow> kstate \<Rightarrow> ktimer \<Rightarrow> ktimer list \<Rightarrow> (ktimer, watchdog) tmrq \<Rightarrow> kstate \<Rightarrow> ktimer list \<Rightarrow> bool" where
  "wd_step now q s tp xs q' s' ys \<longleftrightarrow> wd_inv now q' s' \<and> timer_queue q' ys \<and> due now q' ys \<le> due now (expire_head tp q) xs \<and>
     (\<forall>x \<in> set xs. x \<noteq> QueueTimer \<or> tmr_func (tmr q tp) = WD_cause_alarm \<longrightarrow> x \<in> set ys \<and> same_timer q q' x) \<and>
     (\<forall>e. isokendpt s' e = isokendpt s e) \<and> (\<forall>d. notified s CLOCK d \<longrightarrow> notified s' CLOCK d) \<and>
     (tmr_func (tmr q tp) = WD_cause_alarm \<longrightarrow>
       (\<forall>d. isokendpt s (tmr_arg (tmr q tp)) = Some d \<longrightarrow> notified s' CLOCK d)) \<and>
     (tmr_func (tmr q tp) = WD_balance_queues \<longrightarrow> rearmed now q' ys)"

lemma expire_head_other:
  assumes "timer_queue q (tp # xs)" and "x \<in> set xs"
  shows "same_timer q (expire_head tp q) x"
  using timer_queue_distinct [OF assms(1)] assms(2) by (auto simp: same_timer_def expire_head_def)

lemma run_balance:
  assumes q: "timer_queue q (tp # xs)" and t: "tmr_exp_time (tmr q tp) \<le> now" and i: "wd_inv now q s"
    and b0: "tmr_func (tmr q tp) = WD_balance_queues"
  shows "\<exists>q' s' ys. run_watchdog WD_balance_queues tp (expire_head tp q) s = Some (q', s') \<and> wd_step now q s tp xs q' s' ys"
proof -
  let ?q = "expire_head tp q" and ?s = "s\<lparr>clock_timers := expire_head tp q\<rparr>"
  have f: "tmr_func (tmr ?q x) = tmr_func (tmr q x)" for x by (simp add: expire_head_def)
  have k: "kinv ?s" "\<not> intr_off ?s" "char_ok ?s" "0 \<le> realtime ?s" "realtime ?s \<le> 2147456000" and rt: "realtime s = now"
    using i by (simp_all add: wd_inv_def char_ok_def)
  have tq: "timer_queue (clock_timers ?s) xs" using expire_head_queue(1) [OF q t] by simp
  let ?ys = "\<lambda>n. timer_insert (\<lambda>x. tmr_exp_time (tmr ?q x)) QueueTimer (now + n) (remove1 QueueTimer xs)"
  obtain s' n where b: "balance_queues ?s = Some s'" "kinv s'" "\<not> intr_off s'" "char_ok s'" "realtime s' = now" "100 \<le> n"
    and tq': "timer_queue (clock_timers s') (?ys n)"
    and qt: "tmr_exp_time (tmr (clock_timers s') QueueTimer) = now + n" "tmr_func (tmr (clock_timers s') QueueTimer) = WD_balance_queues"
    and o: "\<And>x. x \<noteq> QueueTimer \<Longrightarrow> tmr_exp_time (tmr (clock_timers s') x) = tmr_exp_time (tmr ?q x) \<and>
       tmr_func (tmr (clock_timers s') x) = tmr_func (tmr ?q x)"
    and a: "\<And>x. tmr_arg (tmr (clock_timers s') x) = tmr_arg (tmr ?q x)"
    and e: "\<And>e. isokendpt s' e = isokendpt s e" and nt: "\<And>c d. notified s' c d = notified s c d"
    using balance_queues_spec [OF k(1) tq k(2,3,4,5)] rt by auto
  have "tmr_func (tmr q x) \<noteq> WD_shutdown" if "x \<in> set xs" for x
    using i q that by (auto simp: wd_inv_def no_shutdown_def)
  then have "tmr_func (tmr (clock_timers s') x) \<noteq> WD_shutdown" if "x \<in> set (?ys n)" for x
    using that qt o f by (cases "x = QueueTimer") (auto dest: notin_set_remove1)
  then have ns: "no_shutdown (clock_timers s')"
    unfolding no_shutdown_def using timer_queue_unique [OF tq'] by blast
  have "due now (clock_timers s') (?ys n) \<le> due now ?q xs"
    using qt b(6) o timer_queue_distinct [OF tq] by (intro due_insert) auto
  moreover have "run_watchdog WD_balance_queues tp ?q s = Some (clock_timers s', s')"
    by (simp add: run_watchdog_def b(1))
  moreover have "wd_inv now (clock_timers s') s'" using b ns i by (simp add: wd_inv_def)
  moreover have "x \<in> set (?ys n) \<and> same_timer q (clock_timers s') x" if "x \<in> set xs" "x \<noteq> QueueTimer" for x
    using that o a expire_head_other [OF q that(1)] by (simp add: same_timer_def in_set_remove1)
  moreover have "rearmed now (clock_timers s') (?ys n)" using qt b(6) by (simp add: rearmed_def)
  ultimately show ?thesis using tq' e nt b0
    by (intro exI [of _ "clock_timers s'"] exI [of _ s'] exI [of _ "?ys n"]) (simp add: wd_step_def)
qed

lemma run_alarm:
  assumes q: "timer_queue q (tp # xs)" and t: "tmr_exp_time (tmr q tp) \<le> now" and i: "wd_inv now q s"
    and b0: "tmr_func (tmr q tp) = WD_cause_alarm" and ck: "isokendpt s CLOCK = Some CLOCK"
  shows "\<exists>q' s' ys. run_watchdog WD_cause_alarm tp (expire_head tp q) s = Some (q', s') \<and> wd_step now q s tp xs q' s' ys"
proof -
  let ?q = "expire_head tp q" and ?s = "s\<lparr>clock_timers := expire_head tp q\<rparr>"
  have f: "tmr_func (tmr ?q x) = tmr_func (tmr q x)" "tmr_arg (tmr ?q x) = tmr_arg (tmr q x)" for x
    by (simp_all add: expire_head_def)
  have k: "kinv ?s" "\<not> intr_off ?s" "char_ok ?s" using i by (simp_all add: wd_inv_def char_ok_def)
  have tq: "timer_queue ?q xs" by (rule expire_head_queue(1) [OF q t])
  obtain r s' where n: "lock_notify CLOCK (tmr_arg (tmr ?q tp)) ?s = Some (r, s')" and k': "kcore s'"
    and m: "maybe_unrecv (ipcv ?s) (ipcv s')"
    using lock_notify_spec [OF kinvD(2) [OF k(1)] k(2)] by blast
  note v = note_view_state [OF lock_notify_note [OF n]]
  have lo: "lock_ok ?s" using k(1) by (simp add: kinv_def ksane_def)
  have ks: "kinv s'" using k' maybe_unrecv_ok [OF m] k(1) by (simp add: kinv_alt)
  moreover have "\<not> intr_off s'" "char_ok s'" using lock_notify_frame [OF n kinvD(2) [OF k(1)] k(2,3)] by blast+
  moreover have "no_shutdown ?q"
    unfolding no_shutdown_def using i q f timer_queue_unique [OF tq] by (auto simp: wd_inv_def no_shutdown_def)
  ultimately have "wd_inv now ?q s'" using v(3) i by (simp add: wd_inv_def)
  moreover have "run_watchdog WD_cause_alarm tp ?q s = Some (?q, s')"
    using n v(4) by (simp add: run_watchdog_def cause_alarm_def)
  moreover have "isokendpt s' e = isokendpt s e" for e
    using isokendpt_view [OF kinvD(1) [OF ks], of e] isokendpt_view [OF kinvD(1) [OF k(1)], of e] maybe_unrecv_sel [OF m] by simp
  moreover have "notified s' CLOCK d" if "isokendpt s (tmr_arg (tmr q tp)) = Some d \<or> notified s CLOCK d" for d
    using lock_notify_notifies [OF n _ lo] ck that by (auto simp: f)
  ultimately show ?thesis using tq b0 expire_head_other [OF q]
    by (intro exI [of _ ?q] exI [of _ s'] exI [of _ xs]) (simp add: wd_step_def)
qed

text \<open>
  What is tracked through the loop: the alarms \<open>J\<close> (timer, endpoint and process) that are due are still in the queue, or
  their process has been notified; a balancing that is due is still in the queue, or its timer has been set anew; the
  timers \<open>K\<close> that are not due stay.
\<close>

definition alarm_tracked :: "int \<Rightarrow> (ktimer, watchdog) tmrq \<Rightarrow> kstate \<Rightarrow> ktimer list \<Rightarrow> ktimer \<Rightarrow> int \<Rightarrow> int \<Rightarrow> bool" where
  "alarm_tracked now q s xs x a d \<longleftrightarrow> x \<noteq> QueueTimer \<and> isokendpt s a = Some d \<and>
     (x \<in> set xs \<and> tmr_func (tmr q x) = WD_cause_alarm \<and> tmr_arg (tmr q x) = a \<and> tmr_exp_time (tmr q x) \<le> now \<or>
      notified s CLOCK d)"

definition balance_tracked :: "int \<Rightarrow> (ktimer, watchdog) tmrq \<Rightarrow> ktimer list \<Rightarrow> bool" where
  "balance_tracked now q xs \<longleftrightarrow>
     (\<exists>x \<in> set xs. tmr_func (tmr q x) = WD_balance_queues \<and> tmr_exp_time (tmr q x) \<le> now) \<or> rearmed now q xs"

definition later_tracked :: "int \<Rightarrow> (ktimer, watchdog) tmrq \<Rightarrow> (ktimer, watchdog) tmrq \<Rightarrow> ktimer list \<Rightarrow> ktimer \<Rightarrow> bool" where
  "later_tracked now q0 q xs x \<longleftrightarrow> x \<noteq> QueueTimer \<and> x \<in> set xs \<and> same_timer q0 q x \<and> now < tmr_exp_time (tmr q x)"

definition wd_track ::
    "int \<Rightarrow> (ktimer \<times> int \<times> int) set \<Rightarrow> bool \<Rightarrow> (ktimer, watchdog) tmrq \<Rightarrow> ktimer set \<Rightarrow> (ktimer, watchdog) tmrq \<Rightarrow> kstate \<Rightarrow> bool" where
  "wd_track now J B q0 K q s \<longleftrightarrow> wd_inv now q s \<and> isokendpt s CLOCK = Some CLOCK \<and>
     (\<forall>xs. timer_queue q xs \<longrightarrow> (\<forall>x a d. (x, a, d) \<in> J \<longrightarrow> alarm_tracked now q s xs x a d) \<and>
       (B \<longrightarrow> balance_tracked now q xs) \<and> (\<forall>x \<in> K. later_tracked now q0 q xs x))"

lemma wd_track_step:
  assumes w: "wd_track now J B q0 K q s" and q: "timer_queue q (tp # xs)" and t: "tmr_exp_time (tmr q tp) \<le> now"
    and st: "wd_step now q s tp xs q' s' ys" and f: "tmr_func (tmr q tp) \<noteq> WD_shutdown"
  shows "wd_track now J B q0 K q' s'"
proof -
  have J: "\<And>x a d. (x, a, d) \<in> J \<Longrightarrow> alarm_tracked now q s (tp # xs) x a d"
    and B: "B \<Longrightarrow> balance_tracked now q (tp # xs)" and K: "\<And>x. x \<in> K \<Longrightarrow> later_tracked now q0 q (tp # xs) x"
    and ck: "isokendpt s CLOCK = Some CLOCK"
    using w q unfolding wd_track_def by blast+
  have s1: "wd_inv now q' s'" "timer_queue q' ys" "\<And>e. isokendpt s' e = isokendpt s e" "\<And>d. notified s CLOCK d \<Longrightarrow> notified s' CLOCK d"
    and keep: "\<And>x. x \<in> set xs \<Longrightarrow> x \<noteq> QueueTimer \<or> tmr_func (tmr q tp) = WD_cause_alarm \<Longrightarrow> x \<in> set ys \<and> same_timer q q' x"
    and al: "\<And>d. tmr_func (tmr q tp) = WD_cause_alarm \<Longrightarrow> isokendpt s (tmr_arg (tmr q tp)) = Some d \<Longrightarrow> notified s' CLOCK d"
    and ba: "tmr_func (tmr q tp) = WD_balance_queues \<Longrightarrow> rearmed now q' ys"
    using st unfolding wd_step_def by blast+
  have "alarm_tracked now q' s' ys x a d" if j: "(x, a, d) \<in> J" for x a d
    using J [OF j] al s1(3,4) keep [of x] by (cases "x = tp") (auto simp: alarm_tracked_def same_timer_def)
  moreover have "balance_tracked now q' ys" if B
  proof (cases "tmr_func (tmr q tp)")
    case WD_cause_alarm
    then have "x \<in> set ys \<and> same_timer q q' x" if "x \<in> set xs" for x using keep that by blast
    then show ?thesis using B [OF that] t WD_cause_alarm by (fastforce simp: balance_tracked_def rearmed_def same_timer_def)
  qed (use ba f in \<open>auto simp: balance_tracked_def\<close>)
  moreover have "later_tracked now q0 q' ys x" if x: "x \<in> K" for x
    using K [OF x] t keep [of x] by (cases "x = tp") (auto simp: later_tracked_def same_timer_def)
  ultimately show ?thesis unfolding wd_track_def using s1 ck timer_queue_unique [OF s1(2)] by metis
qed

interpretation kclock: watchdogs run_watchdog now "wd_track now J B q0 K" for now J B q0 K
proof
  fix q :: "(ktimer, watchdog) tmrq" and tp xs and s :: kstate
  assume a: "timer_queue q (tp # xs)" "tmr_exp_time (tmr q tp) \<le> now" and w: "wd_track now J B q0 K q s"
  have i: "wd_inv now q s" and ck: "isokendpt s CLOCK = Some CLOCK" using w by (simp_all add: wd_track_def)
  have f: "tmr_func (tmr q tp) \<noteq> WD_shutdown" using a(1) i by (auto simp: wd_inv_def no_shutdown_def)
  then obtain q' s' ys where r: "run_watchdog (tmr_func (tmr q tp)) tp (expire_head tp q) s = Some (q', s')"
    and st: "wd_step now q s tp xs q' s' ys"
    using run_balance [OF a i] run_alarm [OF a i _ ck] by (cases "tmr_func (tmr q tp)") metis+
  from r st wd_track_step [OF w a st f]
  show "\<exists>q' c' ys. run_watchdog (tmr_func (tmr q tp)) tp (expire_head tp q) s = Some (q', c') \<and> wd_track now J B q0 K q' c' \<and>
      timer_queue q' ys \<and> due now q' ys \<le> due now (expire_head tp q) xs"
    unfolding wd_step_def by blast
qed

section \<open>The timer interrupt with the notification of the clock task\<close>

lemma tick_ok_note:
  assumes "tick_ok s" and k: "kinv s'" and v: "note_view s' = note_view s" and l: "\<forall>m. live s' m = live s m"
  shows "tick_ok s'"
proof -
  have "live s' (bill_ptr s)" using assms(1) l unfolding tick_ok_def by blast
  then show ?thesis
    using assms(1) k note_view_state(2) [OF v] note_view_procs(9) [OF v, of VTIMERS PM_PROC_NR]
    by (simp add: tick_ok_def)
qed

lemma bsp_timer_spec:
  assumes t: "tick_ok s" and h: "live s HARDWARE" and c: "live s CLOCK" "p_endpoint (procs s CLOCK) = CLOCK" and np: "\<not> kernel_in_panic s"
  shows "\<exists>s'. bsp_timer_int_handler s = Some (1, s') \<and> tick_ok s' \<and> proc_ptr s' = proc_ptr s \<and>
    realtime s' = wrap32 (realtime s + uwrap32 (lost_ticks s + 1)) \<and> lost_ticks s' = 0 \<and>
    clock_timers s' = clock_timers s \<and> next_timeout s' = next_timeout s \<and>
    p_user_time (procs s' (proc_ptr s)) = wrap32 (p_user_time (procs s (proc_ptr s)) + 1) \<and>
    (next_timeout s \<le> realtime s' \<longrightarrow> notified s' HARDWARE CLOCK)"
proof -
  let ?rt = "wrap32 (realtime s + uwrap32 (lost_ticks s + 1))"
  let ?p = "proc_ptr s"
  define s1 where "s1 = s\<lparr>lost_ticks := 0, realtime := ?rt\<rparr>"
  have t1: "tick_ok s1" using t by (simp add: s1_def tick_ok_def kinv_alt)
  obtain s2 where a: "ap_timer_int_handler s1 = Some (1, s2)" and t2: "tick_ok s2"
    and e2: "proc_ptr s2 = ?p" "realtime s2 = ?rt" "clock_timers s2 = clock_timers s" "next_timeout s2 = next_timeout s"
      "lost_ticks s2 = 0" "\<forall>m. live s2 m = live s m" "p_endpoint (procs s2 CLOCK) = CLOCK"
      "p_user_time (procs s2 ?p) = wrap32 (p_user_time (procs s ?p) + 1)"
    using ap_timer_int_handler_spec [OF t1] c(2) by (auto simp: s1_def)
  have k2: "kinv s2" using t2 by (simp add: tick_ok_def)
  have run: "bsp_timer_int_handler s = Option.bind
      (if next_timeout s2 \<le> realtime s2 then map_option snd (mini_notify HARDWARE CLOCK s2) else Some s2) (\<lambda>s3. Some (1, s3))"
    using np by (simp add: bsp_timer_int_handler_def Let_def a flip: s1_def)
  show ?thesis
  proof (cases "next_timeout s2 \<le> realtime s2")
    case False
    with run t2 e2 show ?thesis by auto
  next
    case True
    have "live s2 HARDWARE" using e2(6) h by blast
    from mini_notify_spec [OF kinvD(2) [OF k2] this, of CLOCK] obtain r s3 where n: "mini_notify HARDWARE CLOCK s2 = Some (r, s3)"
      and k3: "kcore s3" and m: "maybe_unrecv (ipcv s2) (ipcv s3)" by blast
    have k3': "kinv s3" using k3 maybe_unrecv_ok [OF m] k2 by (simp add: kinv_alt)
    have l3: "\<forall>q. live s3 q = live s2 q" unfolding live_view using maybe_unrecv_sel(1) [OF m] by simp
    note v = mini_notify_note [OF n]
    have "live s2 CLOCK" using e2(6) c(1) by blast
    then have "isokendpt s2 CLOCK = Some CLOCK"
      using isokendpt_view [OF kinvD(1) [OF k2], of CLOCK] e2(7) ENDPOINT_P_small [of CLOCK]
      by (simp add: ipcv_sel flip: ipcv_sel)
    from mini_notify_notified [OF n this] have "notified s3 HARDWARE CLOCK" .
    with run True n tick_ok_note [OF t2 k3' v l3] e2 note_view_state [OF v] note_view_procs(3) [OF v, of ?p]
    show ?thesis by simp
  qed
qed

section \<open>Properties of the clock\<close>

text \<open>
  C11. The timer interrupt is safe and exact. If the billable process is alive and the process
  manager has no virtual timer, the handler returns with the kernel invariant kept; the
  uptime advances by the lost ticks and one, which are then no longer owed; the current process
  is charged one tick; and if the first timer is due, the clock task has been notified, either
  by a message on its way or by a pending notification.
\<close>

theorem timer_tick_safe:
  assumes "tick_ok s" and "live s HARDWARE" and "live s CLOCK" and "p_endpoint (procs s CLOCK) = CLOCK"
    and "\<not> kernel_in_panic s"
  shows "\<exists>s'. bsp_timer_int_handler s = Some (1, s') \<and> tick_ok s' \<and>
    realtime s' = wrap32 (realtime s + uwrap32 (lost_ticks s + 1)) \<and> lost_ticks s' = 0 \<and>
    p_user_time (procs s' (proc_ptr s)) = wrap32 (p_user_time (procs s (proc_ptr s)) + 1) \<and>
    (next_timeout s \<le> realtime s' \<longrightarrow> notified s' HARDWARE CLOCK)"
  using bsp_timer_spec [OF assms] by blast

lemma sample_tick_ok: "tick_ok sample" "live sample HARDWARE" "live sample CLOCK" "char_ok sample"
  "p_endpoint (procs sample CLOCK) = CLOCK" "\<not> kernel_in_panic sample"
  using sample_kinv by (simp_all add: tick_ok_def char_ok_def sample_def sample_proc_def valid_nr_def)

theorem timer_tick_safe_witness:
  "tick_ok sample \<and> (\<exists>s'. bsp_timer_int_handler sample = Some (1, s') \<and> realtime s' = 1 \<and> tick_ok s')"
proof -
  have "realtime sample = 0" "lost_ticks sample = 0" by (simp_all add: sample_def)
  then show ?thesis
    using timer_tick_safe [OF sample_tick_ok(1,2,3,5,6)] sample_tick_ok(1) by (auto simp: uwrap32_id wrap32_id)
qed

text \<open>
  C29. The quantum is enforced and virtual timers fire. After a timer interrupt a preemptible
  current process that is still runnable has ticks left. A virtual or profile timer of the current or of
  the billable process that the tick brings to zero has been stopped and its signal caused: \<^verbatim>\<open>SIGVTALRM\<close> or
  \<^verbatim>\<open>SIGPROF\<close> is pending, and the process is stopped for it unless the signal was pending before. A timer with
  time left runs on with exactly the rest: the virtual timer of the current process is charged one tick, the profile
  timer of the current process one, and that of the billable process one if it is billed for the current one.
\<close>

theorem quantum_enforced:
  assumes "tick_ok s"
  shows "\<exists>s'. ap_timer_int_handler s = Some (1, s') \<and> kinv s' \<and>
    (p_rts_flags (procs s' (proc_ptr s)) = 0 \<longrightarrow> has_any (s_flags (priv_of s' (proc_ptr s))) PREEMPTIBLE \<longrightarrow>
       0 < p_ticks_left (procs s' (proc_ptr s))) \<and>
    \<not> vt_expired s' (proc_ptr s) \<and> \<not> vt_expired s' (bill_ptr s) \<and>
    ticked s s' (proc_ptr s) \<and> ticked s s' (bill_ptr s)"
  using ap_timer_int_handler_spec [OF assms] fired_ticked assms unfolding tick_ok_def by blast

text \<open>The user process is running, with one tick left on its virtual timer and three on its profile timer.\<close>

definition sample_vt :: kstate where
  "sample_vt = (upd_proc 11 (\<lambda>p. p\<lparr>p_misc_flags := VTIMERS, p_virt_left := 1, p_prof_left := 3\<rparr>) sample)
     \<lparr>proc_ptr := 11, bill_ptr := 11\<rparr>"

lemma sample_vt_procs:
  "procs sample_vt n = (if n = 11 then (procs sample 11)\<lparr>p_misc_flags := VTIMERS, p_virt_left := 1, p_prof_left := 3\<rparr> else procs sample n)"
  "proc_ptr sample_vt = 11" "bill_ptr sample_vt = 11"
  by (simp_all add: sample_vt_def)

lemma kinv_current:
  assumes k: "kinv s" and l: "live s n"
  shows "kinv (s\<lparr>proc_ptr := n, bill_ptr := b\<rparr>)"
proof -
  let ?s = "s\<lparr>proc_ptr := n, bill_ptr := b\<rparr>"
  have g: "procs ?s = procs s" "privs ?s = privs s" "rdy_head ?s = rdy_head s" "rdy_tail ?s = rdy_tail s" "proc_ptr ?s = n"
    "intr_off ?s = intr_off s" "locklevel ?s = locklevel s" "ipcv ?s = ipcv s"
    by (simp_all add: ipcv_def fun_eq_iff)
  have "runq_inv s" "ksane s" using k by (simp_all add: kinv_def)
  then have "runq_inv ?s" "ksane ?s"
    using l unfolding runq_inv_def queues_def runnables_def prio_ok_def ksane_def free_ok_def tables_ok_def pm_ok_def lock_ok_def
      priv_of_def g by blast+
  then show ?thesis using k by (simp only: kinv_def g)
qed

lemma sample_vt_ok: "tick_ok sample_vt"
proof -
  let ?t = "upd_proc 11 (\<lambda>p. p\<lparr>p_misc_flags := VTIMERS, p_virt_left := 1, p_prof_left := 3\<rparr>) sample"
  have t: "kinv ?t" by (rule quiet_kinv [OF sample_kinv]) (simp_all add: quiet_def ipcp_def)
  have l: "live ?t 11" by (simp add: sample_def sample_proc_def valid_nr_def)
  have "kinv sample_vt" unfolding sample_vt_def by (rule kinv_current [OF t l])
  then show ?thesis
    unfolding tick_ok_def sample_vt_procs using l by (simp add: sample_def sample_proc_def)
qed

theorem quantum_enforced_witness:
  "tick_ok sample_vt \<and> (\<exists>s'. ap_timer_int_handler sample_vt = Some (1, s') \<and>
     \<not> has_any (p_misc_flags (procs s' 11)) MF_VIRT_TIMER \<and> has_any (p_pending (procs s' 11)) (sig_bit SIGVTALRM) \<and>
     has_any (p_rts_flags (procs s' 11)) RTS_SIGNALED \<and>
     has_any (p_misc_flags (procs s' 11)) MF_PROF_TIMER \<and> p_prof_left (procs s' 11) = prof_after sample_vt 11)"
proof -
  obtain s' where a: "ap_timer_int_handler sample_vt = Some (1, s')" and k: "ticked sample_vt s' 11"
    using quantum_enforced [OF sample_vt_ok] unfolding sample_vt_procs by blast
  have v: "virt_after sample_vt 11 \<le> 0" by (simp add: virt_after_def sample_vt_procs wrap32_id)
  have p: "0 < prof_after sample_vt 11" by (simp add: prof_after_def sample_vt_procs wrap32_id Let_def)
  have f: "has_any (p_misc_flags (procs sample_vt 11)) MF_VIRT_TIMER" "has_any (p_misc_flags (procs sample_vt 11)) MF_PROF_TIMER"
    "\<not> has_any (p_pending (procs sample_vt 11)) b" for b
    by (simp_all add: sample_vt_procs) (simp add: sample_def sample_proc_def)
  show ?thesis using a k v p f sample_vt_ok unfolding ticked_def caused_def by auto
qed

text \<open>
  C12. The clock task does its work and comes back. Given a notification from the hardware, it
  runs the watchdogs of all expired timers, and this ends although balancing re-arms its own timer. Afterwards
  every alarm that was due (a timer other than the one of the balancing, with \<^verbatim>\<open>cause_alarm\<close> as its function) has notified
  the process its argument names, by a message on its way or by a pending notification from the clock task; if the balancing
  was due, its timer is queued again for at least 100 ticks later; every timer that was not due is still queued, with its
  time, function and argument; every queued timer lies in the future, the recorded next timeout is the first of them, and
  the kernel invariant holds.
\<close>

theorem clock_task_expires:
  assumes "wd_inv (realtime s) (clock_timers s) s" and "timer_queue (clock_timers s) xs"
    and "is_notify (m_type m)" and "ENDPOINT_P (m_source m) = HARDWARE" and "isokendpt s CLOCK = Some CLOCK"
  shows "\<exists>s' zs. clock_task m s = Some s' \<and> kinv s' \<and> timers_ok s' \<and> realtime s' = realtime s \<and>
    timer_queue (clock_timers s') zs \<and> (\<forall>x \<in> set zs. realtime s < tmr_exp_time (tmr (clock_timers s') x)) \<and>
    (\<forall>x \<in> set xs. \<forall>d. x \<noteq> QueueTimer \<and> tmr_exp_time (tmr (clock_timers s) x) \<le> realtime s \<and>
      tmr_func (tmr (clock_timers s) x) = WD_cause_alarm \<and> isokendpt s (tmr_arg (tmr (clock_timers s) x)) = Some d \<longrightarrow>
      notified s' CLOCK d) \<and>
    (\<forall>x \<in> set xs. tmr_exp_time (tmr (clock_timers s) x) \<le> realtime s \<and>
      tmr_func (tmr (clock_timers s) x) = WD_balance_queues \<longrightarrow> rearmed (realtime s) (clock_timers s') zs) \<and>
    (\<forall>x \<in> set xs. x \<noteq> QueueTimer \<and> realtime s < tmr_exp_time (tmr (clock_timers s) x) \<longrightarrow>
      x \<in> set zs \<and> same_timer (clock_timers s) (clock_timers s') x)"
proof -
  let ?now = "realtime s" and ?q = "clock_timers s"
  define J where "J = {(x, a, d). x \<in> set xs \<and> x \<noteq> QueueTimer \<and> tmr_exp_time (tmr ?q x) \<le> ?now \<and>
    tmr_func (tmr ?q x) = WD_cause_alarm \<and> a = tmr_arg (tmr ?q x) \<and> isokendpt s a = Some d}"
  define B where "B \<longleftrightarrow> (\<exists>x \<in> set xs. tmr_exp_time (tmr ?q x) \<le> ?now \<and> tmr_func (tmr ?q x) = WD_balance_queues)"
  define K where "K = {x \<in> set xs. x \<noteq> QueueTimer \<and> ?now < tmr_exp_time (tmr ?q x)}"
  have "wd_track ?now J B ?q K ?q s"
    unfolding wd_track_def using assms(1,5) timer_queue_unique [OF assms(2)]
    by (auto simp: alarm_tracked_def balance_tracked_def later_tracked_def same_timer_def J_def B_def K_def)
  then obtain q' c zs where r: "tmrs_exptimers run_watchdog ?now ?q s = Some (tmrs_head_time q', q', c)"
    and w: "wd_track ?now J B ?q K q' c" and q: "timer_queue q' zs" and z: "\<forall>x \<in> set zs. ?now < tmr_exp_time (tmr q' x)"
    using kclock.exptimers_ends [OF assms(2)] by blast
  have i: "wd_inv ?now q' c" and Jd: "\<And>x a d. (x, a, d) \<in> J \<Longrightarrow> alarm_tracked ?now q' c zs x a d"
    and Bd: "B \<Longrightarrow> balance_tracked ?now q' zs" and Kd: "\<And>x. x \<in> K \<Longrightarrow> later_tracked ?now ?q q' zs x"
    using w q unfolding wd_track_def by blast+
  let ?t = "c\<lparr>clock_timers := q', next_timeout := (case tmrs q' of None \<Rightarrow> TMR_NEVER | Some h \<Rightarrow> tmr_exp_time (tmr q' h))\<rparr>"
  have "clock_task m s = Some ?t" using assms(3,4) by (simp add: clock_task_def r)
  moreover have "kinv ?t" "realtime ?t = ?now" using i by (simp_all add: wd_inv_def kinv_alt)
  moreover have "timers_ok ?t"
    using q timer_queue_chain [OF q] by (auto simp: timers_ok_def intro!: exI [of _ zs] split: list.splits)
  moreover have "notified ?t CLOCK d" if "(x, a, d) \<in> J" for x a d
    using Jd [OF that] z by (force simp: alarm_tracked_def)
  moreover have "rearmed ?now q' zs" if B using Bd [OF that] z by (force simp: balance_tracked_def)
  moreover have "x \<in> set zs \<and> same_timer ?q q' x" if "x \<in> K" for x using Kd [OF that] by (simp add: later_tracked_def)
  ultimately show ?thesis using q z unfolding J_def B_def K_def
    by (intro exI [of _ ?t] exI [of _ zs] conjI) (auto simp: kinv_alt)
qed

text \<open>The sample system with an overdue balancing timer, an overdue alarm for the memory manager and one that is not due.\<close>

definition sample_due :: kstate where
  "sample_due = sample\<lparr>clock_timers := \<lparr>tmrs = Some QueueTimer, tmr = (\<lambda>t.
     if t = QueueTimer then \<lparr>tmr_next = Some (Alarm 5), tmr_exp_time = 5, tmr_func = WD_balance_queues, tmr_arg = 0\<rparr>
     else if t = Alarm 5 then \<lparr>tmr_next = Some (Alarm 4), tmr_exp_time = 6, tmr_func = WD_cause_alarm, tmr_arg = 1\<rparr>
     else \<lparr>tmr_next = None, tmr_exp_time = 50, tmr_func = WD_cause_alarm, tmr_arg = 0\<rparr>)\<rparr>, realtime := 7, next_timeout := 5\<rparr>"

lemma sample_due_queue: "timer_queue (clock_timers sample_due) [QueueTimer, Alarm 5, Alarm 4]"
  by (simp add: sample_due_def timer_queue_def)

lemma sample_due_inv: "wd_inv 7 (clock_timers sample_due) sample_due"
proof -
  have "kinv sample_due" using sample_kinv by (simp add: sample_due_def kinv_alt)
  moreover have "no_shutdown (clock_timers sample_due)" by (simp add: no_shutdown_def sample_due_def)
  moreover have "char_ok sample_due" using sample_tick_ok(4) by (simp add: char_ok_def sample_due_def)
  ultimately show ?thesis by (simp add: wd_inv_def sample_due_def sample_def)
qed

theorem clock_task_expires_witness:
  "\<exists>s' zs. clock_task (msg0\<lparr>m_source := HARDWARE, m_type := 0x1003\<rparr>) sample_due = Some s' \<and> kinv s' \<and>
     timer_queue (clock_timers s') zs \<and> notified s' CLOCK 1 \<and> rearmed 7 (clock_timers s') zs \<and> Alarm 4 \<in> set zs"
proof -
  have rt: "realtime sample_due = 7" by (simp add: sample_due_def)
  have i: "wd_inv (realtime sample_due) (clock_timers sample_due) sample_due"
    unfolding rt by (rule sample_due_inv)
  have n: "is_notify (m_type (msg0\<lparr>m_source := HARDWARE, m_type := 0x1003\<rparr>))" by (simp add: is_notify_def)
  have h: "ENDPOINT_P (m_source (msg0\<lparr>m_source := HARDWARE, m_type := 0x1003\<rparr>)) = HARDWARE"
    using ENDPOINT_P_small [of HARDWARE] by (simp add: valid_nr_def)
  have k: "kinv sample_due" using sample_due_inv by (simp add: wd_inv_def)
  have iv: "ipcv sample_due = ipcv sample" by (simp add: sample_due_def)
  have c: "isokendpt sample_due CLOCK = Some CLOCK" "isokendpt sample_due 1 = Some 1"
    using isokendpt_view [OF kinvD(1) [OF k]] ENDPOINT_P_small [of CLOCK] ENDPOINT_P_small [of 1]
    by (simp_all add: iv sample_ipcv valid_nr_def)
  have t: "tmr_exp_time (tmr (clock_timers sample_due) QueueTimer) = 5" "tmr_func (tmr (clock_timers sample_due) QueueTimer) = WD_balance_queues"
    "tmr_exp_time (tmr (clock_timers sample_due) (Alarm 5)) = 6" "tmr_func (tmr (clock_timers sample_due) (Alarm 5)) = WD_cause_alarm"
    "tmr_arg (tmr (clock_timers sample_due) (Alarm 5)) = 1" "tmr_exp_time (tmr (clock_timers sample_due) (Alarm 4)) = 50"
    by (simp_all add: sample_due_def)
  show ?thesis
    using clock_task_expires [OF i sample_due_queue n h c(1)] unfolding rt by (force simp: t c)
qed

text \<open>
  The load average counts what it says: a load update adds the number of runnable processes
  to the slot of the current period, which it clears when the period begins; the slot is an index
  of the history table.
\<close>

lemma load_update_counts:
  assumes "kinv s" and "0 < system_hz s"
  shows "\<exists>s'. load_update s = Some s' \<and> kinv s' \<and> 0 \<le> proc_last_slot s' \<and> proc_last_slot s' < LOAD_HISTORY \<and>
    proc_load_history s' = (proc_load_history s)(proc_last_slot s' :=
      uwrap16 ((if proc_last_slot s' = proc_last_slot s then proc_load_history s (proc_last_slot s') else 0) +
        int (card (runnables s))))"
proof -
  let ?l = "uwrap32 (realtime s) div system_hz s div LOAD_UNIT_SECS mod LOAD_HISTORY"
  have "0 \<le> ?l" "?l < LOAD_HISTORY" by simp_all
  moreover from this have "uwrap16 ?l = ?l" by (intro uwrap16_id) auto
  ultimately show ?thesis using load_update_spec [OF assms(1)] by auto
qed

lemma load_update_counts_witness:
  "kinv sample \<and> (\<exists>s'. load_update sample = Some s' \<and> proc_last_slot s' < 150)"
  using load_update_counts [OF sample_kinv] sample_kinv by (auto simp: sample_def)

end
