(* ===== verification/Kernel_Irq.thy ===== *)
theory Kernel_Irq
  imports Kernel_Clock_Props
begin

text \<open>
  Hardware interrupts, \<^verbatim>\<open>kernel/interrupt.c\<close> and \<^verbatim>\<open>kernel/system/do_irqctl.c\<close>: the list of hooks of
  each interrupt line, the dispatch of an interrupt to the hooked handlers, and the kernel call
  by which drivers hook interrupts. A pointer to a hook is its index in \<^verbatim>\<open>irq_hooks\<close>; index
  \<^verbatim>\<open>NR_IRQ_HOOKS\<close> stands for the hook of the clock, which is a variable of its own. The interrupt
  controller is seen as the set of masked lines.
\<close>

abbreviation (input) NR_IRQ_VECTORS :: int where "NR_IRQ_VECTORS \<equiv> 16"
abbreviation (input) NR_IRQ_HOOKS :: int where "NR_IRQ_HOOKS \<equiv> 16"

abbreviation (input) IRQ_SETPOLICY :: int where "IRQ_SETPOLICY \<equiv> 1"
abbreviation (input) IRQ_RMPOLICY :: int where "IRQ_RMPOLICY \<equiv> 2"
abbreviation (input) IRQ_ENABLE :: int where "IRQ_ENABLE \<equiv> 3"
abbreviation (input) IRQ_DISABLE :: int where "IRQ_DISABLE \<equiv> 4"
abbreviation (input) IRQ_REENABLE :: "32 word" where "IRQ_REENABLE \<equiv> 1"

section \<open>Hooks and lines\<close>

definition upd_hook :: "int \<Rightarrow> (irq_hook \<Rightarrow> irq_hook) \<Rightarrow> kstate \<Rightarrow> kstate" where
  "upd_hook h f s = s\<lparr>irq_hooks := (irq_hooks s)(h := f (irq_hooks s h))\<rparr>"

abbreviation hook_nexts :: "kstate \<Rightarrow> int \<Rightarrow> int option" where
  "hook_nexts s x \<equiv> h_next (irq_hooks s x)"

definition set_hook_next :: "int \<Rightarrow> int option \<Rightarrow> kstate \<Rightarrow> kstate" where
  "set_hook_next x v s = upd_hook x (\<lambda>h. h\<lparr>h_next := v\<rparr>) s"

definition set_line :: "int \<Rightarrow> int option \<Rightarrow> kstate \<Rightarrow> kstate" where
  "set_line q v s = s\<lparr>irq_handlers := (irq_handlers s)(q := v)\<rparr>"

definition upd_actids :: "int \<Rightarrow> (32 word \<Rightarrow> 32 word) \<Rightarrow> kstate \<Rightarrow> kstate" where
  "upd_actids irq f s = s\<lparr>irq_actids := (irq_actids s)(irq := f (irq_actids s irq))\<rparr>"

definition hw_intr_mask :: "int \<Rightarrow> kstate \<Rightarrow> kstate" where
  "hw_intr_mask irq s = s\<lparr>irq_masked := (irq_masked s)(irq := True)\<rparr>"

definition hw_intr_unmask :: "int \<Rightarrow> kstate \<Rightarrow> kstate" where
  "hw_intr_unmask irq s = s\<lparr>irq_masked := (irq_masked s)(irq := False)\<rparr>"

definition enable_irq :: "int \<Rightarrow> kstate \<Rightarrow> kstate" where
  "enable_irq hook s =
     (let irq = h_irq (irq_hooks s hook);
          s1 = upd_actids irq (\<lambda>a. a AND NOT (h_id (irq_hooks s hook))) s
      in if irq_actids s1 irq = 0 then hw_intr_unmask irq s1 else s1)"

definition disable_irq :: "int \<Rightarrow> kstate \<Rightarrow> int \<times> kstate" where
  "disable_irq hook s =
     (let irq = h_irq (irq_hooks s hook); i = h_id (irq_hooks s hook)
      in if has_any (irq_actids s irq) i then (0, s)
         else (1, hw_intr_mask irq (upd_actids irq (\<lambda>a. a OR i) s)))"

text \<open>
  The walk of \<^verbatim>\<open>put_irq_handler\<close> to the end of the line, collecting the ids in use; it stops early
  when the hook is already there.
\<close>

partial_function (option) irq_scan ::
    "(int \<Rightarrow> int option) \<Rightarrow> (int \<Rightarrow> 32 word) \<Rightarrow> int \<Rightarrow> int option \<Rightarrow> int cell \<Rightarrow> 32 word \<Rightarrow> (int cell \<times> 32 word) option option" where
  "irq_scan nx ids hook h line bitmap =
     (case cell_rd nx h line of
        None \<Rightarrow> Some (Some (line, bitmap))
      | Some x \<Rightarrow> if hook = x then Some None else irq_scan nx ids hook h (Next x) (bitmap OR ids x))"

text \<open>The lowest id not in use, a word with one bit set; none when all are taken.\<close>

definition free_id :: "32 word \<Rightarrow> 32 word option" where
  "free_id bitmap = map_option (\<lambda>i. push_bit i 1) (find (\<lambda>i. \<not> bit bitmap i) [0..<32])"

definition put_irq_handler :: "int \<Rightarrow> int \<Rightarrow> irq_handler \<Rightarrow> kstate \<Rightarrow> kstate option" where
  "put_irq_handler hook irq handler s =
     (if irq < 0 \<or> irq \<ge> NR_IRQ_VECTORS then None
      else do {
        r \<leftarrow> irq_scan (hook_nexts s) (\<lambda>x. h_id (irq_hooks s x)) hook (irq_handlers s irq) Head 0;
        case r of
          None \<Rightarrow> Some s
        | Some (line, bitmap) \<Rightarrow> do {
            i \<leftarrow> free_id bitmap;
            let s1 = upd_hook hook (\<lambda>h. h\<lparr>h_next := None, h_handler := handler, h_irq := irq, h_id := i\<rparr>) s;
            let s2 = cell_wr (set_line irq) set_hook_next line (Some hook) s1;
            let s3 = s2\<lparr>irq_use := irq_use s2 OR push_bit (nat irq) 1\<rparr>;
            let s4 = upd_actids irq (\<lambda>a. a AND NOT i) s3;
            Some (if irq_actids s4 irq = 0 then hw_intr_unmask irq s4 else s4)
          }
      })"

definition rm_irq_handler :: "int \<Rightarrow> kstate \<Rightarrow> kstate option" where
  "rm_irq_handler hook s = do {
     let irq = h_irq (irq_hooks s hook);
     let i = h_id (irq_hooks s hook);
     if irq < 0 \<or> irq \<ge> NR_IRQ_VECTORS then None
     else do {
       let s1 = hw_intr_mask irq (upd_actids irq (\<lambda>a. a OR i) s);
       line \<leftarrow> walk (\<lambda>x. h_id (irq_hooks s1 x) = i) (hook_nexts s1) (irq_handlers s1 irq) Head;
       case cell_rd (hook_nexts s1) (irq_handlers s1 irq) line of
         None \<Rightarrow> Some s1
       | Some x \<Rightarrow>
           (let s2 = cell_wr (set_line irq) set_hook_next line (hook_nexts s1 x) s1;
                s3 = (if irq_handlers s2 irq = None
                      then s2\<lparr>irq_use := irq_use s2 AND NOT (push_bit (nat irq) 1)\<rparr> else s2)
            in Some (if has_any (irq_actids s3 irq) i then upd_actids irq (\<lambda>a. a AND NOT i) s3 else s3))
     }
   }"

section \<open>Handling an interrupt\<close>

definition generic_handler :: "int \<Rightarrow> kstate \<Rightarrow> (int \<times> kstate) option" where
  "generic_handler hook s = do {
     let h = irq_hooks s hook;
     proc_nr \<leftarrow> isokendpt s (h_proc_nr_e h);
     let s1 = upd_priv_of proc_nr (\<lambda>pr. pr\<lparr>s_int_pending := s_int_pending pr OR push_bit (nat (h_notify_id h)) 1\<rparr>) s;
     (_, s2) \<leftarrow> mini_notify HARDWARE (h_proc_nr_e h) s1;
     Some (sint (h_policy h AND IRQ_REENABLE), s2)
   }"

definition run_handler :: "int \<Rightarrow> kstate \<Rightarrow> (int \<times> kstate) option" where
  "run_handler hook s =
     (case h_handler (irq_hooks s hook) of
        IH_generic \<Rightarrow> generic_handler hook s
      | IH_timer \<Rightarrow> bsp_timer_int_handler s)"

partial_function (option) irq_loop :: "int \<Rightarrow> int option \<Rightarrow> kstate \<Rightarrow> kstate option" where
  "irq_loop irq hook s =
     (case hook of
        None \<Rightarrow> Some s
      | Some h \<Rightarrow>
          Option.bind (run_handler h (upd_actids irq (\<lambda>a. a OR h_id (irq_hooks s h)) s))
            (\<lambda>(r, s1).
               let s2 = (if r \<noteq> 0
                         then upd_actids (h_irq (irq_hooks s1 h)) (\<lambda>a. a AND NOT (h_id (irq_hooks s1 h))) s1
                         else s1)
               in irq_loop irq (hook_nexts s2 h) s2))"

definition irq_handle :: "int \<Rightarrow> kstate \<Rightarrow> kstate option" where
  "irq_handle irq s = do {
     let s1 = hw_intr_mask irq s;
     s2 \<leftarrow> irq_loop irq (irq_handlers s1 irq) s1;
     Some (if irq_actids s2 irq = 0 then hw_intr_unmask irq s2 else s2)
   }"

section \<open>The kernel call\<close>

text \<open>The search in the table of lines a process may hook.\<close>

definition irq_allowed :: "priv \<Rightarrow> int \<Rightarrow> bool" where
  "irq_allowed pr irq_vec \<longleftrightarrow> (\<exists>i \<in> set [0..s_nr_irq pr - 1]. s_irq_tab pr i = irq_vec)"

definition irq_setpolicy :: "kipc_msg \<Rightarrow> kstate \<Rightarrow> (int \<times> kipc_msg \<times> kstate) option" where
  "irq_setpolicy m s =
     (let irq_vec = m_data2 m; pr = priv_of s (who_p s)
      in if irq_vec < 0 \<or> irq_vec \<ge> NR_IRQ_VECTORS then Some (- EINVAL, m, s)
         else if has_any (s_flags pr) CHECK_IRQ \<and> \<not> irq_allowed pr irq_vec then Some (- EPERM, m, s)
         else (case find (\<lambda>h. h_proc_nr_e (irq_hooks s h) = ENDPT_NONE) [0..NR_IRQ_HOOKS - 1] of
             None \<Rightarrow> Some (- ENOSPC, m, s)
           | Some h \<Rightarrow>
               (let notify_id = m_data7 m
                in if uwrap32 notify_id > 31 then Some (- EINVAL, m, s)
                   else do {
                     let s1 = upd_hook h (\<lambda>k. k\<lparr>h_proc_nr_e := m_source m, h_notify_id := notify_id,
                                h_policy := word_of_int (m_data3 m)\<rparr>) s;
                     s2 \<leftarrow> put_irq_handler h irq_vec IH_generic s1;
                     Some (0, m\<lparr>m_data7 := h + 1\<rparr>, s2)
                   })))"

definition do_irqctl :: "kipc_msg \<Rightarrow> kstate \<Rightarrow> (int \<times> kipc_msg \<times> kstate) option" where
  "do_irqctl m s =
     (let irq_hook_id = wrap32 (uwrap32 (m_data7 m) - 1);
          bad = (irq_hook_id < 0 \<or> irq_hook_id \<ge> NR_IRQ_HOOKS \<or> h_proc_nr_e (irq_hooks s irq_hook_id) = ENDPT_NONE);
          owner = (h_proc_nr_e (irq_hooks s irq_hook_id) = m_source m)
      in if m_data1 m = IRQ_ENABLE \<or> m_data1 m = IRQ_DISABLE then
           (if bad then Some (- EINVAL, m, s)
            else if \<not> owner then Some (- EPERM, m, s)
            else if m_data1 m = IRQ_ENABLE then Some (0, m, enable_irq irq_hook_id s)
            else Some (0, m, snd (disable_irq irq_hook_id s)))
         else if m_data1 m = IRQ_SETPOLICY then irq_setpolicy m s
         else if m_data1 m = IRQ_RMPOLICY then
           (if bad then Some (- EINVAL, m, s)
            else if \<not> owner then Some (- EPERM, m, s)
            else map_option (\<lambda>s1. (0, m, s1)) (rm_irq_handler irq_hook_id s))
         else Some (- EINVAL, m, s))"

section \<open>The lists of hooks\<close>

interpretation irqq: ptr_list "\<lambda>s. irq_handlers s q" "set_line q" "\<lambda>s x. hook_nexts s x" set_hook_next for q
  by unfold_locales (auto simp: set_line_def set_hook_next_def upd_hook_def)

text \<open>The state without the tables of interrupts.\<close>

definition irq_view :: "kstate \<Rightarrow> kstate" where
  "irq_view s = s\<lparr>irq_hooks := (\<lambda>_. \<lparr>h_next = None, h_handler = IH_generic, h_irq = 0, h_id = 0,
     h_proc_nr_e = ENDPT_NONE, h_notify_id = 0, h_policy = 0\<rparr>), irq_handlers := (\<lambda>_. None),
     irq_actids := (\<lambda>_. 0), irq_use := 0, irq_masked := (\<lambda>_. True)\<rparr>"

lemma irq_view_upd [simp]:
  "irq_view (upd_hook h f s) = irq_view s" "irq_view (set_line q v s) = irq_view s"
  "irq_view (set_hook_next h v s) = irq_view s" "irq_view (upd_actids q g s) = irq_view s"
  "irq_view (hw_intr_mask q s) = irq_view s" "irq_view (hw_intr_unmask q s) = irq_view s"
  "irq_view (s\<lparr>irq_use := u\<rparr>) = irq_view s"
  "irq_view (cell_wr (set_line q) set_hook_next c v s) = irq_view s"
  by (simp_all add: irq_view_def upd_hook_def set_line_def set_hook_next_def upd_actids_def hw_intr_mask_def
      hw_intr_unmask_def cell_wr_def split: cell.splits)

lemma irq_view_kinv:
  assumes "irq_view s' = irq_view s"
  shows "kinv s' = kinv s" "ipcv s' = ipcv s" "procs s' = procs s" "privs s' = privs s" "proc_ptr s' = proc_ptr s"
    "realtime s' = realtime s" "clock_timers s' = clock_timers s" "next_timeout s' = next_timeout s"
    "who_p s' = who_p s" "who_e s' = who_e s" "bill_ptr s' = bill_ptr s"
proof -
  have "kinv s = kinv (irq_view s)" "ipcv s = ipcv (irq_view s)" for s
    by (simp_all add: irq_view_def kinv_alt)
  then show "kinv s' = kinv s" "ipcv s' = ipcv s" using assms by metis+
  show "procs s' = procs s" "privs s' = privs s" "proc_ptr s' = proc_ptr s" "realtime s' = realtime s"
    "clock_timers s' = clock_timers s" "next_timeout s' = next_timeout s" "who_p s' = who_p s"
    "who_e s' = who_e s" "bill_ptr s' = bill_ptr s"
    using arg_cong [OF assms, of procs] arg_cong [OF assms, of privs] arg_cong [OF assms, of proc_ptr]
      arg_cong [OF assms, of realtime] arg_cong [OF assms, of clock_timers] arg_cong [OF assms, of next_timeout]
      arg_cong [OF assms, of who_p] arg_cong [OF assms, of who_e] arg_cong [OF assms, of bill_ptr]
    by (simp_all add: irq_view_def)
qed

text \<open>The hooks of a line: each carries the number of the line and an id of its own, one bit.\<close>

definition irq_line :: "kstate \<Rightarrow> int \<Rightarrow> int list \<Rightarrow> bool" where
  "irq_line s q xs \<longleftrightarrow> chain (hook_nexts s) (irq_handlers s q) xs \<and>
     (\<forall>x \<in> set xs. h_irq (irq_hooks s x) = q \<and> (\<exists>i < 32. h_id (irq_hooks s x) = push_bit i 1)) \<and>
     inj_on (\<lambda>x. h_id (irq_hooks s x)) (set xs)"

definition irq_lines :: "kstate \<Rightarrow> (int \<Rightarrow> int list) \<Rightarrow> bool" where
  "irq_lines s L \<longleftrightarrow> (\<forall>q. 0 \<le> q \<and> q < NR_IRQ_VECTORS \<longrightarrow> irq_line s q (L q) \<and> set (L q) \<subseteq> {0..NR_IRQ_HOOKS})"

lemma irq_lineD:
  assumes "irq_line s q xs"
  shows "chain (hook_nexts s) (irq_handlers s q) xs" "x \<in> set xs \<Longrightarrow> h_irq (irq_hooks s x) = q"
    "x \<in> set xs \<Longrightarrow> \<exists>i < 32. h_id (irq_hooks s x) = push_bit i 1" "inj_on (\<lambda>x. h_id (irq_hooks s x)) (set xs)"
  using assms by (auto simp: irq_line_def)

lemma hook_cell_wr [simp]:
  "h_irq (irq_hooks (cell_wr (set_line q) set_hook_next c v s) x) = h_irq (irq_hooks s x)"
  "h_id (irq_hooks (cell_wr (set_line q) set_hook_next c v s) x) = h_id (irq_hooks s x)"
  "irq_actids (cell_wr (set_line q) set_hook_next c v s) = irq_actids s"
  "irq_masked (cell_wr (set_line q) set_hook_next c v s) = irq_masked s"
  by (auto simp: cell_wr_def set_line_def set_hook_next_def upd_hook_def split: cell.splits)

lemma hook_upd [simp]:
  "irq_hooks (upd_hook h f s) x = (if x = h then f (irq_hooks s h) else irq_hooks s x)"
  "irq_handlers (upd_hook h f s) = irq_handlers s" "irq_actids (upd_hook h f s) = irq_actids s"
  "irq_masked (upd_hook h f s) = irq_masked s"
  "irq_hooks (upd_actids q g s) = irq_hooks s" "irq_handlers (upd_actids q g s) = irq_handlers s"
  "irq_actids (upd_actids q g s) = (irq_actids s)(q := g (irq_actids s q))" "irq_masked (upd_actids q g s) = irq_masked s"
  "irq_hooks (hw_intr_mask q s) = irq_hooks s" "irq_handlers (hw_intr_mask q s) = irq_handlers s"
  "irq_actids (hw_intr_mask q s) = irq_actids s" "irq_masked (hw_intr_mask q s) = (irq_masked s)(q := True)"
  "irq_hooks (hw_intr_unmask q s) = irq_hooks s" "irq_handlers (hw_intr_unmask q s) = irq_handlers s"
  "irq_actids (hw_intr_unmask q s) = irq_actids s" "irq_masked (hw_intr_unmask q s) = (irq_masked s)(q := False)"
  by (auto simp: upd_hook_def upd_actids_def hw_intr_mask_def hw_intr_unmask_def)

lemma irq_line_cong:
  "irq_hooks s' = irq_hooks s \<Longrightarrow> irq_handlers s' = irq_handlers s \<Longrightarrow> irq_line s' q xs = irq_line s q xs"
  by (simp add: irq_line_def)

text \<open>Writing a cell of one line leaves the other lines alone.\<close>

lemma irq_line_other:
  assumes l: "irq_line s q' ys" and "q' \<noteq> q" and u: "us \<noteq> [] \<Longrightarrow> last us \<notin> set ys"
  shows "irq_line (cell_wr (set_line q) set_hook_next (cell_after Head us) v s) q' ys"
proof -
  let ?s = "cell_wr (set_line q) set_hook_next (cell_after Head us) v s"
  have "chain (hook_nexts ?s) (irq_handlers ?s q') ys"
  proof (cases "us = []")
    case True
    with irq_lineD(1) [OF l] assms(2) show ?thesis by (simp add: cell_wr_def set_line_def)
  next
    case False
    have "hook_nexts ?s = (hook_nexts s)(last us := v)" "irq_handlers ?s = irq_handlers s"
      using False by (auto simp: cell_wr_def cell_after_last set_hook_next_def upd_hook_def)
    with irq_lineD(1) [OF l] u [OF False] show ?thesis by simp
  qed
  with l show ?thesis unfolding irq_line_def hook_cell_wr by blast
qed

section \<open>Hooking an interrupt\<close>

lemma irq_scan_chain:
  "chain nx (cell_rd nx h c) xs \<Longrightarrow> hook \<notin> set xs \<Longrightarrow>
   irq_scan nx ids hook h c b = Some (Some (cell_after c xs, fold (\<lambda>x a. a OR ids x) xs b))"
proof (induction xs arbitrary: c b)
  case Nil
  then show ?case by (simp add: irq_scan.simps)
next
  case (Cons a xs)
  then show ?case by (subst irq_scan.simps) simp
qed

lemma irq_scan_found:
  "chain nx (cell_rd nx h c) xs \<Longrightarrow> hook \<in> set xs \<Longrightarrow> irq_scan nx ids hook h c b = Some None"
proof (induction xs arbitrary: c b)
  case (Cons a xs)
  then show ?case by (subst irq_scan.simps) auto
qed simp

lemma bit_fold_or: "bit (fold (\<lambda>x a. a OR ids x) xs b) j \<longleftrightarrow> bit b j \<or> (\<exists>x \<in> set xs. bit (ids x) j)" for b :: "32 word"
  by (induction xs arbitrary: b) (auto simp: bit_or_iff)

lemma bit_push_1: "j < 32 \<Longrightarrow> bit (push_bit i (1 :: 32 word)) j \<longleftrightarrow> i = j"
  by (auto simp: bit_exp_iff)

lemma push_bit_1_inj: "i < 32 \<Longrightarrow> push_bit j (1 :: 32 word) = push_bit i 1 \<Longrightarrow> j = i"
  using bit_push_1 [of i j] bit_push_1 [of i i] by simp

text \<open>With fewer hooks than id bits there is a free id, and it differs from all in use.\<close>

lemma free_id_spec:
  assumes one: "\<And>x. x \<in> set xs \<Longrightarrow> \<exists>i < 32. ids x = push_bit i 1" and len: "length xs < 32"
  shows "\<exists>i < 32. free_id (fold (\<lambda>x a. a OR ids x) xs 0) = Some (push_bit i 1) \<and> (\<forall>x \<in> set xs. ids x \<noteq> push_bit i 1)"
proof -
  let ?b = "fold (\<lambda>x a. a OR ids x) xs (0 :: 32 word)"
  have bit: "bit ?b j \<longleftrightarrow> (\<exists>x \<in> set xs. ids x = push_bit j 1)" if "j < 32" for j
  proof -
    have "bit (ids x) j \<longleftrightarrow> ids x = push_bit j 1" if "x \<in> set xs" for x
      using one [OF that] bit_push_1 [OF \<open>j < 32\<close>] push_bit_1_inj [OF \<open>j < 32\<close>] by auto
    then show ?thesis by (auto simp: bit_fold_or)
  qed
  have "\<exists>j < 32. \<not> bit ?b j"
  proof (rule ccontr)
    assume "\<not> ?thesis"
    then have "\<forall>j < 32. push_bit j 1 \<in> ids ` set xs" using bit by force
    then have "(\<lambda>j. push_bit j (1 :: 32 word)) ` {..<32} \<subseteq> ids ` set xs" by auto
    then have "card ((\<lambda>j. push_bit j (1 :: 32 word)) ` {..<32}) \<le> card (ids ` set xs)"
      by (intro card_mono) auto
    also have "\<dots> \<le> length xs" by (metis card_image_le card_length finite_set le_trans)
    finally have "card ((\<lambda>j. push_bit j (1 :: 32 word)) ` {..<32}) < 32" using len by simp
    moreover have "inj_on (\<lambda>j. push_bit j (1 :: 32 word)) {..<32}"
      by (auto intro!: inj_onI push_bit_1_inj)
    ultimately show False by (simp add: card_image)
  qed
  then have "find (\<lambda>i. \<not> bit ?b i) [0..<32] \<noteq> None" by (auto simp: find_None_iff)
  then obtain i where f: "find (\<lambda>i. \<not> bit ?b i) [0..<32] = Some i" by blast
  then have "i < 32" "\<not> bit ?b i" by (auto simp: find_Some_iff)
  then show ?thesis using f bit by (auto simp: free_id_def)
qed

lemma put_irq_handler_spec:
  assumes L: "irq_lines s L" and q: "0 \<le> q" "q < NR_IRQ_VECTORS" and h: "\<forall>r. 0 \<le> r \<and> r < NR_IRQ_VECTORS \<longrightarrow> hook \<notin> set (L r)"
    and hk: "0 \<le> hook" "hook \<le> NR_IRQ_HOOKS"
  shows "\<exists>s'. put_irq_handler hook q handler s = Some s' \<and> irq_lines s' (L(q := L q @ [hook])) \<and>
    h_handler (irq_hooks s' hook) = handler \<and> (irq_actids s' q = 0 \<longrightarrow> \<not> irq_masked s' q) \<and>
    irq_actids s' q AND h_id (irq_hooks s' hook) = 0 \<and>
    irq_view s' = irq_view s \<and> (\<forall>x. h_proc_nr_e (irq_hooks s' x) = h_proc_nr_e (irq_hooks s x))"
proof -
  have lq: "irq_line s q (L q)" and hq: "hook \<notin> set (L q)" using L q h by (auto simp: irq_lines_def)
  let ?xs = "L q"
  have len: "length ?xs < 32"
  proof -
    have "length ?xs = card (set ?xs)" using chain_distinct [OF irq_lineD(1) [OF lq]] by (simp add: distinct_card)
    also have "\<dots> \<le> card {0..NR_IRQ_HOOKS}" using L q by (intro card_mono) (auto simp: irq_lines_def)
    finally show ?thesis by simp
  qed
  obtain i where i: "i < 32" and f: "free_id (fold (\<lambda>x a. a OR h_id (irq_hooks s x)) ?xs 0) = Some (push_bit i 1)"
    and new: "\<forall>x \<in> set ?xs. h_id (irq_hooks s x) \<noteq> push_bit i 1"
    using free_id_spec [where ids = "\<lambda>x. h_id (irq_hooks s x)" and xs = ?xs, OF irq_lineD(3) [OF lq] len] by blast
  have sc: "irq_scan (hook_nexts s) (\<lambda>x. h_id (irq_hooks s x)) hook (irq_handlers s q) Head 0 =
      Some (Some (cell_after Head ?xs, fold (\<lambda>x a. a OR h_id (irq_hooks s x)) ?xs 0))"
    using irq_scan_chain [of "hook_nexts s" "irq_handlers s q" Head ?xs hook] irq_lineD(1) [OF lq] hq by simp
  define s1 where "s1 = upd_hook hook (\<lambda>h. h\<lparr>h_next := None, h_handler := handler, h_irq := q, h_id := push_bit i 1\<rparr>) s"
  define s2 where "s2 = cell_wr (set_line q) set_hook_next (cell_after Head ?xs) (Some hook) s1"
  define s4 where "s4 = upd_actids q (\<lambda>a. a AND NOT (push_bit i 1)) (s2\<lparr>irq_use := irq_use s2 OR push_bit (nat q) 1\<rparr>)"
  define s' where "s' = (if irq_actids s4 q = 0 then hw_intr_unmask q s4 else s4)"
  have run: "put_irq_handler hook q handler s = Some s'"
    unfolding put_irq_handler_def sc s'_def s4_def s2_def s1_def using q by (simp add: f Let_def)
  have nx1: "hook_nexts s1 = (hook_nexts s)(hook := None)" and h1: "irq_handlers s1 = irq_handlers s" by (auto simp: s1_def)
  have l1: "irq_line s1 r (L r)" if "0 \<le> r" "r < NR_IRQ_VECTORS" for r
  proof -
    have "irq_line s r (L r)" "hook \<notin> set (L r)" using L h that by (auto simp: irq_lines_def)
    moreover from this(2) have "x \<in> set (L r) \<Longrightarrow> irq_hooks s1 x = irq_hooks s x" for x by (auto simp: s1_def)
    ultimately show ?thesis unfolding irq_line_def nx1 h1 by (auto intro: inj_on_cong [THEN iffD1])
  qed
  have c1: "chain (hook_nexts s1) (irq_handlers s1 q) (?xs @ [])" using irq_lineD(1) [OF l1 [OF q]] by simp
  have "chain (hook_nexts s2) (irq_handlers s2 q) (?xs @ [hook])"
    unfolding s2_def by (rule irqq.wr_after [OF c1]) (use hq nx1 last_in_set in fastforce)+
  moreover have "h_irq (irq_hooks s2 x) = q \<and> (\<exists>i<32. h_id (irq_hooks s2 x) = push_bit i 1)" if "x \<in> set (?xs @ [hook])" for x
    using that irq_lineD(2,3) [OF lq] i by (auto simp: s2_def s1_def)
  moreover have "inj_on (\<lambda>x. h_id (irq_hooks s2 x)) (set (?xs @ [hook]))"
  proof -
    have "inj_on (\<lambda>x. h_id (irq_hooks s2 x)) (set ?xs)"
      using irq_lineD(4) [OF l1] q by (simp add: s2_def)
    moreover have "h_id (irq_hooks s2 hook) \<notin> (\<lambda>x. h_id (irq_hooks s2 x)) ` set ?xs"
      using new hq by (auto simp: s2_def s1_def split: if_splits)
    ultimately show ?thesis using hq by simp
  qed
  ultimately have "irq_line s2 q (?xs @ [hook])" by (simp add: irq_line_def)
  moreover have "irq_line s2 r (L r)" if r: "0 \<le> r" "r < NR_IRQ_VECTORS" "r \<noteq> q" for r
    unfolding s2_def
  proof (rule irq_line_other [OF l1 [OF r(1,2)] r(3)])
    assume "?xs \<noteq> []"
    then have "h_irq (irq_hooks s (last ?xs)) = q" using irq_lineD(2) [OF lq] by simp
    moreover have "irq_line s r (L r)" using L r by (simp add: irq_lines_def)
    ultimately show "last ?xs \<notin> set (L r)" using irq_lineD(2) [of s r "L r"] r(3) by auto
  qed
  moreover have "irq_hooks s' = irq_hooks s2" "irq_handlers s' = irq_handlers s2" by (simp_all add: s'_def s4_def)
  ultimately have "irq_lines s' (L(q := ?xs @ [hook]))"
    using L q hk irq_line_cong [of s' s2] by (auto simp: irq_lines_def)
  moreover have "h_handler (irq_hooks s' hook) = handler"
  proof -
    have "cell_after Head ?xs \<noteq> Next hook" using hq by (auto simp: cell_after_last dest: last_in_set)
    then show ?thesis
      by (auto simp: s'_def s4_def s2_def s1_def cell_wr_def set_hook_next_def set_line_def split: cell.splits)
  qed
  moreover have "irq_actids s' q = 0 \<longrightarrow> \<not> irq_masked s' q" by (simp add: s'_def)
  moreover have "irq_actids s' q AND h_id (irq_hooks s' hook) = 0"
    by (simp add: s'_def s4_def s2_def s1_def and.assoc)
  moreover have "irq_view s' = irq_view s"
    by (simp add: s'_def s4_def s2_def s1_def)
  moreover have "h_proc_nr_e (irq_hooks s' x) = h_proc_nr_e (irq_hooks s x)" for x
    by (auto simp: s'_def s4_def s2_def s1_def cell_wr_def set_line_def set_hook_next_def split: cell.splits)
  ultimately show ?thesis using run by blast
qed

section \<open>Unhooking an interrupt\<close>

text \<open>
  The hook with the id in question is taken off its line, which stays masked. This is the given
  hook if that is on the line.
\<close>

lemma rm_irq_handler_spec:
  assumes L: "irq_lines s L" and q: "0 \<le> q" "q < NR_IRQ_VECTORS" and h: "x0 \<in> set (L q)"
    and hi: "h_irq (irq_hooks s hook) = q" and hx: "h_id (irq_hooks s x0) = h_id (irq_hooks s hook)"
  shows "\<exists>s'. rm_irq_handler hook s = Some s' \<and> irq_lines s' (L(q := remove1 x0 (L q))) \<and>
    irq_masked s' = (irq_masked s)(q := True) \<and> irq_actids s' q = irq_actids s q AND NOT (h_id (irq_hooks s hook)) \<and>
    irq_view s' = irq_view s \<and>
    (\<forall>x. h_proc_nr_e (irq_hooks s' x) = h_proc_nr_e (irq_hooks s x))"
proof -
  let ?xs = "L q" and ?i = "h_id (irq_hooks s hook)"
  have lq: "irq_line s q ?xs" using L q by (simp add: irq_lines_def)
  obtain k where k: "k < 32" "?i = push_bit k 1" using irq_lineD(3) [OF lq h] hx by auto
  have i0: "?i \<noteq> 0" using bit_push_1 [OF k(1), of k] unfolding k(2) by (metis bit_0_eq bot_apply bot_bool_def)
  define s1 where "s1 = hw_intr_mask q (upd_actids q (\<lambda>a. a OR ?i) s)"
  have e1: "irq_hooks s1 = irq_hooks s" "irq_handlers s1 = irq_handlers s" by (simp_all add: s1_def)
  let ?us = "takeWhile (\<lambda>y. y \<noteq> x0) ?xs"
  have same: "h_id (irq_hooks s x) = ?i \<longleftrightarrow> x = x0" if "x \<in> set ?xs" for x
    using irq_lineD(4) [OF lq] h that unfolding hx [symmetric] by (auto dest: inj_onD)
  have tw: "takeWhile (\<lambda>x. h_id (irq_hooks s1 x) \<noteq> ?i) ?xs = ?us"
    using same by (intro takeWhile_cong) (auto simp: e1)
  have c1: "chain (hook_nexts s1) (irq_handlers s1 q) ?xs" using irq_lineD(1) [OF lq] by (simp add: e1)
  have w: "walk (\<lambda>x. h_id (irq_hooks s1 x) = ?i) (hook_nexts s1) (irq_handlers s1 q) Head = Some (cell_after Head ?us)"
    using irqq.walk_state [OF c1, of "\<lambda>x. h_id (irq_hooks s1 x) = ?i"] tw by simp
  have rd: "cell_rd (hook_nexts s1) (irq_handlers s1 q) (cell_after Head ?us) = Some x0"
  proof -
    have "chain (hook_nexts s1) (irq_handlers s1 q) (?us @ x0 # tl (dropWhile (\<lambda>y. y \<noteq> x0) ?xs))"
      using c1 takeWhile_neq [OF h] by simp
    from irqq.rd_after [OF this] show ?thesis by simp
  qed
  define s2 where "s2 = cell_wr (set_line q) set_hook_next (cell_after Head ?us) (hook_nexts s1 x0) s1"
  define s3 where "s3 = (if irq_handlers s2 q = None then s2\<lparr>irq_use := irq_use s2 AND NOT (push_bit (nat q) 1)\<rparr> else s2)"
  define s' where "s' = (if has_any (irq_actids s3 q) ?i then upd_actids q (\<lambda>a. a AND NOT ?i) s3 else s3)"
  have run: "rm_irq_handler hook s = Some s'"
    unfolding rm_irq_handler_def Let_def hi s1_def [symmetric] w Option.bind.simps rd s'_def s3_def s2_def
    using q by simp
  have l1: "irq_line s1 r ys = irq_line s r ys" for r ys by (rule irq_line_cong) (simp_all add: e1)
  have "chain (hook_nexts s2) (irq_handlers s2 q) (remove1 x0 ?xs)"
    unfolding s2_def by (rule irqq.unlink_chain [OF c1 h])
  then have "irq_line s2 q (remove1 x0 ?xs)"
    using lq by (auto simp: irq_line_def s2_def e1 dest: notin_set_remove1 intro: inj_on_subset [OF _ set_remove1_subset])
  moreover have "irq_line s2 r (L r)" if r: "0 \<le> r" "r < NR_IRQ_VECTORS" "r \<noteq> q" for r
    unfolding s2_def
  proof (rule irq_line_other)
    show "irq_line s1 r (L r)" using L r by (simp add: irq_lines_def l1)
    assume "?us \<noteq> []"
    then have "last ?us \<in> set ?xs" using last_in_set set_takeWhileD by fast
    then have "h_irq (irq_hooks s (last ?us)) = q" using irq_lineD(2) [OF lq] by simp
    moreover have "irq_line s r (L r)" using L r by (simp add: irq_lines_def)
    ultimately show "last ?us \<notin> set (L r)" using irq_lineD(2) [of s r "L r"] r(3) by auto
  qed (rule r(3))
  moreover have "irq_hooks s' = irq_hooks s2" "irq_handlers s' = irq_handlers s2" by (simp_all add: s'_def s3_def)
  ultimately have "irq_lines s' (L(q := remove1 x0 ?xs))"
    using L q irq_line_cong [of s' s2] by (auto simp: irq_lines_def dest: notin_set_remove1)
  moreover have "irq_masked s' = (irq_masked s)(q := True)" by (simp add: s'_def s3_def s2_def s1_def)
  moreover have "irq_actids s' q = irq_actids s q AND NOT ?i"
  proof -
    have "(a OR ?i) AND ?i = ?i" "(a OR ?i) AND NOT ?i = a AND NOT ?i" for a
      by (rule bit_word_eqI; auto simp: bit_simps)+
    then show ?thesis using i0 by (simp add: s'_def s3_def s2_def s1_def)
  qed
  moreover have "irq_view s' = irq_view s"
    by (simp add: s'_def s3_def s2_def s1_def)
  moreover have "h_proc_nr_e (irq_hooks s' x) = h_proc_nr_e (irq_hooks s x)" for x
    by (auto simp: s'_def s3_def s2_def s1_def cell_wr_def set_line_def set_hook_next_def split: cell.splits)
  ultimately show ?thesis using run by blast
qed

section \<open>Dispatching an interrupt\<close>

lemma isokendpt_maybe:
  assumes "kinv s" and "kinv s'" and m: "maybe_unrecv (ipcv s) (ipcv s')"
  shows "isokendpt s' e = isokendpt s e"
  unfolding isokendpt_view [OF kinvD(1) [OF assms(1)]] isokendpt_view [OF kinvD(1) [OF assms(2)]] maybe_unrecv_sel(1,4) [OF m] ..

lemma generic_handler_spec:
  assumes k: "kinv s" and hw: "live s HARDWARE" and ok: "isokendpt s (h_proc_nr_e (irq_hooks s h)) = Some d"
  shows "\<exists>s'. generic_handler h s = Some (sint (h_policy (irq_hooks s h) AND IRQ_REENABLE), s') \<and> kinv s' \<and>
    note_view s' = note_view s \<and> (\<forall>m. live s' m = live s m) \<and> (\<forall>e. isokendpt s' e = isokendpt s e) \<and>
    notified s' HARDWARE d"
proof -
  let ?h = "irq_hooks s h"
  define s1 where "s1 = upd_priv_of d (\<lambda>pr. pr\<lparr>s_int_pending := s_int_pending pr OR push_bit (nat (h_notify_id ?h)) 1\<rparr>) s"
  have k1: "kcore s1" unfolding s1_def by (rule kcore_upd_priv [OF kinvD(2) [OF k]]) simp_all
  have v1: "ipcv s1 = ipcv s" by (simp add: s1_def)
  have ki1: "kinv s1" using k k1 v1 by (simp add: kinv_alt)
  have ok1: "isokendpt s1 (h_proc_nr_e ?h) = Some d" using isokendpt_cong [OF k ki1 v1] ok by simp
  have "live s1 HARDWARE" using hw by (simp add: s1_def)
  from mini_notify_spec [OF k1 this, of "h_proc_nr_e ?h"] obtain r s2 where n: "mini_notify HARDWARE (h_proc_nr_e ?h) s1 = Some (r, s2)"
    and k2: "kcore s2" and m: "maybe_unrecv (ipcv s1) (ipcv s2)" by blast
  have ki2: "kinv s2" using k2 maybe_unrecv_ok [OF m] ki1 by (simp add: kinv_alt)
  have "note_view s2 = note_view s" using mini_notify_note [OF n] by (simp add: s1_def)
  moreover have "live s2 q = live s q" for q
    unfolding live_view using maybe_unrecv_sel(1) [OF m] v1 by simp
  moreover have "isokendpt s2 e = isokendpt s e" for e
    using isokendpt_maybe [OF ki1 ki2 m] isokendpt_cong [OF k ki1 v1] by simp
  moreover have "generic_handler h s = Some (sint (h_policy ?h AND IRQ_REENABLE), s2)"
    unfolding generic_handler_def Let_def ok Option.bind.simps s1_def [symmetric] n by simp
  ultimately show ?thesis using ki2 mini_notify_notified [OF n ok1] by blast
qed

definition act_step :: "kstate \<Rightarrow> int \<Rightarrow> 32 word \<Rightarrow> 32 word" where
  "act_step s x a = (if has_any (h_policy (irq_hooks s x)) IRQ_REENABLE then a AND NOT (h_id (irq_hooks s x))
     else a OR h_id (irq_hooks s x))"

definition drivers_ok :: "kstate \<Rightarrow> int list \<Rightarrow> bool" where
  "drivers_ok s xs \<longleftrightarrow> (\<forall>x \<in> set xs. h_handler (irq_hooks s x) = IH_generic \<and> isokendpt s (h_proc_nr_e (irq_hooks s x)) \<noteq> None)"

lemma sint_reenable: "sint (p AND IRQ_REENABLE) \<noteq> 0 \<longleftrightarrow> has_any p IRQ_REENABLE" for p :: "32 word"
  by (simp add: signed_eq_0_iff)

lemma irq_loop_spec:
  assumes "chain (hook_nexts s) p xs" and "drivers_ok s xs" and "\<forall>x \<in> set xs. h_irq (irq_hooks s x) = q"
    and "kinv s" and "live s HARDWARE"
  shows "\<exists>s'. irq_loop q p s = Some s' \<and> kinv s' \<and> irq_hooks s' = irq_hooks s \<and> irq_handlers s' = irq_handlers s \<and>
    irq_masked s' = irq_masked s \<and> irq_actids s' = (irq_actids s)(q := fold (act_step s) xs (irq_actids s q)) \<and>
    (\<forall>m. live s' m = live s m) \<and> (\<forall>e. isokendpt s' e = isokendpt s e)"
  using assms
proof (induction xs arbitrary: p s)
  case Nil
  then show ?case by (simp add: irq_loop.simps)
next
  case (Cons x xs)
  have p: "p = Some x" and c: "chain (hook_nexts s) (hook_nexts s x) xs" using Cons.prems(1) by auto
  let ?i = "h_id (irq_hooks s x)"
  define s1 where "s1 = upd_actids q (\<lambda>a. a OR ?i) s"
  have v1: "irq_view s1 = irq_view s" by (simp add: s1_def)
  note e1 = irq_view_kinv [OF v1]
  have ok1: "isokendpt s1 e = isokendpt s e" for e unfolding isokendpt_def e1 ..
  have k1: "kinv s1" "live s1 HARDWARE" using Cons.prems(4,5) e1 by simp_all
  obtain d where d: "isokendpt s1 (h_proc_nr_e (irq_hooks s1 x)) = Some d" "h_handler (irq_hooks s1 x) = IH_generic"
    using Cons.prems(2) ok1 by (auto simp: drivers_ok_def s1_def)
  obtain s2 where g: "generic_handler x s1 = Some (sint (h_policy (irq_hooks s1 x) AND IRQ_REENABLE), s2)" and k2: "kinv s2"
    and n2: "note_view s2 = note_view s1" and l2: "\<forall>m. live s2 m = live s1 m" and ok2: "\<forall>e. isokendpt s2 e = isokendpt s1 e"
    using generic_handler_spec [OF k1 d(1)] by blast
  note f2 = note_view_state [OF n2]
  let ?r = "has_any (h_policy (irq_hooks s x)) IRQ_REENABLE"
  define s3 where "s3 = (if ?r then upd_actids q (\<lambda>a. a AND NOT ?i) s2 else s2)"
  have v3: "irq_view s3 = irq_view s2" by (simp add: s3_def)
  note e3 = irq_view_kinv [OF v3]
  have h3: "irq_hooks s3 = irq_hooks s" "irq_handlers s3 = irq_handlers s" "irq_masked s3 = irq_masked s"
    using f2 by (simp_all add: s3_def s1_def)
  have "(a OR ?i) AND NOT ?i = a AND NOT ?i" for a by (rule bit_word_eqI) (auto simp: bit_simps)
  then have a3: "irq_actids s3 = (irq_actids s)(q := act_step s x (irq_actids s q))"
    using f2(11) by (simp add: s3_def s1_def act_step_def)
  have qx: "h_irq (irq_hooks s x) = q" using Cons.prems(3) by simp
  have run: "irq_loop q p s = irq_loop q (hook_nexts s x) s3"
    unfolding p using g d(2) f2(9) qx
    by (subst irq_loop.simps) (simp add: run_handler_def s1_def [symmetric] s3_def sint_reenable, simp add: s1_def s3_def)
  have l3: "live s3 m = live s m" for m using l2 e3 e1 by simp
  have "isokendpt s3 e = isokendpt s2 e" for e unfolding isokendpt_def e3 ..
  then have ok3: "isokendpt s3 e = isokendpt s e" for e using ok2 ok1 by simp
  have c3: "chain (hook_nexts s3) (hook_nexts s x) xs" "drivers_ok s3 xs" "\<forall>x \<in> set xs. h_irq (irq_hooks s3 x) = q"
    using c Cons.prems(2,3) ok3 by (simp_all add: h3 drivers_ok_def)
  have k3: "kinv s3" "live s3 HARDWARE" using k2 e3(1) l3 [of HARDWARE] Cons.prems(5) by blast+
  have st: "act_step s3 = act_step s" by (auto simp: act_step_def fun_eq_iff h3)
  obtain s' where r: "irq_loop q (hook_nexts s x) s3 = Some s'" and k': "kinv s'"
    and h': "irq_hooks s' = irq_hooks s3" "irq_handlers s' = irq_handlers s3" "irq_masked s' = irq_masked s3"
    and a': "irq_actids s' = (irq_actids s3)(q := fold (act_step s3) xs (irq_actids s3 q))"
    and l': "\<forall>m. live s' m = live s3 m" and ok': "\<forall>e. isokendpt s' e = isokendpt s3 e"
    using Cons.IH [OF c3 k3] by blast
  have "irq_actids s' = (irq_actids s)(q := fold (act_step s) (x # xs) (irq_actids s q))"
    unfolding a' a3 st by simp
  moreover have "\<forall>m. live s' m = live s m" using l' l3 by blast
  moreover have "\<forall>e. isokendpt s' e = isokendpt s e" using ok' ok3 by simp
  ultimately show ?case using run r k' h' h3 by (intro exI [of _ s']) simp
qed

section \<open>Properties of interrupts\<close>

text \<open>Two drivers on line 5 of the sample system.\<close>

definition sample_hook :: "int \<Rightarrow> irq_hook" where
  "sample_hook i = \<lparr>h_next = (if i = 0 then Some 1 else None), h_handler = (if i = 16 then IH_timer else IH_generic), h_irq = (if i < 2 then 5 else 0),
     h_id = (if i = 0 \<or> i = 16 then 1 else if i = 1 then 2 else 0), h_proc_nr_e = (if i = 0 then 0 else if i = 1 then 1 else ENDPT_NONE),
     h_notify_id = 3, h_policy = (if i = 0 then 1 else 0)\<rparr>"

definition sample_irq :: kstate where
  "sample_irq = sample\<lparr>irq_hooks := sample_hook, irq_handlers := (\<lambda>q. if q = 5 then Some 0 else if q = 0 then Some 16 else None), irq_use := 33\<rparr>"

definition sample_lines :: "int \<Rightarrow> int list" where
  "sample_lines q = (if q = 5 then [0, 1] else if q = 0 then [16] else [])"

lemma one_bit: "\<exists>i<32. (1 :: 32 word) = push_bit i 1" "\<exists>i<32. (2 :: 32 word) = push_bit i 1"
  by (rule exI [of _ 0], simp) (rule exI [of _ 1], simp)

lemma sample_irq_lines: "irq_lines sample_irq sample_lines"
  using one_bit by (auto simp: irq_lines_def irq_line_def sample_irq_def sample_lines_def sample_hook_def inj_on_def)

lemma sample_irq_kinv: "kinv sample_irq"
proof -
  have "irq_view sample_irq = irq_view sample" by (simp add: sample_irq_def irq_view_def)
  from irq_view_kinv(1) [OF this] sample_kinv show ?thesis by simp
qed

lemma sample_irq_sel:
  "irq_hooks sample_irq = sample_hook" "irq_actids sample_irq = (\<lambda>_. 0)" "procs sample_irq = sample_proc"
  "priv_of sample_irq n = priv_of sample n" "who_p sample_irq = 0"
  by (simp_all add: sample_irq_def sample_def priv_of_def)

text \<open>
  C15. An interrupt is dispatched safely. If the owners of the hooks of a line are alive, handling
  an interrupt returns, keeps the kernel invariant and the hooks, and ends with the line masked
  exactly if some hook is still active, where the hooks whose policy asks for it have been
  deactivated and the others activated, in the order of the list.
\<close>

theorem irq_handle_safe:
  assumes "irq_lines s L" and "0 \<le> q" and "q < NR_IRQ_VECTORS" and "drivers_ok s (L q)" and "kinv s" and "live s HARDWARE"
  shows "\<exists>s'. irq_handle q s = Some s' \<and> kinv s' \<and> irq_hooks s' = irq_hooks s \<and> irq_lines s' L \<and>
    irq_actids s' q = fold (act_step s) (L q) (irq_actids s q) \<and> (irq_masked s' q \<longleftrightarrow> irq_actids s' q \<noteq> 0)"
proof -
  define s1 where "s1 = hw_intr_mask q s"
  have v1: "irq_view s1 = irq_view s" by (simp add: s1_def)
  note e1 = irq_view_kinv [OF v1]
  have lq: "irq_line s q (L q)" using assms(1-3) by (simp add: irq_lines_def)
  have ok1: "isokendpt s1 e = isokendpt s e" for e unfolding isokendpt_def e1 ..
  have p1: "chain (hook_nexts s1) (irq_handlers s1 q) (L q)" "drivers_ok s1 (L q)"
    "\<forall>x \<in> set (L q). h_irq (irq_hooks s1 x) = q" "kinv s1" "live s1 HARDWARE"
    using irq_lineD(1,2) [OF lq] assms(4-6) e1 ok1 by (auto simp: s1_def drivers_ok_def)
  obtain s2 where r: "irq_loop q (irq_handlers s1 q) s1 = Some s2" and k2: "kinv s2"
    and e2: "irq_hooks s2 = irq_hooks s" "irq_handlers s2 = irq_handlers s" "irq_masked s2 = (irq_masked s)(q := True)"
      "irq_actids s2 q = fold (act_step s1) (L q) (irq_actids s q)"
    using irq_loop_spec [OF p1] by (auto simp: s1_def)
  define s' where "s' = (if irq_actids s2 q = 0 then hw_intr_unmask q s2 else s2)"
  have "irq_handle q s = Some s'" unfolding irq_handle_def Let_def s1_def [symmetric] r by (simp add: s'_def)
  moreover have "irq_view s' = irq_view s2" by (simp add: s'_def)
  then have "kinv s'" using irq_view_kinv(1) k2 by blast
  moreover have "irq_hooks s' = irq_hooks s" "irq_handlers s' = irq_handlers s" using e2 by (simp_all add: s'_def)
  moreover from this have "irq_lines s' L" using assms(1) irq_line_cong [of s' s] by (simp add: irq_lines_def)
  moreover have "act_step s1 = act_step s" by (auto simp: act_step_def s1_def fun_eq_iff)
  then have "irq_actids s' q = fold (act_step s) (L q) (irq_actids s q)" using e2(4) by (simp add: s'_def)
  moreover have "irq_masked s' q \<longleftrightarrow> irq_actids s' q \<noteq> 0" using e2(3) by (simp add: s'_def)
  ultimately show ?thesis by blast
qed

lemma sample_drivers: "drivers_ok sample_irq (sample_lines 5)"
proof -
  have "valid_nr 0" "valid_nr 1" by (simp_all add: valid_nr_def)
  then have "ENDPOINT_P 0 = 0" "ENDPOINT_P 1 = 1" using ENDPOINT_P_small by blast+
  then show ?thesis
    by (simp add: drivers_ok_def sample_lines_def sample_irq_sel sample_hook_def isokendpt_def sample_proc_def isemptyp_def
        isokprocn_def uwrap32_def Let_def)
qed

theorem irq_handle_safe_witness:
  "drivers_ok sample_irq (sample_lines 5) \<and>
   (\<exists>s'. irq_handle 5 sample_irq = Some s' \<and> kinv s' \<and> irq_actids s' 5 = 2 \<and> irq_masked s' 5)"
proof -
  have "live sample_irq HARDWARE" by (simp add: sample_irq_sel sample_proc_def valid_nr_def)
  from irq_handle_safe [OF sample_irq_lines _ _ sample_drivers sample_irq_kinv this]
  have "\<exists>s'. irq_handle 5 sample_irq = Some s' \<and> kinv s' \<and>
      irq_actids s' 5 = fold (act_step sample_irq) (sample_lines 5) (irq_actids sample_irq 5) \<and>
      (irq_masked s' 5 \<longleftrightarrow> irq_actids s' 5 \<noteq> 0)" by auto
  moreover have "fold (act_step sample_irq) (sample_lines 5) (irq_actids sample_irq 5) = 2"
    by (simp add: sample_lines_def act_step_def sample_irq_sel sample_hook_def)
  ultimately show ?thesis using sample_drivers by auto
qed

text \<open>
  The hooks of the table \<^verbatim>\<open>irq_hooks\<close> that are on a line have an owner. The clock's hook is not in the table (it
  has the index \<^term>\<open>NR_IRQ_HOOKS\<close> here), is on its line and has none.
\<close>

definition hooks_owned :: "kstate \<Rightarrow> (int \<Rightarrow> int list) \<Rightarrow> bool" where
  "hooks_owned s L \<longleftrightarrow> (\<forall>q x. 0 \<le> q \<and> q < NR_IRQ_VECTORS \<and> x \<in> set (L q) \<and> x < NR_IRQ_HOOKS \<longrightarrow>
     h_proc_nr_e (irq_hooks s x) \<noteq> ENDPT_NONE)"

text \<open>
  C34. Hooking an interrupt cannot fail half way. Let the lists of hooks be well formed, and let every hook of the
  table that is on a line have an owner; the clock's own hook, which is not in the table, has none and may be on its
  line. Then a driver that is allowed the line and asks for a
  notification number below 32 gets the first free hook, appended to the hooks of the line with
  an id no other hook of the line has; the hook is its own, the line is open if no hook on it is
  active, and the reply names the hook. Hooks on lines have owners afterwards too.
\<close>

theorem setpolicy_hooks:
  assumes "irq_lines s L" and "kinv s" and "m_data1 m = IRQ_SETPOLICY" and "0 \<le> m_data2 m" "m_data2 m < NR_IRQ_VECTORS"
    and "has_any (s_flags (priv_of s (who_p s))) CHECK_IRQ \<Longrightarrow> irq_allowed (priv_of s (who_p s)) (m_data2 m)"
    and "0 \<le> m_data7 m" "m_data7 m < 32"
    and "find (\<lambda>h. h_proc_nr_e (irq_hooks s h) = ENDPT_NONE) [0..NR_IRQ_HOOKS - 1] = Some h"
    and "hooks_owned s L"
  shows "\<exists>s'. do_irqctl m s = Some (0, m\<lparr>m_data7 := h + 1\<rparr>, s') \<and> kinv s' \<and>
    irq_lines s' (L(m_data2 m := L (m_data2 m) @ [h])) \<and> h_proc_nr_e (irq_hooks s' h) = m_source m \<and>
    (irq_actids s' (m_data2 m) = 0 \<longrightarrow> \<not> irq_masked s' (m_data2 m)) \<and>
    (m_source m \<noteq> ENDPT_NONE \<longrightarrow> hooks_owned s' (L(m_data2 m := L (m_data2 m) @ [h])))"
proof -
  let ?q = "m_data2 m"
  have h: "h_proc_nr_e (irq_hooks s h) = ENDPT_NONE" "0 \<le> h" "h \<le> NR_IRQ_HOOKS" "h < NR_IRQ_HOOKS"
    using assms(9) by (auto simp: find_Some_iff)
  have free: "\<forall>r. 0 \<le> r \<and> r < NR_IRQ_VECTORS \<longrightarrow> h \<notin> set (L r)"
    using assms(10) h(1,4) unfolding hooks_owned_def by blast
  define s1 where "s1 = upd_hook h (\<lambda>k. k\<lparr>h_proc_nr_e := m_source m, h_notify_id := m_data7 m, h_policy := word_of_int (m_data3 m)\<rparr>) s"
  have "irq_line s1 r (L r)" if "0 \<le> r" "r < NR_IRQ_VECTORS" for r
  proof -
    have "irq_line s r (L r)" using assms(1) that by (simp add: irq_lines_def)
    moreover have "hook_nexts s1 = hook_nexts s" "\<And>x. h_irq (irq_hooks s1 x) = h_irq (irq_hooks s x)"
      "\<And>x. h_id (irq_hooks s1 x) = h_id (irq_hooks s x)" "irq_handlers s1 = irq_handlers s" by (auto simp: s1_def)
    ultimately show ?thesis unfolding irq_line_def by simp
  qed
  then have L1: "irq_lines s1 L" using assms(1) by (simp add: irq_lines_def)
  obtain s' where p: "put_irq_handler h ?q IH_generic s1 = Some s'" and l: "irq_lines s' (L(?q := L ?q @ [h]))"
    and a: "irq_actids s' ?q = 0 \<longrightarrow> \<not> irq_masked s' ?q" and v: "irq_view s' = irq_view s1"
    and o: "\<forall>x. h_proc_nr_e (irq_hooks s' x) = h_proc_nr_e (irq_hooks s1 x)"
    using put_irq_handler_spec [OF L1 assms(4,5) free h(2,3), of IH_generic] by blast
  have "do_irqctl m s = Some (0, m\<lparr>m_data7 := h + 1\<rparr>, s')"
    using assms(3-9) p by (auto simp: do_irqctl_def irq_setpolicy_def Let_def uwrap32_id simp flip: s1_def)
  moreover have "kinv s'" using irq_view_kinv(1) [OF v] irq_view_kinv(1) [of s1 s] assms(2) by (simp add: s1_def)
  moreover have "h_proc_nr_e (irq_hooks s' h) = m_source m" using o by (simp add: s1_def)
  moreover have "hooks_owned s' (L(?q := L ?q @ [h]))" if "m_source m \<noteq> ENDPT_NONE"
    using assms(10) o that by (auto simp: hooks_owned_def s1_def)
  ultimately show ?thesis using l a by blast
qed

theorem setpolicy_hooks_witness:
  "\<exists>s'. do_irqctl (msg0\<lparr>m_data1 := IRQ_SETPOLICY, m_data2 := 5, m_data7 := 4\<rparr>) sample_irq =
      Some (0, msg0\<lparr>m_data1 := IRQ_SETPOLICY, m_data2 := 5, m_data7 := 3\<rparr>, s') \<and>
    irq_lines s' (sample_lines(5 := [0, 1, 2])) \<and> sample_lines 0 = [16] \<and> h_proc_nr_e (irq_hooks sample_irq 16) = ENDPT_NONE"
proof -
  let ?m = "msg0\<lparr>m_data1 := IRQ_SETPOLICY, m_data2 := 5, m_data7 := 4\<rparr>"
  have f: "find (\<lambda>h. h_proc_nr_e (irq_hooks sample_irq h) = ENDPT_NONE) [0..NR_IRQ_HOOKS - 1] = Some 2"
    by (simp add: sample_irq_sel sample_hook_def upto.simps)
  have o: "hooks_owned sample_irq sample_lines"
    by (auto simp: hooks_owned_def sample_lines_def sample_irq_sel sample_hook_def split: if_splits)
  have c: "\<not> has_any (s_flags (priv_of sample_irq (who_p sample_irq))) CHECK_IRQ"
    by (simp add: sample_irq_sel) (simp add: priv_of_def sample_def sample_proc_def sample_priv_def)
  have e: "h_proc_nr_e (irq_hooks sample_irq 16) = ENDPT_NONE" by (simp add: sample_irq_sel sample_hook_def)
  show ?thesis
    using setpolicy_hooks [OF sample_irq_lines sample_irq_kinv, of ?m 2] f o c e by (auto simp: sample_lines_def)
qed

text \<open>
  C35. Removing a policy does not give the hook back. The call takes the hook off its line and
  answers success, but the hook keeps its owner, so it is neither free for others nor refused when
  the same driver uses it again; and the line is left masked even if other drivers hook it and none
  of them is active, so their interrupts no longer arrive.
\<close>

theorem rmpolicy_keeps_hook:
  assumes "irq_lines s L" and "0 \<le> q" and "q < NR_IRQ_VECTORS" and "h \<in> set (L q)" and "0 \<le> h" "h < NR_IRQ_HOOKS"
    and "m_data1 m = IRQ_RMPOLICY" and "m_data7 m = h + 1" and "h_proc_nr_e (irq_hooks s h) = m_source m" and "m_source m \<noteq> ENDPT_NONE"
  shows "\<exists>s'. do_irqctl m s = Some (0, m, s') \<and> irq_lines s' (L(q := remove1 h (L q))) \<and>
    h_proc_nr_e (irq_hooks s' h) = m_source m \<and> irq_masked s' q \<and>
    irq_actids s' q = irq_actids s q AND NOT (h_id (irq_hooks s h))"
proof -
  have lq: "irq_line s q (L q)" using assms(1-3) by (simp add: irq_lines_def)
  obtain s' where r: "rm_irq_handler h s = Some s'" and l: "irq_lines s' (L(q := remove1 h (L q)))"
    and mk: "irq_masked s' = (irq_masked s)(q := True)" and a: "irq_actids s' q = irq_actids s q AND NOT (h_id (irq_hooks s h))"
    and o: "\<forall>x. h_proc_nr_e (irq_hooks s' x) = h_proc_nr_e (irq_hooks s x)"
    using rm_irq_handler_spec [OF assms(1-4) irq_lineD(2) [OF lq assms(4)] refl] by blast
  have "wrap32 (uwrap32 (m_data7 m) - 1) = h" using assms(5,6,8) by (simp add: uwrap32_id wrap32_id)
  then have "do_irqctl m s = Some (0, m, s')"
    using assms(5-10) r by (simp add: do_irqctl_def Let_def)
  then show ?thesis using l mk a o assms(9) by auto
qed

theorem rmpolicy_keeps_hook_witness:
  "\<exists>s'. do_irqctl (msg0\<lparr>m_source := 0, m_data1 := IRQ_RMPOLICY, m_data7 := 1\<rparr>) sample_irq =
      Some (0, msg0\<lparr>m_source := 0, m_data1 := IRQ_RMPOLICY, m_data7 := 1\<rparr>, s') \<and>
    irq_lines s' (sample_lines(5 := [1])) \<and> h_proc_nr_e (irq_hooks s' 0) = 0 \<and> irq_masked s' 5 \<and> irq_actids s' 5 = 0"
  using rmpolicy_keeps_hook [OF sample_irq_lines, of 5 0 "msg0\<lparr>m_source := 0, m_data1 := IRQ_RMPOLICY, m_data7 := 1\<rparr>"]
  by (auto simp: sample_lines_def sample_irq_sel sample_hook_def)

text \<open>
  C36. Removing a policy twice removes the hook of somebody else. A hook is looked up by its id on
  the line, and the id of a removed hook is given to the next driver; if a driver removes its
  policy again, the call succeeds and takes the other driver's hook off the line.
\<close>

theorem rmpolicy_again_removes_other:
  assumes "irq_lines s L" and "0 \<le> q" and "q < NR_IRQ_VECTORS" and "x \<in> set (L q)" and "h \<notin> set (L q)" and "0 \<le> h" "h < NR_IRQ_HOOKS"
    and "h_irq (irq_hooks s h) = q" and "h_id (irq_hooks s x) = h_id (irq_hooks s h)"
    and "m_data1 m = IRQ_RMPOLICY" and "m_data7 m = h + 1" and "h_proc_nr_e (irq_hooks s h) = m_source m" and "m_source m \<noteq> ENDPT_NONE"
  shows "\<exists>s'. do_irqctl m s = Some (0, m, s') \<and> irq_lines s' (L(q := remove1 x (L q)))"
proof -
  obtain s' where r: "rm_irq_handler h s = Some s'" and l: "irq_lines s' (L(q := remove1 x (L q)))"
    using rm_irq_handler_spec [OF assms(1-4,8,9)] by blast
  have "wrap32 (uwrap32 (m_data7 m) - 1) = h" using assms(6,7,11) by (simp add: uwrap32_id wrap32_id)
  then have "do_irqctl m s = Some (0, m, s')"
    using assms(6-13) r by (simp add: do_irqctl_def Let_def)
  then show ?thesis using l by blast
qed

text \<open>Hook 2 was removed from line 5 and its id given to hook 0.\<close>

definition sample_removed :: kstate where
  "sample_removed = sample_irq\<lparr>irq_hooks := sample_hook(2 := (sample_hook 2)\<lparr>h_irq := 5, h_id := 1, h_proc_nr_e := 11\<rparr>)\<rparr>"

theorem rmpolicy_again_removes_other_witness:
  "\<exists>s'. do_irqctl (msg0\<lparr>m_source := 11, m_data1 := IRQ_RMPOLICY, m_data7 := 3\<rparr>) sample_removed =
      Some (0, msg0\<lparr>m_source := 11, m_data1 := IRQ_RMPOLICY, m_data7 := 3\<rparr>, s') \<and> irq_lines s' (sample_lines(5 := [1]))"
proof -
  have e: "irq_hooks sample_removed x = (if x = 2 then (sample_hook 2)\<lparr>h_irq := 5, h_id := 1, h_proc_nr_e := 11\<rparr> else sample_hook x)"
    "irq_handlers sample_removed = irq_handlers sample_irq" for x by (simp_all add: sample_removed_def)
  have "irq_lines sample_removed sample_lines"
    using one_bit
    by (auto simp: irq_lines_def irq_line_def sample_removed_def sample_irq_def sample_lines_def sample_hook_def inj_on_def)
  from rmpolicy_again_removes_other [OF this, of 5 0 2 "msg0\<lparr>m_source := 11, m_data1 := IRQ_RMPOLICY, m_data7 := 3\<rparr>"]
  show ?thesis by (auto simp: e sample_lines_def sample_hook_def)
qed

end
