(* ===== verification/Kernel_System.thy ===== *)
theory Kernel_System
  imports Kernel_Irq
begin

text \<open>
  Shared routines of the system task, \<^verbatim>\<open>kernel/system.c\<close>: allocation of privilege structures, the
  masks of allowed message destinations, and \<^verbatim>\<open>clear_endpoint\<close>, which takes a dying process out of
  communication.
\<close>

section \<open>Privilege structures\<close>

text \<open>Ids below \<^verbatim>\<open>NR_STATIC_PRIV_IDS\<close> are static, the others dynamic.\<close>

abbreviation (input) NR_STATIC_PRIV_IDS :: int where "NR_STATIC_PRIV_IDS \<equiv> NR_BOOT_PROCS"

definition is_static_priv_id :: "int \<Rightarrow> bool" where
  "is_static_priv_id i \<longleftrightarrow> 0 \<le> i \<and> i < NR_STATIC_PRIV_IDS"

definition get_priv :: "int \<Rightarrow> int \<Rightarrow> kstate \<Rightarrow> int \<times> kstate" where
  "get_priv rc priv_id s =
     (let slot = (if priv_id = NULL_PRIV_ID then
                    (case find (\<lambda>i. s_proc_nr (privs s i) = ENDPT_NONE) [NR_STATIC_PRIV_IDS..NR_SYS_PROCS - 1] of
                       None \<Rightarrow> Inl (- ENOSPC) | Some i \<Rightarrow> Inr i)
                  else if \<not> is_static_priv_id priv_id then Inl (- EINVAL)
                  else if s_proc_nr (privs s priv_id) \<noteq> ENDPT_NONE then Inl (- EBUSY)
                  else Inr priv_id)
      in case slot of
           Inl e \<Rightarrow> (e, s)
         | Inr i \<Rightarrow>
             (0, upd_priv i (\<lambda>pr. pr\<lparr>s_proc_nr := p_nr (procs s rc), s_asyntab := uwrap32 (-1), s_asynsize := 0\<rparr>)
                   (upd_proc rc (\<lambda>p. p\<lparr>p_priv := i\<rparr>) s)))"

definition set_sendto_bit :: "int \<Rightarrow> int \<Rightarrow> kstate \<Rightarrow> kstate" where
  "set_sendto_bit rp i s =
     (let pid = s_id (priv_of s rp)
      in if s_proc_nr (privs s i) = ENDPT_NONE \<or> pid = i
         then upd_priv_of rp (\<lambda>pr. pr\<lparr>s_ipc_to := unset_sys_bit (s_ipc_to pr) i\<rparr>) s
         else (let s1 = upd_priv_of rp (\<lambda>pr. pr\<lparr>s_ipc_to := set_sys_bit (s_ipc_to pr) i\<rparr>) s
               in if has_any (s_trap_mask (privs s1 i)) (NOT 4)
                  then upd_priv i (\<lambda>pr. pr\<lparr>s_ipc_to := set_sys_bit (s_ipc_to pr) pid\<rparr>) s1 else s1))"

definition unset_sendto_bit :: "int \<Rightarrow> int \<Rightarrow> kstate \<Rightarrow> kstate" where
  "unset_sendto_bit rp i s =
     (let pid = s_id (priv_of s rp);
          s1 = upd_priv_of rp (\<lambda>pr. pr\<lparr>s_ipc_to := unset_sys_bit (s_ipc_to pr) i\<rparr>) s
      in upd_priv i (\<lambda>pr. pr\<lparr>s_ipc_to := unset_sys_bit (s_ipc_to pr) pid\<rparr>) s1)"

section \<open>Taking a process out of communication\<close>

text \<open>One round of the loop over the process table at the end of \<^verbatim>\<open>clear_endpoint\<close>.\<close>

definition clear_one :: "int \<Rightarrow> int \<Rightarrow> kstate \<Rightarrow> kstate option" where
  "clear_one rc rp s =
     (if isemptyp (procs s rp) then Some s
      else do {
        let s1 = upd_priv_of rp (\<lambda>pr. pr\<lparr>s_notify_pending :=
                   unset_sys_bit (s_notify_pending pr) (s_id (priv_of s rc))\<rparr>) s;
        s2 \<leftarrow> (if RTS_ISSET (procs s1 rp) RTS_RECEIVING \<and> p_getfrom_e (procs s1 rp) = p_endpoint (procs s1 rc)
               then RTS_LOCK_UNSET rp RTS_RECEIVING (upd_proc rp (\<lambda>p. p\<lparr>p_retreg := - ESRCDIED\<rparr>) s1)
               else Some s1);
        if RTS_ISSET (procs s2 rp) RTS_SENDING \<and> p_sendto_e (procs s2 rp) = p_endpoint (procs s2 rc)
        then RTS_LOCK_UNSET rp RTS_SENDING (upd_proc rp (\<lambda>p. p\<lparr>p_retreg := - EDSTDIED\<rparr>) s2)
        else Some s2
      })"

fun clear_loop :: "int \<Rightarrow> int list \<Rightarrow> kstate \<Rightarrow> kstate option" where
  "clear_loop rc [] s = Some s"
| "clear_loop rc (rp # rps) s = Option.bind (clear_one rc rp s) (clear_loop rc rps)"

text \<open>Leaving the queue of the process it is sending to.\<close>

definition leave_queue :: "int \<Rightarrow> kstate \<Rightarrow> kstate option" where
  "leave_queue rc s = do {
     target \<leftarrow> okendpt s (p_sendto_e (procs s rc));
     xpp \<leftarrow> walk (\<lambda>x. x = rc) (q_links s) (p_caller_q (procs s target)) Head;
     let s1 = (if cell_rd (q_links s) (p_caller_q (procs s target)) xpp = None then s
               else cell_wr (set_caller_q target) set_q_link xpp (q_links s rc) s);
     Some (set_rts rc (p_rts_flags (procs s1 rc) AND NOT RTS_SENDING) s1)
   }"

definition clear_endpoint :: "int \<Rightarrow> kstate \<Rightarrow> kstate option" where
  "clear_endpoint rc s =
     (if isemptyp (procs s rc) then None
      else if p_endpoint (procs s rc) = PM_PROC_NR \<or> p_endpoint (procs s rc) = VFS_PROC_NR \<or>
              p_endpoint (procs s rc) = VM_PROC_NR then None
      else do {
        s1 \<leftarrow> RTS_LOCK_SET rc RTS_NO_ENDPOINT s;
        let s2 = (if has_any (s_flags (priv_of s1 rc)) SYS_PROC
                  then upd_priv_of rc (\<lambda>pr. pr\<lparr>s_asynsize := 0\<rparr>) s1 else s1);
        s3 \<leftarrow> (if RTS_ISSET (procs s2 rc) RTS_SENDING then leave_queue rc s2 else Some s2);
        let s4 = set_rts rc (p_rts_flags (procs s3 rc) AND NOT RTS_RECEIVING) s3;
        clear_loop rc [- NR_TASKS..NR_PROCS - 1] s4
      })"

section \<open>The view of a dying process\<close>

definition v_dead :: "int \<Rightarrow> ipcview \<Rightarrow> ipcview" where
  "v_dead rc v = v(rc := (v rc)\<lparr>i_dead := True\<rparr>)"

definition wake1 :: "int \<Rightarrow> ipcst \<Rightarrow> ipcst" where
  "wake1 e p = (if i_empty p then p else p\<lparr>i_recv := (i_recv p \<and> i_getfrom p \<noteq> e), i_send := (i_send p \<and> i_sendto p \<noteq> e)\<rparr>)"

lemma wake1_sel [simp]:
  "i_empty (wake1 e p) = i_empty p" "i_dead (wake1 e p) = i_dead p" "i_ep (wake1 e p) = i_ep p"
  "i_sendto (wake1 e p) = i_sendto p" "i_getfrom (wake1 e p) = i_getfrom p" "i_callq (wake1 e p) = i_callq p"
  "i_link (wake1 e p) = i_link p" "i_recv (wake1 e p) \<longleftrightarrow> i_recv p \<and> (i_empty p \<or> i_getfrom p \<noteq> e)"
  "i_send (wake1 e p) \<longleftrightarrow> i_send p \<and> (i_empty p \<or> i_sendto p \<noteq> e)"
  by (auto simp: wake1_def)

lemma chain_restrict:
  assumes "chain w p xs" and "\<And>n. n \<in> set xs \<Longrightarrow> w' n = None \<or> w' n = w n" and "q = None \<or> q = p"
  shows "\<exists>ys. chain w' q ys"
  using assms
proof (induction xs arbitrary: p q)
  case Nil
  then show ?case by (auto intro: exI [of _ "[]"])
next
  case (Cons x xs)
  show ?case
  proof (cases q)
    case None
    then show ?thesis by (auto intro: exI [of _ "[]"])
  next
    case (Some y)
    with Cons.prems have "p = Some x" "y = x" "chain w (w x) xs" by auto
    moreover obtain ys where "chain w' (w' x) ys"
      using Cons.IH [OF \<open>chain w (w x) xs\<close>, of "w' x"] Cons.prems(2) by auto
    ultimately show ?thesis using Some by (intro exI [of _ "x # ys"]) simp
  qed
qed

text \<open>Once a process neither sends nor receives, marking it dead and waking those who wait for it is safe.\<close>

lemma v_wake_ok:
  assumes i: "ipc_ok v" and v: "valid_nr rc" "\<not> i_empty (v rc)" and b: "\<not> i_send (v rc)" "\<not> i_recv (v rc)"
  defines "w \<equiv> \<lambda>n. if valid_nr n then wake1 (i_ep (v rc)) (v_dead rc v n) else v_dead rc v n"
  shows "ipc_ok w"
proof -
  let ?e = "i_ep (v rc)"
  have bo: "blocked_ok v" using i by (simp add: ipc_ok_def)
  have P: "ENDPOINT_P ?e = rc" by (rule blocked_okD(6) [OF bo v])
  have f: "i_empty (w n) = i_empty (v n)" "i_ep (w n) = i_ep (v n)" "i_dead (w n) \<longleftrightarrow> n = rc \<or> i_dead (v n)"
    "i_sendto (w n) = i_sendto (v n)" "i_getfrom (w n) = i_getfrom (v n)" "i_callq (w n) = i_callq (v n)"
    "i_link (w n) = i_link (v n)" for n by (auto simp: w_def v_dead_def)
  have sd: "i_send (w n) \<longleftrightarrow> i_send (v n) \<and> i_sendto (v n) \<noteq> ?e" if "valid_nr n" for n
    using blocked_okD(1) [OF bo that] that by (auto simp: w_def v_dead_def)
  have rv: "i_recv (w n) \<longleftrightarrow> i_recv (v n) \<and> i_getfrom (v n) \<noteq> ?e" if "valid_nr n" for n
    using blocked_okD(3) [OF bo that] that by (auto simp: w_def v_dead_def)
  have ep: "ep_ok w e" if "ep_ok v e" "e \<noteq> ?e" for e
    using that P by (auto simp: ep_ok_def Let_def f)
  have "blocked_ok w"
    unfolding blocked_ok_def
  proof (intro allI impI)
    fix n assume n: "valid_nr n"
    note d = blocked_okD [OF bo n]
    show "(i_send (w n) \<longrightarrow> \<not> i_empty (w n) \<and> ep_ok w (i_sendto (w n))) \<and>
      (i_recv (w n) \<longrightarrow> \<not> i_empty (w n) \<and> (i_getfrom (w n) = ENDPT_ANY \<or> ep_ok w (i_getfrom (w n)))) \<and>
      (i_send (w n) \<longrightarrow> i_recv (w n) \<longrightarrow> i_getfrom (w n) = i_sendto (w n)) \<and>
      (\<not> i_empty (w n) \<longrightarrow> ENDPOINT_P (i_ep (w n)) = n)"
      unfolding sd [OF n] rv [OF n] f using d ep by blast
  qed
  moreover have "acyc (waits w)"
    unfolding acyc_def
  proof (intro allI impI)
    fix n assume n: "valid_nr n"
    have u: "waits w m = None \<or> waits w m = waits v m" if "valid_nr m" for m
      using blocked_okD(5) [OF bo that] sd [OF that] rv [OF that] by (auto simp: waits_def f)
    obtain xs where xs: "chain (waits v) (Some n) xs" using i n by (auto simp: ipc_ok_def acyc_def)
    have "\<And>m. m \<in> set xs \<Longrightarrow> waits w m = None \<or> waits w m = waits v m"
      using path_valid [OF bo n xs] u by blast
    from chain_restrict [OF xs this, of "Some n"] have "\<exists>ys. chain (waits w) (Some n) ys" by simp
    then show "\<exists>xs. chain (waits w) (Some n) xs" by blast
  qed
  moreover have "\<exists>C. callers_ok w C"
  proof -
    obtain C where C: "callers_ok v C" using i by (auto simp: ipc_ok_def)
    have "callers_ok w C"
      unfolding callers_ok_def
    proof (intro allI impI)
      fix d assume "reachable_ep w d"
      then have r: "reachable_ep v d" and ne: "d \<noteq> rc" by (auto simp: reachable_ep_def f)
      have "senders w d = senders v d"
        using ne P sd by (auto simp: senders_def f)
      then show "chain (i_links w) (i_callq (w d)) (C d) \<and> set (C d) = senders w d"
        using callers_okD(1,2) [OF C r] by (simp add: f)
    qed
    then show ?thesis by blast
  qed
  ultimately show ?thesis by (simp add: ipc_ok_def)
qed

section \<open>The loop over the process table\<close>

lemma set_rts_core:
  assumes k: "kcore s" and l: "live s n" and f: "f AND RTS_SLOT_FREE = 0" "f \<noteq> 0" and r: "p_rts_flags (procs s n) \<noteq> 0"
  shows "kcore (set_rts n f s)"
proof -
  have "runnables (set_rts n f s) = runnables s"
    using f(2) r by (auto simp: runnables_def set_rts_def proc_is_runnable_def)
  then have "runq_inv (set_rts n f s)" using kcoreD(2) [OF k] by (simp add: runq_inv_def)
  with kcore_set_rts_ksane [OF kcoreD(1) [OF k] l f(1)] show ?thesis by (simp add: kcore_def)
qed

lemma RTS_LOCK_UNSET_core:
  assumes k: "kcore s" and l: "live s n"
  shows "\<exists>s'. RTS_LOCK_UNSET n f s = Some s' \<and> kcore s' \<and> note_view s' = note_view s \<and>
    ipcv s' = ipcv (set_rts n (p_rts_flags (procs s n) AND NOT f) s)"
proof -
  have lo: "lock_ok s" using k by (simp add: kcore_def ksane_def)
  from RTS_UNSET_core [OF k l, of f] obtain s' where u: "RTS_UNSET n f s = Some s'" "kcore s'"
    and r: "sched_rel (set_rts n (p_rts_flags (procs s n) AND NOT f) s) s'" by blast
  show ?thesis using u RTS_LOCK_UNSET_eq [OF lo] sched_rel_ipcv [OF r] note_view_RTS(2) [OF u(1)] by simp
qed

lemma RTS_LOCK_SET_core:
  assumes k: "kcore s" and l: "live s n" and f: "f \<noteq> 0" "f AND RTS_SLOT_FREE = 0"
  shows "\<exists>s'. RTS_LOCK_SET n f s = Some s' \<and> kcore s' \<and> note_view s' = note_view s \<and>
    ipcv s' = ipcv (set_rts n (p_rts_flags (procs s n) OR f) s) \<and> p_rts_flags (procs s' n) = p_rts_flags (procs s n) OR f"
proof -
  have lo: "lock_ok s" using k by (simp add: kcore_def ksane_def)
  from RTS_SET_core [OF k l f] obtain s' where u: "RTS_SET n f s = Some s'" "kcore s'"
    and r: "sched_rel (set_rts n (p_rts_flags (procs s n) OR f) s) s'" by blast
  show ?thesis
    using u RTS_LOCK_SET_eq [OF lo] sched_rel_ipcv [OF r] note_view_RTS(1) [OF u(1)] RTS_SET_rts [OF u(1), of n] by simp
qed

lemma note_view_retreg:
  assumes "note_view s' = note_view s"
  shows "p_retreg (procs s' n) = p_retreg (procs s n)"
proof -
  have "procs (note_view s') n = procs (note_view s) n" using assms by simp
  from arg_cong [OF this, of p_retreg] show ?thesis by (simp add: note_view_def)
qed

lemma retreg_kept:
  assumes "kcore s"
  shows "kcore (upd_proc n (\<lambda>p. p\<lparr>p_retreg := k\<rparr>) s)" "ipcv (upd_proc n (\<lambda>p. p\<lparr>p_retreg := k\<rparr>) s) = ipcv s"
  using kcore_upd_proc [OF assms, of n "\<lambda>p. p\<lparr>p_retreg := k\<rparr>"]
  by (auto simp: quiet_def ipcv_upd_proc ipcp_def) (simp add: ipcv_def ipcp_def fun_eq_iff)

text \<open>The error a process gets when the process with endpoint \<open>e\<close> dies.\<close>

definition wake_code :: "int \<Rightarrow> ipcst \<Rightarrow> int \<Rightarrow> int" where
  "wake_code e p r = (if i_empty p then r else if i_send p \<and> i_sendto p = e then - EDSTDIED
     else if i_recv p \<and> i_getfrom p = e then - ESRCDIED else r)"

lemma clear_one_spec:
  assumes k: "kcore s" and v: "valid_nr rp"
  shows "\<exists>s'. clear_one rc rp s = Some s' \<and> kcore s' \<and>
    ipcv s' = (ipcv s)(rp := wake1 (i_ep (ipcv s rc)) (ipcv s rp)) \<and>
    (\<forall>n. p_retreg (procs s' n) = (if n = rp then wake_code (i_ep (ipcv s rc)) (ipcv s rp) (p_retreg (procs s rp))
       else p_retreg (procs s n)))"
proof (cases "i_empty (ipcv s rp)")
  case True
  then show ?thesis
    using k isemptyp_view [OF kcoreD(1) [OF k] v] by (auto simp: clear_one_def wake1_def wake_code_def fun_eq_iff)
next
  case False
  let ?e = "i_ep (ipcv s rc)" and ?p = "ipcv s rp"
  define s1 where "s1 = upd_priv_of rp (\<lambda>pr. pr\<lparr>s_notify_pending := unset_sys_bit (s_notify_pending pr) (s_id (priv_of s rc))\<rparr>) s"
  have k1: "kcore s1" unfolding s1_def by (rule kcore_upd_priv [OF k]) (simp_all add: get_unset_sys_bit)
  have v1: "ipcv s1 = ipcv s" by (simp add: s1_def)
  have l1: "live s1 rp" unfolding live_view v1 using v False by simp
  have p1: "procs s1 = procs s" by (simp add: s1_def upd_priv_of_def upd_priv_def)
  let ?R = "i_recv ?p \<and> i_getfrom ?p = ?e"
  let ?u = "upd_proc rp (\<lambda>p. p\<lparr>p_retreg := - ESRCDIED\<rparr>) s1"
  have "\<exists>s2. (if ?R then RTS_LOCK_UNSET rp RTS_RECEIVING ?u else Some s1) = Some s2 \<and> kcore s2 \<and>
     ipcv s2 = (ipcv s)(rp := ?p\<lparr>i_recv := (i_recv ?p \<and> i_getfrom ?p \<noteq> ?e)\<rparr>) \<and>
     (\<forall>n. p_retreg (procs s2 n) = (if n = rp \<and> ?R then - ESRCDIED else p_retreg (procs s n)))"
  proof (cases ?R)
    case True
    have "live ?u rp" using l1 by simp
    from RTS_LOCK_UNSET_core [OF retreg_kept(1) [OF k1] this] obtain s2 where
      u: "RTS_LOCK_UNSET rp RTS_RECEIVING ?u = Some s2" "kcore s2" "note_view s2 = note_view ?u"
      "ipcv s2 = ipcv (set_rts rp (p_rts_flags (procs ?u rp) AND NOT RTS_RECEIVING) ?u)" by blast
    have "ipcv s2 = v_unrecv rp (ipcv s)" using u(4) unfolding ipcv_rts retreg_kept(2) [OF k1] v1 .
    with True u show ?thesis using note_view_retreg [OF u(3)] by (auto simp: v_unrecv_def p1)
  next
    case F: False
    show ?thesis unfolding if_not_P [OF F] using k1 v1 F by (intro exI [of _ s1]) (auto simp: p1 fun_eq_iff)
  qed
  then obtain s2 where r2: "(if ?R then RTS_LOCK_UNSET rp RTS_RECEIVING ?u else Some s1) = Some s2" and k2: "kcore s2"
    and v2: "ipcv s2 = (ipcv s)(rp := ?p\<lparr>i_recv := (i_recv ?p \<and> i_getfrom ?p \<noteq> ?e)\<rparr>)"
    and g2: "\<forall>n. p_retreg (procs s2 n) = (if n = rp \<and> ?R then - ESRCDIED else p_retreg (procs s n))" by blast
  have l2: "live s2 rp" unfolding live_view v2 using v False by simp
  have e2: "i_ep (ipcv s2 rc) = ?e" "i_send (ipcv s2 rp) = i_send ?p" "i_sendto (ipcv s2 rp) = i_sendto ?p" using v2 by auto
  let ?S = "i_send ?p \<and> i_sendto ?p = ?e"
  let ?w = "upd_proc rp (\<lambda>p. p\<lparr>p_retreg := - EDSTDIED\<rparr>) s2"
  have "\<exists>s3. (if ?S then RTS_LOCK_UNSET rp RTS_SENDING ?w else Some s2) = Some s3 \<and> kcore s3 \<and>
     ipcv s3 = (ipcv s2)(rp := (ipcv s2 rp)\<lparr>i_send := (i_send ?p \<and> i_sendto ?p \<noteq> ?e)\<rparr>) \<and>
     (\<forall>n. p_retreg (procs s3 n) = (if n = rp \<and> ?S then - EDSTDIED else p_retreg (procs s2 n)))"
  proof (cases ?S)
    case True
    have "live ?w rp" using l2 by simp
    from RTS_LOCK_UNSET_core [OF retreg_kept(1) [OF k2] this] obtain s3 where
      u: "RTS_LOCK_UNSET rp RTS_SENDING ?w = Some s3" "kcore s3" "note_view s3 = note_view ?w"
      "ipcv s3 = ipcv (set_rts rp (p_rts_flags (procs ?w rp) AND NOT RTS_SENDING) ?w)" by blast
    have "ipcv s3 = (ipcv s2)(rp := (ipcv s2 rp)\<lparr>i_send := False\<rparr>)" using u(4) unfolding ipcv_rts retreg_kept(2) [OF k2] .
    with True u show ?thesis using note_view_retreg [OF u(3)] by auto
  next
    case F: False
    show ?thesis unfolding if_not_P [OF F] using k2 F e2 by (intro exI [of _ s2]) (auto simp: fun_eq_iff)
  qed
  then obtain s3 where r3: "(if ?S then RTS_LOCK_UNSET rp RTS_SENDING ?w else Some s2) = Some s3" and k3: "kcore s3"
    and v3: "ipcv s3 = (ipcv s2)(rp := (ipcv s2 rp)\<lparr>i_send := (i_send ?p \<and> i_sendto ?p \<noteq> ?e)\<rparr>)"
    and g3: "\<forall>n. p_retreg (procs s3 n) = (if n = rp \<and> ?S then - EDSTDIED else p_retreg (procs s2 n))" by blast
  have "clear_one rc rp s = Some s3"
  proof -
    have "\<not> isemptyp (procs s rp)" using isemptyp_view [OF kcoreD(1) [OF k] v] False by simp
    then show ?thesis
      unfolding clear_one_def Let_def s1_def [symmetric] ipcv_sel RTS_ISSET_view v1 using r2 r3 e2 by simp
  qed
  moreover have "ipcv s3 = (ipcv s)(rp := wake1 ?e ?p)" unfolding v3 v2 wake1_def using False by simp
  moreover have "p_retreg (procs s3 n) = (if n = rp then wake_code ?e ?p (p_retreg (procs s rp)) else p_retreg (procs s n))" for n
    using g2 g3 False by (auto simp: wake_code_def)
  ultimately show ?thesis using k3 by blast
qed

lemma clear_loop_spec:
  assumes "kcore s" and "\<forall>rp \<in> set rps. valid_nr rp" and "distinct rps"
  shows "\<exists>s'. clear_loop rc rps s = Some s' \<and> kcore s' \<and>
    ipcv s' = (\<lambda>n. if n \<in> set rps then wake1 (i_ep (ipcv s rc)) (ipcv s n) else ipcv s n) \<and>
    (\<forall>n. p_retreg (procs s' n) = (if n \<in> set rps then wake_code (i_ep (ipcv s rc)) (ipcv s n) (p_retreg (procs s n))
       else p_retreg (procs s n)))"
  using assms
proof (induction rps arbitrary: s)
  case Nil
  then show ?case by simp
next
  case (Cons rp rps)
  let ?e = "i_ep (ipcv s rc)"
  obtain s1 where r: "clear_one rc rp s = Some s1" and k: "kcore s1" and v: "ipcv s1 = (ipcv s)(rp := wake1 ?e (ipcv s rp))"
    and g: "\<forall>n. p_retreg (procs s1 n) = (if n = rp then wake_code ?e (ipcv s rp) (p_retreg (procs s rp)) else p_retreg (procs s n))"
    using clear_one_spec [OF Cons.prems(1), of rp rc] Cons.prems(2) by auto
  have e: "i_ep (ipcv s1 rc) = ?e" using v by simp
  have p: "\<forall>rp \<in> set rps. valid_nr rp" "distinct rps" using Cons.prems(2,3) by auto
  obtain s2 where r2: "clear_loop rc rps s1 = Some s2" and k2: "kcore s2"
    and v2: "ipcv s2 = (\<lambda>n. if n \<in> set rps then wake1 ?e (ipcv s1 n) else ipcv s1 n)"
    and g2: "\<forall>n. p_retreg (procs s2 n) = (if n \<in> set rps then wake_code ?e (ipcv s1 n) (p_retreg (procs s1 n)) else p_retreg (procs s1 n))"
    using Cons.IH [OF k p, unfolded e] by blast
  have n: "rp \<notin> set rps" using Cons.prems(3) by simp
  have "ipcv s2 = (\<lambda>n. if n \<in> set (rp # rps) then wake1 ?e (ipcv s n) else ipcv s n)"
    using v n by (auto simp: v2 fun_eq_iff)
  moreover have "p_retreg (procs s2 m) = (if m \<in> set (rp # rps) then wake_code ?e (ipcv s m) (p_retreg (procs s m))
       else p_retreg (procs s m))" for m using g g2 v n by auto
  ultimately show ?case using r r2 k2 by auto
qed

section \<open>What clearing an endpoint leaves alone\<close>

text \<open>The state without what notifications change and without queues of callers, results, and asynchronous tables.\<close>

definition ce_view :: "kstate \<Rightarrow> kstate" where
  "ce_view s = (note_view s)\<lparr>procs := (\<lambda>n. (procs (note_view s) n)\<lparr>p_retreg := 0, p_caller_q := None, p_q_link := None\<rparr>),
     privs := (\<lambda>i. (privs (note_view s) i)\<lparr>s_asynsize := 0\<rparr>)\<rparr>"

lemma ce_view_note: "note_view s' = note_view s \<Longrightarrow> ce_view s' = ce_view s"
  by (simp add: ce_view_def)

lemma ce_view_upd [simp]:
  "ce_view (upd_proc n (\<lambda>p. p\<lparr>p_retreg := k\<rparr>) s) = ce_view s"
  "ce_view (upd_priv_of n (\<lambda>pr. pr\<lparr>s_asynsize := a\<rparr>) s) = ce_view s"
  "ce_view (upd_priv_of n (\<lambda>pr. pr\<lparr>s_notify_pending := g pr\<rparr>) s) = ce_view s"
  "ce_view (set_rts n f s) = ce_view s" "ce_view (set_q_link x l s) = ce_view s" "ce_view (set_caller_q x l s) = ce_view s"
  by (simp_all add: ce_view_def note_view_def upd_proc_def upd_priv_of_def upd_priv_def set_rts_def set_q_link_def
      set_caller_q_def fun_eq_iff)

lemma ce_view_cell_wr [simp]: "ce_view (cell_wr (set_caller_q d) set_q_link c l s) = ce_view s"
  by (simp add: cell_wr_def split: cell.splits)

lemma ce_view_fields:
  assumes "ce_view s' = ce_view s"
  shows "p_priv (procs s' n) = p_priv (procs s n)" "p_endpoint (procs s' n) = p_endpoint (procs s n)"
    "s_flags (privs s' i) = s_flags (privs s i)" "s_id (privs s' i) = s_id (privs s i)"
    "s_proc_nr (privs s' i) = s_proc_nr (privs s i)" "s_ipc_to (privs s' i) = s_ipc_to (privs s i)"
    "irq_hooks s' = irq_hooks s" "irq_handlers s' = irq_handlers s" "clock_timers s' = clock_timers s"
    "next_timeout s' = next_timeout s" "proc_ptr s' = proc_ptr s" "who_p s' = who_p s" "who_e s' = who_e s"
proof -
  have e: "procs (ce_view s') n = procs (ce_view s) n" "privs (ce_view s') i = privs (ce_view s) i" using assms by simp_all
  note d = e [unfolded ce_view_def note_view_def, simplified]
  show "p_priv (procs s' n) = p_priv (procs s n)" using arg_cong [OF d(1), of p_priv] by simp
  show "p_endpoint (procs s' n) = p_endpoint (procs s n)" using arg_cong [OF d(1), of p_endpoint] by simp
  show "s_flags (privs s' i) = s_flags (privs s i)" using arg_cong [OF d(2), of s_flags] by simp
  show "s_id (privs s' i) = s_id (privs s i)" using arg_cong [OF d(2), of s_id] by simp
  show "s_proc_nr (privs s' i) = s_proc_nr (privs s i)" using arg_cong [OF d(2), of s_proc_nr] by simp
  show "s_ipc_to (privs s' i) = s_ipc_to (privs s i)" using arg_cong [OF d(2), of s_ipc_to] by simp
  show "irq_hooks s' = irq_hooks s" "irq_handlers s' = irq_handlers s" "clock_timers s' = clock_timers s"
    "next_timeout s' = next_timeout s" "proc_ptr s' = proc_ptr s" "who_p s' = who_p s" "who_e s' = who_e s"
    using arg_cong [OF assms, of irq_hooks] arg_cong [OF assms, of irq_handlers] arg_cong [OF assms, of clock_timers]
      arg_cong [OF assms, of next_timeout] arg_cong [OF assms, of proc_ptr] arg_cong [OF assms, of who_p]
      arg_cong [OF assms, of who_e] by (simp_all add: ce_view_def note_view_def)
qed

text \<open>A notification from structure \<open>j\<close> is pending at structure \<open>i\<close>.\<close>

definition pend :: "kstate \<Rightarrow> int \<Rightarrow> int \<Rightarrow> bool" where
  "pend s i j \<longleftrightarrow> get_sys_bit (s_notify_pending (privs s i)) j"

lemma RTS_LOCK_frame:
  assumes "lock_ok s" and "RTS_LOCK_SET n f s = Some s' \<or> RTS_LOCK_UNSET n f s = Some s'"
  shows "lock_ok s'" "privs s' = privs s" "ce_view s' = ce_view s"
proof -
  from assms(2) have "sched_view s' = sched_view (set_rts n (p_rts_flags (procs s n) OR f) s) \<or>
      sched_view s' = sched_view (set_rts n (p_rts_flags (procs s n) AND NOT f) s)"
    unfolding RTS_LOCK_SET_eq [OF assms(1)] RTS_LOCK_UNSET_eq [OF assms(1)]
    using RTS_SET_sched_view RTS_UNSET_sched_view by blast
  then obtain g where v: "sched_view s' = sched_view (set_rts n g s)" by blast
  note f = sched_view_fields [OF v]
  show "lock_ok s'" using assms(1) f(18,19) by (simp add: lock_ok_def set_rts_def upd_proc_def)
  show "privs s' = privs s" using f(16) by (simp add: set_rts_def upd_proc_def)
  show "ce_view s' = ce_view s" using ce_view_note [OF note_view_sched [OF v]] by simp
qed

lemma clear_one_frame:
  assumes "lock_ok s" and "clear_one rc rp s = Some s'"
  shows "lock_ok s'" "ce_view s' = ce_view s"
    "isemptyp (procs s rp) \<Longrightarrow> privs s' = privs s"
    "\<not> isemptyp (procs s rp) \<Longrightarrow> privs s' = (privs s)(p_priv (procs s rp) := (priv_of s rp)
       \<lparr>s_notify_pending := unset_sys_bit (s_notify_pending (priv_of s rp)) (s_id (priv_of s rc))\<rparr>)"
proof -
  let ?s1 = "upd_priv_of rp (\<lambda>pr. pr\<lparr>s_notify_pending := unset_sys_bit (s_notify_pending pr) (s_id (priv_of s rc))\<rparr>) s"
  have p1: "privs ?s1 = (privs s)(p_priv (procs s rp) := (priv_of s rp)
       \<lparr>s_notify_pending := unset_sys_bit (s_notify_pending (priv_of s rp)) (s_id (priv_of s rc))\<rparr>)"
    by (simp add: upd_priv_of_def upd_priv_def priv_of_def)
  have l1: "lock_ok ?s1" using assms(1) by (simp add: lock_ok_def upd_priv_of_def upd_priv_def)
  have u: "lock_ok (upd_proc rp (\<lambda>p. p\<lparr>p_retreg := k\<rparr>) t) = lock_ok t" "privs (upd_proc rp (\<lambda>p. p\<lparr>p_retreg := k\<rparr>) t) = privs t" for k t
    by (simp_all add: lock_ok_def upd_proc_def)
  have "lock_ok s' \<and> ce_view s' = ce_view s \<and> privs s' = (if isemptyp (procs s rp) then privs s else privs ?s1)"
  proof (cases "isemptyp (procs s rp)")
    case True
    then show ?thesis using assms by (simp add: clear_one_def)
  next
    case False
    then obtain s2 where r2: "(if i_recv (ipcv ?s1 rp) \<and> p_getfrom_e (procs ?s1 rp) = p_endpoint (procs ?s1 rc)
          then RTS_LOCK_UNSET rp RTS_RECEIVING (upd_proc rp (\<lambda>p. p\<lparr>p_retreg := - ESRCDIED\<rparr>) ?s1) else Some ?s1) = Some s2"
      and r3: "(if i_send (ipcv s2 rp) \<and> p_sendto_e (procs s2 rp) = p_endpoint (procs s2 rc)
          then RTS_LOCK_UNSET rp RTS_SENDING (upd_proc rp (\<lambda>p. p\<lparr>p_retreg := - EDSTDIED\<rparr>) s2) else Some s2) = Some s'"
      using assms(2) unfolding clear_one_def Let_def RTS_ISSET_view if_not_P [OF False] Option.bind_eq_Some_conv by blast
    have f2: "lock_ok s2 \<and> privs s2 = privs ?s1 \<and> ce_view s2 = ce_view s"
    proof (cases "i_recv (ipcv ?s1 rp) \<and> p_getfrom_e (procs ?s1 rp) = p_endpoint (procs ?s1 rc)")
      case True
      have "lock_ok (upd_proc rp (\<lambda>p. p\<lparr>p_retreg := - ESRCDIED\<rparr>) ?s1)" unfolding u by (rule l1)
      from RTS_LOCK_frame [OF this disjI2, of rp RTS_RECEIVING s2] r2 [unfolded if_P [OF True]] show ?thesis
        by (simp add: u)
    next
      case False
      have "s2 = ?s1" using r2 unfolding if_not_P [OF False] by simp
      then show ?thesis using l1 by simp
    qed
    show ?thesis
    proof (cases "i_send (ipcv s2 rp) \<and> p_sendto_e (procs s2 rp) = p_endpoint (procs s2 rc)")
      case T: True
      have "lock_ok (upd_proc rp (\<lambda>p. p\<lparr>p_retreg := - EDSTDIED\<rparr>) s2)" unfolding u using f2 by simp
      from RTS_LOCK_frame [OF this disjI2, of rp RTS_SENDING s'] r3 [unfolded if_P [OF T]] f2 False show ?thesis
        by (simp add: u)
    next
      case F: False
      have "s' = s2" using r3 unfolding if_not_P [OF F] by simp
      then show ?thesis using f2 False by simp
    qed
  qed
  then show "lock_ok s'" "ce_view s' = ce_view s" "isemptyp (procs s rp) \<Longrightarrow> privs s' = privs s"
    "\<not> isemptyp (procs s rp) \<Longrightarrow> privs s' = (privs s)(p_priv (procs s rp) := (priv_of s rp)
       \<lparr>s_notify_pending := unset_sys_bit (s_notify_pending (priv_of s rp)) (s_id (priv_of s rc))\<rparr>)"
    unfolding p1 by simp_all
qed

lemma clear_loop_frame:
  assumes "kcore s" and "\<forall>rp \<in> set rps. valid_nr rp" and "clear_loop rc rps s = Some s'"
  shows "ce_view s' = ce_view s \<and> (\<forall>i j. pend s' i j \<longrightarrow> pend s i j) \<and>
    (\<forall>n \<in> set rps. live s n \<longrightarrow> \<not> pend s' (p_priv (procs s n)) (s_id (priv_of s rc)))"
  using assms
proof (induction rps arbitrary: s)
  case (Cons rp rps)
  obtain s1 where r1: "clear_one rc rp s = Some s1" and r2: "clear_loop rc rps s1 = Some s'"
    using Cons.prems(3) by (auto simp: Option.bind_eq_Some_conv)
  have v: "valid_nr rp" "\<forall>n \<in> set rps. valid_nr n" using Cons.prems(2) by auto
  have k1: "kcore s1" and v1: "ipcv s1 = (ipcv s)(rp := wake1 (i_ep (ipcv s rc)) (ipcv s rp))"
    using clear_one_spec [OF Cons.prems(1) v(1), of rc] r1 by auto
  have lo: "lock_ok s" using Cons.prems(1) by (simp add: kcore_def ksane_def)
  note f = clear_one_frame [OF lo r1]
  note c = ce_view_fields [OF f(2)]
  have id: "s_id (priv_of s1 rc) = s_id (priv_of s rc)" by (simp add: priv_of_def c)
  have lv: "live s1 n = live s n" for n unfolding live_view v1 by simp
  have IH: "ce_view s' = ce_view s1" "\<forall>i j. pend s' i j \<longrightarrow> pend s1 i j"
    "\<forall>n \<in> set rps. live s n \<longrightarrow> \<not> pend s' (p_priv (procs s n)) (s_id (priv_of s rc))"
    using Cons.IH [OF k1 v(2) r2] unfolding lv c id by blast+
  have p1: "pend s1 i j \<longrightarrow> pend s i j" for i j
    using f(3,4) by (cases "isemptyp (procs s rp)") (auto simp: pend_def get_unset_sys_bit priv_of_def)
  have "\<not> pend s1 (p_priv (procs s rp)) (s_id (priv_of s rc))" if "live s rp"
  proof -
    have "\<not> isemptyp (procs s rp)" using that unfolding isemptyp_view [OF kcoreD(1) [OF Cons.prems(1)] v(1)] live_view by simp
    then show ?thesis using f(4) by (simp add: pend_def get_unset_sys_bit)
  qed
  then show ?case using IH p1 f(2) by (metis set_ConsD)
qed simp

section \<open>Clearing an endpoint keeps the invariant\<close>

lemma v_dead_sel [simp]:
  "i_empty (v_dead c v n) = i_empty (v n)" "i_ep (v_dead c v n) = i_ep (v n)" "i_send (v_dead c v n) = i_send (v n)"
  "i_recv (v_dead c v n) = i_recv (v n)" "i_sendto (v_dead c v n) = i_sendto (v n)"
  "i_getfrom (v_dead c v n) = i_getfrom (v n)" "i_callq (v_dead c v n) = i_callq (v n)" "i_link (v_dead c v n) = i_link (v n)"
  "i_dead (v_dead c v n) \<longleftrightarrow> n = c \<or> i_dead (v n)"
  by (auto simp: v_dead_def)

lemma v_unrecv_dead: "v_unrecv c (v_dead c v) = v_dead c (v_unrecv c v)"
  by (auto simp: v_unrecv_def v_dead_def fun_eq_iff)

lemma leave_queue_spec:
  assumes k: "kcore s" and v: "ipcv s = v_dead rc v" and i: "ipc_ok v" and r: "valid_nr rc" "i_send (v rc)"
    and f: "has_any (p_rts_flags (procs s rc)) RTS_NO_ENDPOINT"
  shows "\<exists>s' v'. leave_queue rc s = Some s' \<and> kcore s' \<and> ipcv s' = v_dead rc v' \<and> ipc_ok v' \<and> \<not> i_send (v' rc) \<and>
    (\<forall>n. i_empty (v' n) = i_empty (v n) \<and> i_ep (v' n) = i_ep (v n) \<and> i_recv (v' n) = i_recv (v n) \<and>
      i_getfrom (v' n) = i_getfrom (v n) \<and> i_sendto (v' n) = i_sendto (v n) \<and> (n \<noteq> rc \<longrightarrow> i_send (v' n) = i_send (v n))) \<and>
    (\<forall>n. p_retreg (procs s' n) = p_retreg (procs s n)) \<and> has_any (p_rts_flags (procs s' rc)) RTS_NO_ENDPOINT"
proof -
  have bo: "blocked_ok v" using i by (simp add: ipc_ok_def)
  let ?d = "ENDPOINT_P (i_sendto (v rc))"
  have ep: "ep_ok v (i_sendto (v rc))" by (rule blocked_okD(2) [OF bo r])
  have le: "\<not> i_empty (v rc)" by (rule blocked_okD(1) [OF bo r])
  have rd: "reachable_ep v ?d" by (rule ep_ok_reachable [OF ep])
  obtain C where C: "callers_ok v C" using i by (auto simp: ipc_ok_def)
  note cd = callers_okD [OF C rd]
  have x: "rc \<in> set (C ?d)" using cd(2) r by (simp add: senders_def)
  have ok: "okendpt s (p_sendto_e (procs s rc)) = Some ?d"
    using isokendpt_view [OF kcoreD(1) [OF k], of "i_sendto (v rc)"] ep v
    by (simp add: okendpt_def ipcv_sel ep_ok_def Let_def)
  define xpp where "xpp = cell_after Head (takeWhile (\<lambda>y. y \<noteq> rc) (C ?d))"
  have ch: "chain (q_links s) (p_caller_q (procs s ?d)) (C ?d)"
    using cd(1) by (simp add: q_links_view v)
  have w: "walk (\<lambda>x. x = rc) (q_links s) (p_caller_q (procs s ?d)) Head = Some xpp"
    unfolding xpp_def by (rule walk_chain) (simp add: ch)
  have nr: "cell_rd (q_links s) (p_caller_q (procs s ?d)) xpp \<noteq> None"
  proof -
    have "chain (i_links v) (i_callq (v ?d)) (takeWhile (\<lambda>y. y \<noteq> rc) (C ?d) @ rc # tl (dropWhile (\<lambda>y. y \<noteq> rc) (C ?d)))"
      using cd(1) takeWhile_neq [OF x] by simp
    from callq.rd_after [OF this] show ?thesis by (simp add: xpp_def q_links_view v)
  qed
  define s1 where "s1 = cell_wr (set_caller_q ?d) set_q_link xpp (q_links s rc) s"
  define s' where "s' = set_rts rc (p_rts_flags (procs s1 rc) AND NOT RTS_SENDING) s1"
  have run: "leave_queue rc s = Some s'"
    unfolding leave_queue_def ok Option.bind.simps w Let_def s'_def s1_def if_not_P [OF nr] ..
  have k1: "kcore s1" unfolding s1_def by (rule kcore_cell_wr [OF k])
  have fl: "p_rts_flags (procs s1 n) = p_rts_flags (procs s n)" "p_retreg (procs s1 n) = p_retreg (procs s n)" for n
    by (auto simp: s1_def cell_wr_def set_caller_q_def set_q_link_def split: cell.splits)
  have l1: "live s1 rc" unfolding live_view s1_def using r le v by simp
  have f': "has_any (p_rts_flags (procs s1 rc) AND NOT RTS_SENDING) RTS_NO_ENDPOINT"
    using f by (simp add: fl and.assoc)
  have k': "kcore s'" unfolding s'_def
  proof (rule set_rts_core [OF k1 l1])
    show "(p_rts_flags (procs s1 rc) AND NOT RTS_SENDING) AND RTS_SLOT_FREE = 0"
      using l1 by (simp add: and.assoc)
    show "p_rts_flags (procs s1 rc) AND NOT RTS_SENDING \<noteq> 0" "p_rts_flags (procs s1 rc) \<noteq> 0"
      using f' f by (auto simp: fl)
  qed
  have v': "ipcv s' = v_dead rc (v_take ?d xpp rc v)"
  proof -
    have "ipcv s' = (ipcv s1)(rc := (ipcv s1 rc)\<lparr>i_send := False\<rparr>)" unfolding s'_def by (rule ipcv_rts(2))
    also have "ipcv s1 = cell_wr (v_set_callq ?d) v_set_link xpp (i_links v rc) (v_dead rc v)"
      by (simp add: s1_def v ipcv_sel(5))
    finally show ?thesis
      by (auto simp: v_take_def v_dead_def cell_wr_def v_set_callq_def v_set_link_def fun_eq_iff split: cell.splits)
  qed
  have "ipc_ok (v_take ?d xpp rc v)" unfolding xpp_def by (rule v_take_ok(1) [OF i C rd x])
  moreover have "p_retreg (procs s' n) = p_retreg (procs s n)" for n by (simp add: s'_def set_rts_def fl)
  moreover have "has_any (p_rts_flags (procs s' rc)) RTS_NO_ENDPOINT" using f' by (simp add: s'_def set_rts_def)
  ultimately show ?thesis using run k' v' by (intro exI [of _ s'] exI [of _ "v_take ?d xpp rc v"]) (simp add: v_take_sel)
qed

lemma leave_queue_frame: "leave_queue rc s = Some s' \<Longrightarrow> ce_view s' = ce_view s"
  by (auto simp: leave_queue_def Let_def Option.bind_eq_Some_conv split: if_splits)

lemma clear_endpoint_spec:
  assumes k: "kinv s" and l: "live s rc" and e: "p_endpoint (procs s rc) \<notin> {PM_PROC_NR, VFS_PROC_NR, VM_PROC_NR}"
  shows "\<exists>s'. clear_endpoint rc s = Some s' \<and> kinv s' \<and> i_dead (ipcv s' rc) \<and> \<not> i_send (ipcv s' rc) \<and> \<not> i_recv (ipcv s' rc) \<and>
    (\<forall>n. i_empty (ipcv s' n) = i_empty (ipcv s n) \<and> i_ep (ipcv s' n) = i_ep (ipcv s n)) \<and>
    (\<forall>n. valid_nr n \<and> n \<noteq> rc \<longrightarrow>
      (i_send (ipcv s' n) \<longleftrightarrow> i_send (ipcv s n) \<and> i_sendto (ipcv s n) \<noteq> i_ep (ipcv s rc)) \<and>
      (i_recv (ipcv s' n) \<longleftrightarrow> i_recv (ipcv s n) \<and> i_getfrom (ipcv s n) \<noteq> i_ep (ipcv s rc)) \<and>
      p_retreg (procs s' n) = wake_code (i_ep (ipcv s rc)) (ipcv s n) (p_retreg (procs s n))) \<and>
    ce_view s' = ce_view s \<and> (\<forall>n. live s n \<longrightarrow> \<not> pend s' (p_priv (procs s n)) (s_id (priv_of s rc)))"
proof -
  let ?v = "ipcv s" and ?e = "i_ep (ipcv s rc)"
  have vr: "valid_nr rc" and ne: "\<not> i_empty (?v rc)" using l unfolding live_view by auto
  have i: "ipc_ok ?v" by (rule kinvD(3) [OF k])
  have bo: "blocked_ok ?v" by (rule kinvD(4) [OF k])
  obtain s1 where r1: "RTS_LOCK_SET rc RTS_NO_ENDPOINT s = Some s1" and k1: "kcore s1" and n1: "note_view s1 = note_view s"
    and v1: "ipcv s1 = ipcv (set_rts rc (p_rts_flags (procs s rc) OR RTS_NO_ENDPOINT) s)"
    and f1: "p_rts_flags (procs s1 rc) = p_rts_flags (procs s rc) OR RTS_NO_ENDPOINT"
    using RTS_LOCK_SET_core [OF kinvD(2) [OF k] l, of RTS_NO_ENDPOINT] by auto
  have v1': "ipcv s1 = v_dead rc ?v"
    unfolding v1 by (auto simp: set_rts_def ipcv_def ipcp_def v_dead_def fun_eq_iff flag_simps)
  define s2 where "s2 = (if has_any (s_flags (priv_of s1 rc)) SYS_PROC then upd_priv_of rc (\<lambda>pr. pr\<lparr>s_asynsize := 0\<rparr>) s1 else s1)"
  have k2: "kcore s2" unfolding s2_def using kcore_upd_priv [OF k1, of "\<lambda>pr. pr\<lparr>s_asynsize := 0\<rparr>" rc] k1 by simp
  have v2: "ipcv s2 = v_dead rc ?v" by (simp add: s2_def v1')
  have p2: "procs s2 = procs s1" by (simp add: s2_def upd_priv_of_def upd_priv_def)
  have f2: "has_any (p_rts_flags (procs s2 rc)) RTS_NO_ENDPOINT" by (simp add: p2 f1 or_and_dist)
  have g2: "p_retreg (procs s2 n) = p_retreg (procs s n)" for n using note_view_retreg [OF n1] by (simp add: p2)
  have "\<exists>s3 v'. (if i_send (?v rc) then leave_queue rc s2 else Some s2) = Some s3 \<and> kcore s3 \<and> ipcv s3 = v_dead rc v' \<and> ipc_ok v' \<and>
    \<not> i_send (v' rc) \<and> (\<forall>n. i_empty (v' n) = i_empty (?v n) \<and> i_ep (v' n) = i_ep (?v n) \<and> i_recv (v' n) = i_recv (?v n) \<and>
      i_getfrom (v' n) = i_getfrom (?v n) \<and> i_sendto (v' n) = i_sendto (?v n) \<and> (n \<noteq> rc \<longrightarrow> i_send (v' n) = i_send (?v n))) \<and>
    (\<forall>n. p_retreg (procs s3 n) = p_retreg (procs s n)) \<and> has_any (p_rts_flags (procs s3 rc)) RTS_NO_ENDPOINT"
  proof (cases "i_send (?v rc)")
    case True
    from leave_queue_spec [OF k2 v2 i vr True f2] True g2 show ?thesis by auto
  next
    case False
    with k2 v2 i f2 g2 show ?thesis by auto
  qed
  then obtain s3 v' where r3: "(if i_send (?v rc) then leave_queue rc s2 else Some s2) = Some s3" and k3: "kcore s3"
    and v3: "ipcv s3 = v_dead rc v'" and i': "ipc_ok v'" and ns: "\<not> i_send (v' rc)"
    and same: "\<And>n. i_empty (v' n) = i_empty (?v n) \<and> i_ep (v' n) = i_ep (?v n) \<and> i_recv (v' n) = i_recv (?v n) \<and>
      i_getfrom (v' n) = i_getfrom (?v n) \<and> i_sendto (v' n) = i_sendto (?v n) \<and> (n \<noteq> rc \<longrightarrow> i_send (v' n) = i_send (?v n))"
    and g3: "\<And>n. p_retreg (procs s3 n) = p_retreg (procs s n)" and f3: "has_any (p_rts_flags (procs s3 rc)) RTS_NO_ENDPOINT"
    by blast
  define s4 where "s4 = set_rts rc (p_rts_flags (procs s3 rc) AND NOT RTS_RECEIVING) s3"
  have l3: "live s3 rc" unfolding live_view v3 using vr ne same by simp
  have k4: "kcore s4" unfolding s4_def
  proof (rule set_rts_core [OF k3 l3])
    have "has_any (p_rts_flags (procs s3 rc) AND NOT RTS_RECEIVING) RTS_NO_ENDPOINT" using f3 by (simp add: and.assoc)
    then show "p_rts_flags (procs s3 rc) AND NOT RTS_RECEIVING \<noteq> 0" "p_rts_flags (procs s3 rc) \<noteq> 0" by auto
    show "(p_rts_flags (procs s3 rc) AND NOT RTS_RECEIVING) AND RTS_SLOT_FREE = 0" using l3 by (simp add: and.assoc)
  qed
  define u where "u = v_unrecv rc v'"
  have v4: "ipcv s4 = v_dead rc u" unfolding s4_def ipcv_rts v3 v_unrecv_dead u_def ..
  have iu: "ipc_ok u" unfolding u_def by (rule v_unrecv_ok [OF i' ns])
  have us: "i_empty (u n) = i_empty (?v n)" "i_ep (u n) = i_ep (?v n)" "i_getfrom (u n) = i_getfrom (?v n)"
    "i_sendto (u n) = i_sendto (?v n)" "i_send (u n) \<longleftrightarrow> n \<noteq> rc \<and> i_send (?v n)" "i_recv (u n) \<longleftrightarrow> n \<noteq> rc \<and> i_recv (?v n)" for n
    using same [of n] ns by (auto simp: u_def v_unrecv_def)
  let ?rps = "[- NR_TASKS..NR_PROCS - 1]"
  have rps: "n \<in> set ?rps \<longleftrightarrow> valid_nr n" for n by (auto simp: valid_nr_def)
  have val: "\<forall>rp \<in> set ?rps. valid_nr rp" using rps by blast
  obtain s5 where r5: "clear_loop rc ?rps s4 = Some s5" and k5: "kcore s5"
    and v5: "ipcv s5 = (\<lambda>n. if n \<in> set ?rps then wake1 (i_ep (ipcv s4 rc)) (ipcv s4 n) else ipcv s4 n)"
    and g5: "\<forall>n. p_retreg (procs s5 n) = (if n \<in> set ?rps then wake_code (i_ep (ipcv s4 rc)) (ipcv s4 n) (p_retreg (procs s4 n))
       else p_retreg (procs s4 n))"
    using clear_loop_spec [OF k4 val distinct_upto, of rc] by blast
  have v5': "ipcv s5 = (\<lambda>n. if valid_nr n then wake1 (i_ep (u rc)) (v_dead rc u n) else v_dead rc u n)"
    unfolding v5 rps v4 v_dead_sel ..
  have "ipc_ok (ipcv s5)"
    unfolding v5' by (rule v_wake_ok [OF iu vr]) (simp_all add: us ne)
  then have "kinv s5" using k5 by (simp add: kinv_alt)
  moreover have "clear_endpoint rc s = Some s5"
  proof -
    have c1: "\<not> isemptyp (procs s rc)" using isemptyp_view [OF kinvD(1) [OF k] vr] ne by simp
    have c2: "\<not> (p_endpoint (procs s rc) = PM_PROC_NR \<or> p_endpoint (procs s rc) = VFS_PROC_NR \<or>
      p_endpoint (procs s rc) = VM_PROC_NR)" using e by simp
    have c3: "RTS_ISSET (procs s2 rc) RTS_SENDING = i_send (?v rc)" by (simp add: v2)
    show ?thesis
      unfolding clear_endpoint_def if_not_P [OF c1] if_not_P [OF c2] r1 Let_def Option.bind.simps s2_def [symmetric]
        c3 r3 s4_def [symmetric] r5 ..
  qed
  moreover have "p_retreg (procs s4 n) = p_retreg (procs s n)" for n by (simp add: s4_def set_rts_def g3)
  then have "p_retreg (procs s5 n) = wake_code ?e (?v n) (p_retreg (procs s n))" if "valid_nr n" "n \<noteq> rc" for n
    using g5 that rps [of n] by (simp add: v4 wake_code_def us)
  moreover have "(i_send (ipcv s5 n) \<longleftrightarrow> i_send (?v n) \<and> i_sendto (?v n) \<noteq> ?e) \<and> (i_recv (ipcv s5 n) \<longleftrightarrow> i_recv (?v n) \<and> i_getfrom (?v n) \<noteq> ?e)"
    if "valid_nr n" "n \<noteq> rc" for n
    using that blocked_okD(1,3) [OF bo that(1)] by (auto simp: v5' us)
  moreover have "i_dead (ipcv s5 rc)" "\<not> i_send (ipcv s5 rc)" "\<not> i_recv (ipcv s5 rc)" using vr by (simp_all add: v5' us)
  moreover have "i_empty (ipcv s5 n) = i_empty (?v n) \<and> i_ep (ipcv s5 n) = i_ep (?v n)" for n by (simp add: v5' us)
  moreover have c4: "ce_view s4 = ce_view s"
  proof -
    have "ce_view s3 = ce_view s2" using r3 leave_queue_frame by (auto split: if_splits)
    also have "\<dots> = ce_view s1" by (simp add: s2_def)
    also have "\<dots> = ce_view s" by (rule ce_view_note [OF n1])
    finally show ?thesis by (simp add: s4_def)
  qed
  have l4: "live s4 n = live s n" for n unfolding live_view v4 by (simp add: v_dead_sel us)
  have "ce_view s5 = ce_view s4" "\<forall>n. valid_nr n \<and> live s4 n \<longrightarrow> \<not> pend s5 (p_priv (procs s4 n)) (s_id (priv_of s4 rc))"
    using clear_loop_frame [OF k4 val r5] rps by blast+
  then have "ce_view s5 = ce_view s" "\<forall>n. live s n \<longrightarrow> \<not> pend s5 (p_priv (procs s n)) (s_id (priv_of s rc))"
    using c4 unfolding l4 priv_of_def ce_view_fields [OF c4] by auto
  ultimately show ?thesis by blast
qed

section \<open>Properties\<close>

text \<open>
  C26. Nobody is left waiting for a dead process. Clearing the endpoint of a process, other than
  the three servers the system cannot live without, keeps the kernel invariant: the process is off
  the queue it may have been waiting in, every process that was sending to it is unblocked with the
  error that the destination died, every process that was receiving from it with the error that
  the source died, and all others stay blocked or ready as they were.
\<close>

theorem clear_endpoint_wakes:
  assumes "kinv s" and "live s rc" and "p_endpoint (procs s rc) \<notin> {PM_PROC_NR, VFS_PROC_NR, VM_PROC_NR}"
  shows "\<exists>s'. clear_endpoint rc s = Some s' \<and> kinv s' \<and> i_dead (ipcv s' rc) \<and> \<not> i_send (ipcv s' rc) \<and> \<not> i_recv (ipcv s' rc) \<and>
    (\<forall>n. valid_nr n \<and> n \<noteq> rc \<longrightarrow>
      (i_send (ipcv s' n) \<longleftrightarrow> i_send (ipcv s n) \<and> i_sendto (ipcv s n) \<noteq> i_ep (ipcv s rc)) \<and>
      (i_recv (ipcv s' n) \<longleftrightarrow> i_recv (ipcv s n) \<and> i_getfrom (ipcv s n) \<noteq> i_ep (ipcv s rc)) \<and>
      p_retreg (procs s' n) = wake_code (i_ep (ipcv s rc)) (ipcv s n) (p_retreg (procs s n)))"
  using clear_endpoint_spec [OF assms] by blast

theorem clear_endpoint_wakes_witness:
  "kinv sample_blocked \<and> (\<exists>s'. clear_endpoint 11 sample_blocked = Some s' \<and> kinv s' \<and> \<not> i_send (ipcv s' 11))"
proof -
  have "live sample_blocked 11" "p_endpoint (procs sample_blocked 11) \<notin> {PM_PROC_NR, VFS_PROC_NR, VM_PROC_NR}"
    by (simp_all add: sample_blocked_def sample_def sample_proc_def valid_nr_def)
  from clear_endpoint_wakes [OF blocked_kinv this] blocked_kinv show ?thesis by blast
qed

end
