(* ===== verification/Kernel_Grants.thy ===== *)
theory Kernel_Grants
  imports Kernel_System
begin

text \<open>
  Memory grants. A process publishes a table of grants in its own memory (the library routines
  of \<^verbatim>\<open>lib/syslib/safecopies.c\<close>), tells the kernel where the table is
  (\<^verbatim>\<open>kernel/system/do_setgrant.c\<close>), and other processes copy through the grants given to them
  (\<^verbatim>\<open>kernel/system/do_safecopy.c\<close>). Addresses and sizes are 32-bit words, so that the
  wrap-around of the range checks is that of the C code.

  The copy routine of the memory layer is an argument, as is the reading of a user's grant
  table and of a vector of copies: a \<open>gmem\<close> gives the entry found at an address of a process, if
  the address can be read.
\<close>

section \<open>Grants\<close>

abbreviation (input) CPF_READ :: "32 word" where "CPF_READ \<equiv> 0x1"
abbreviation (input) CPF_WRITE :: "32 word" where "CPF_WRITE \<equiv> 0x2"
abbreviation (input) CPF_USED :: "32 word" where "CPF_USED \<equiv> 0x100"
abbreviation (input) CPF_DIRECT :: "32 word" where "CPF_DIRECT \<equiv> 0x200"
abbreviation (input) CPF_INDIRECT :: "32 word" where "CPF_INDIRECT \<equiv> 0x400"
abbreviation (input) CPF_MAGIC :: "32 word" where "CPF_MAGIC \<equiv> 0x800"
abbreviation (input) CPF_VALID :: "32 word" where "CPF_VALID \<equiv> 0x1000"
abbreviation (input) GRANT_INVALID :: int where "GRANT_INVALID \<equiv> -1"
abbreviation (input) MAX_INDIRECT_DEPTH :: nat where "MAX_INDIRECT_DEPTH \<equiv> 5"
abbreviation (input) MEM_TOP :: "32 word" where "MEM_TOP \<equiv> 0xFFFFFFFF"
abbreviation (input) ELOOP :: int where "ELOOP \<equiv> 40"

definition GRANT_VALID :: "int \<Rightarrow> bool" where
  "GRANT_VALID g \<longleftrightarrow> g > GRANT_INVALID"

text \<open>The union of the three kinds of grants shares the words after the flags.\<close>

record cp_grant =
  cp_flags :: "32 word"
  cp_w0 :: "32 word"
  cp_w1 :: "32 word"
  cp_w2 :: "32 word"
  cp_w3 :: "32 word"

abbreviation (input) SIZEOF_GRANT :: int where "SIZEOF_GRANT \<equiv> 36"

definition direct_who_to :: "cp_grant \<Rightarrow> int" where "direct_who_to g = sint (cp_w0 g)"
definition direct_start :: "cp_grant \<Rightarrow> 32 word" where "direct_start g = cp_w1 g"
definition direct_len :: "cp_grant \<Rightarrow> 32 word" where "direct_len g = cp_w2 g"
definition indirect_who_to :: "cp_grant \<Rightarrow> int" where "indirect_who_to g = sint (cp_w0 g)"
definition indirect_who_from :: "cp_grant \<Rightarrow> int" where "indirect_who_from g = sint (cp_w1 g)"
definition indirect_grant :: "cp_grant \<Rightarrow> int" where "indirect_grant g = sint (cp_w2 g)"
definition magic_who_from :: "cp_grant \<Rightarrow> int" where "magic_who_from g = sint (cp_w0 g)"
definition magic_who_to :: "cp_grant \<Rightarrow> int" where "magic_who_to g = sint (cp_w1 g)"
definition magic_start :: "cp_grant \<Rightarrow> 32 word" where "magic_start g = cp_w2 g"
definition magic_len :: "cp_grant \<Rightarrow> 32 word" where "magic_len g = cp_w3 g"

type_synonym gmem = "int \<Rightarrow> int \<Rightarrow> cp_grant option"

section \<open>Verification of a grant\<close>

definition HASGRANTTABLE :: "kstate \<Rightarrow> int \<Rightarrow> bool" where
  "HASGRANTTABLE s gr \<longleftrightarrow> \<not> RTS_ISSET (procs s gr) RTS_NO_PRIV \<and> s_grant_table (priv_of s gr) > 0"

text \<open>Fetching one entry, the first half of the loop.\<close>

definition grant_entry :: "gmem \<Rightarrow> kstate \<Rightarrow> int \<Rightarrow> int \<Rightarrow> int + cp_grant" where
  "grant_entry gm s granter grant =
     (case isokendpt s granter of
        None \<Rightarrow> Inl (- EINVAL)
      | Some proc_nr \<Rightarrow>
          if \<not> GRANT_VALID grant then Inl (- EINVAL)
          else if \<not> HASGRANTTABLE s proc_nr then Inl (- EPERM)
          else if s_grant_entries (priv_of s proc_nr) \<le> grant then Inl (- EPERM)
          else (case gm granter (uwrap32 (s_grant_table (priv_of s proc_nr) + SIZEOF_GRANT * grant)) of
                  None \<Rightarrow> Inl (- EPERM)
                | Some g \<Rightarrow>
                    if cp_flags g AND (CPF_USED OR CPF_VALID) \<noteq> CPF_USED OR CPF_VALID then Inl (- EPERM)
                    else Inr g))"

text \<open>
  The loop over indirect grants. The number is how many more may be followed,
  \<^verbatim>\<open>MAX_INDIRECT_DEPTH - depth\<close>; the result is the last grant with its granter and grantee.
\<close>

fun grant_loop :: "gmem \<Rightarrow> kstate \<Rightarrow> nat \<Rightarrow> int \<Rightarrow> int \<Rightarrow> int \<Rightarrow> int + cp_grant \<times> int \<times> int" where
  "grant_loop gm s left granter grantee grant =
     (case grant_entry gm s granter grant of
        Inl e \<Rightarrow> Inl e
      | Inr g \<Rightarrow>
          if has_any (cp_flags g) CPF_INDIRECT then
            (case left of
               0 \<Rightarrow> Inl (- ELOOP)
             | Suc n \<Rightarrow>
                 if indirect_who_to g \<noteq> grantee \<and> grantee \<noteq> ENDPT_ANY then Inl (- EPERM)
                 else grant_loop gm s n (indirect_who_from g) granter (indirect_grant g))
          else Inr (g, granter, grantee))"

declare grant_loop.simps [simp del]

definition verify_grant ::
    "gmem \<Rightarrow> kstate \<Rightarrow> int \<Rightarrow> int \<Rightarrow> int \<Rightarrow> 32 word \<Rightarrow> 32 word \<Rightarrow> 32 word \<Rightarrow> int + 32 word \<times> int" where
  "verify_grant gm s granter0 grantee0 grant bytes access offset_in =
     (case grant_loop gm s MAX_INDIRECT_DEPTH granter0 grantee0 grant of
        Inl e \<Rightarrow> Inl e
      | Inr (g, granter, grantee) \<Rightarrow>
          if cp_flags g AND access \<noteq> access then Inl (- EPERM)
          else if has_any (cp_flags g) CPF_DIRECT then
            (if MEM_TOP - direct_len g < direct_start g - 1 then Inl (- EPERM)
             else if direct_who_to g \<noteq> grantee \<and> grantee \<noteq> ENDPT_ANY then Inl (- EPERM)
             else if offset_in + bytes < offset_in \<or> direct_len g < offset_in + bytes then Inl (- EPERM)
             else Inr (direct_start g + offset_in, granter))
          else if has_any (cp_flags g) CPF_MAGIC then
            (if granter \<noteq> VFS_PROC_NR then Inl (- EPERM)
             else if magic_who_to g \<noteq> grantee \<and> grantee \<noteq> ENDPT_ANY then Inl (- EPERM)
             else if offset_in + bytes < offset_in \<or> magic_len g < offset_in + bytes then Inl (- EPERM)
             else Inr (magic_start g + offset_in, magic_who_from g))
          else Inl (- EPERM))"

section \<open>Copying through grants\<close>

abbreviation (input) SEG_D :: int where "SEG_D \<equiv> 1"

record vir_addr =
  va_proc_e :: int
  va_segment :: int
  va_offset :: "32 word"

text \<open>
  The state is the kernel's together with whatever else the copy routine changes; a
  \<open>copier\<close> is \<^verbatim>\<open>virtual_copy_vmcheck\<close>, and \<open>gm\<close> reads the grant tables in a state.
\<close>

type_synonym 'm copier = "vir_addr \<Rightarrow> vir_addr \<Rightarrow> 32 word \<Rightarrow> kstate \<times> 'm \<Rightarrow> int \<times> kstate \<times> 'm"

definition safecopy ::
    "('m \<Rightarrow> gmem) \<Rightarrow> 'm copier \<Rightarrow> int \<Rightarrow> int \<Rightarrow> int \<Rightarrow> int \<Rightarrow> int \<Rightarrow> 32 word \<Rightarrow> 32 word \<Rightarrow> 32 word \<Rightarrow> 32 word
      \<Rightarrow> kstate \<times> 'm \<Rightarrow> int \<times> kstate \<times> 'm" where
  "safecopy gm copy granter grantee grantid src_seg dst_seg bytes g_offset addr access sm =
     (case endpoint_lookup (fst sm) granter of
        None \<Rightarrow> (- EINVAL, sm)
      | Some granter_p \<Rightarrow>
          if \<not> HASGRANTTABLE (fst sm) granter_p then (- EPERM, sm)
          else (case verify_grant (gm (snd sm)) (fst sm) granter grantee grantid bytes access g_offset of
                  Inl r \<Rightarrow> (r, sm)
                | Inr (v_offset, new_granter) \<Rightarrow>
                    if has_any access CPF_READ
                    then copy \<lparr>va_proc_e = new_granter, va_segment = src_seg, va_offset = v_offset\<rparr>
                              \<lparr>va_proc_e = grantee, va_segment = dst_seg, va_offset = addr\<rparr> bytes sm
                    else copy \<lparr>va_proc_e = grantee, va_segment = src_seg, va_offset = addr\<rparr>
                              \<lparr>va_proc_e = new_granter, va_segment = dst_seg, va_offset = v_offset\<rparr> bytes sm))"

abbreviation (input) SYS_SAFECOPYFROM :: int where "SYS_SAFECOPYFROM \<equiv> 0x600 + 31"
abbreviation (input) SYS_SAFECOPYTO :: int where "SYS_SAFECOPYTO \<equiv> 0x600 + 32"

definition SCP_INFO2SEG :: "int \<Rightarrow> int" where
  "SCP_INFO2SEG info = uwrap16 info"

text \<open>\<open>sys_call_code\<close> is the kernel call being served; any other than the two panics.\<close>

definition do_safecopy ::
    "('m \<Rightarrow> gmem) \<Rightarrow> 'm copier \<Rightarrow> int \<Rightarrow> kipc_msg \<Rightarrow> kstate \<times> 'm \<Rightarrow> (int \<times> kstate \<times> 'm) option" where
  "do_safecopy gm copy sys_call_code m sm =
     (if sys_call_code = SYS_SAFECOPYFROM then
        Some (safecopy gm copy (m_data1 m) (who_e (fst sm)) (m_data3 m) SEG_D (SCP_INFO2SEG (m_data2 m))
                (word_of_int (m_data5 m)) (word_of_int (m_data4 m)) (word_of_int (m_data6 m)) CPF_READ sm)
      else if sys_call_code = SYS_SAFECOPYTO then
        Some (safecopy gm copy (m_data1 m) (who_e (fst sm)) (m_data3 m) (SCP_INFO2SEG (m_data2 m)) SEG_D
                (word_of_int (m_data5 m)) (word_of_int (m_data4 m)) (word_of_int (m_data6 m)) CPF_WRITE sm)
      else None)"

record vscp_vec =
  v_from :: int
  v_to :: int
  v_gid :: int
  v_offset :: "32 word"
  v_addr :: "32 word"
  v_bytes :: "32 word"

fun vsafecopy_loop :: "('m \<Rightarrow> gmem) \<Rightarrow> 'm copier \<Rightarrow> vscp_vec list \<Rightarrow> kstate \<times> 'm \<Rightarrow> int \<times> kstate \<times> 'm" where
  "vsafecopy_loop gm copy [] sm = (0, sm)"
| "vsafecopy_loop gm copy (v # vs) sm =
     (if v_from v = ENDPT_SELF then
        (case safecopy gm copy (v_to v) (who_e (fst sm)) (v_gid v) SEG_D SEG_D (v_bytes v) (v_offset v) (v_addr v) CPF_WRITE sm of
           (r, sm1) \<Rightarrow> if r \<noteq> 0 then (r, sm1) else vsafecopy_loop gm copy vs sm1)
      else if v_to v = ENDPT_SELF then
        (case safecopy gm copy (v_from v) (who_e (fst sm)) (v_gid v) SEG_D SEG_D (v_bytes v) (v_offset v) (v_addr v) CPF_READ sm of
           (r, sm1) \<Rightarrow> if r \<noteq> 0 then (r, sm1) else vsafecopy_loop gm copy vs sm1)
      else (- EINVAL, sm))"

abbreviation (input) SCPVEC_NR :: nat where "SCPVEC_NR \<equiv> 64"
abbreviation (input) SIZEOF_VSCP_VEC :: int where "SIZEOF_VSCP_VEC \<equiv> 24"

text \<open>
  The vector is copied to the static array \<^verbatim>\<open>vec\<close>, whose address is an argument, and read back
  from there with \<open>rd\<close>. Nothing bounds the number of elements by the size of the array: a copy
  beyond it, and an access behind its end, are wild.
\<close>

definition do_vsafecopy ::
    "('m \<Rightarrow> gmem) \<Rightarrow> 'm copier \<Rightarrow> 32 word \<Rightarrow> ('m \<Rightarrow> nat \<Rightarrow> vscp_vec) \<Rightarrow> kipc_msg \<Rightarrow> kstate \<times> 'm \<Rightarrow> (int \<times> kstate \<times> 'm) option" where
  "do_vsafecopy gm copy vec rd m sm =
     (let els = m_data5 m; bytes = word_of_int (els * SIZEOF_VSCP_VEC)
      in case copy \<lparr>va_proc_e = who_e (fst sm), va_segment = SEG_D, va_offset = word_of_int (m_data6 m)\<rparr>
                   \<lparr>va_proc_e = SYSTEM, va_segment = SEG_D, va_offset = vec\<rparr> bytes sm of
           (r, sm1) \<Rightarrow>
             if r \<noteq> 0 then Some (r, sm1)
             else if SCPVEC_NR * nat SIZEOF_VSCP_VEC < unat bytes then None
             else (case vsafecopy_loop gm copy (map (rd (snd sm1)) [0..<min (nat els) SCPVEC_NR]) sm1 of
                     (r, sm2) \<Rightarrow> if r = 0 \<and> SCPVEC_NR < nat els then None else Some (r, sm2)))"

section \<open>The grant table of a process\<close>

definition do_setgrant :: "kipc_msg \<Rightarrow> kstate \<Rightarrow> int \<times> kstate" where
  "do_setgrant m s =
     (if RTS_ISSET (procs s (who_p s)) RTS_NO_PRIV then (- EPERM, s)
      else (0, upd_priv_of (who_p s) (\<lambda>p. p\<lparr>s_grant_table := uwrap32 (m_data6 m), s_grant_entries := m_data2 m\<rparr>) s))"

text \<open>
  The library state of a process: the address of the table (0 for the null pointer), its
  entries, and \<^verbatim>\<open>errno\<close>.
\<close>

record cpf =
  g_addr :: int
  grants :: "cp_grant list"
  c_errno :: int

definition ngrants :: "cpf \<Rightarrow> int" where
  "ngrants c = int (length (grants c))"

text \<open>What the library calls: the memory allocator, with the content of fresh memory, and the kernel call.\<close>

record cpf_env =
  ce_malloc :: "int \<Rightarrow> int option"
  ce_fresh :: "nat \<Rightarrow> cp_grant"
  ce_setgrant :: "int \<Rightarrow> int \<Rightarrow> int"

definition cpf_grow :: "cpf_env \<Rightarrow> cpf \<Rightarrow> cpf option" where
  "cpf_grow env c =
     (let new_size = wrap32 ((1 + ngrants c) * 2)
      in if \<not> new_size > ngrants c then None
         else (case ce_malloc env (uwrap32 (new_size * SIZEOF_GRANT)) of
                 None \<Rightarrow> Some c
               | Some a \<Rightarrow>
                   if ce_setgrant env a new_size \<noteq> 0 then Some c
                   else Some (c\<lparr>g_addr := a,
                     grants := grants c @
                       map (\<lambda>i. (ce_fresh env i)\<lparr>cp_flags := 0\<rparr>) [length (grants c)..<nat new_size]\<rparr>)))"

fun first_unused :: "nat \<Rightarrow> cp_grant list \<Rightarrow> nat" where
  "first_unused g [] = g"
| "first_unused g (e # es) = (if has_any (cp_flags e) CPF_USED then first_unused (Suc g) es else g)"

definition cpf_new_grantslot :: "cpf_env \<Rightarrow> cpf \<Rightarrow> (int \<times> cpf) option" where
  "cpf_new_grantslot env c =
     (let g = int (first_unused 0 (grants c))
      in if \<not> g \<le> ngrants c then None
         else do {
           c1 \<leftarrow> (if g = ngrants c then cpf_grow env c else Some c);
           if \<not> g \<le> ngrants c1 then None
           else if g = ngrants c1 then Some (-1, c1\<lparr>c_errno := - ENOSPC\<rparr>)
           else if \<not> (GRANT_VALID g \<and> g \<ge> 0 \<and> g < ngrants c1 \<and> \<not> has_any (cp_flags (grants c1 ! nat g)) CPF_USED)
           then None
           else Some (g, c1)
         })"

definition access_bad :: "32 word \<Rightarrow> bool" where
  "access_bad a \<longleftrightarrow> has_any a (NOT (CPF_READ OR CPF_WRITE))"

definition gid_bad :: "int \<Rightarrow> cpf \<Rightarrow> bool" where
  "gid_bad gid c \<longleftrightarrow> \<not> GRANT_VALID gid \<or> gid < 0 \<or> gid \<ge> ngrants c"

definition gid_unused :: "int \<Rightarrow> cpf \<Rightarrow> bool" where
  "gid_unused gid c \<longleftrightarrow> gid_bad gid c \<or> \<not> has_any (cp_flags (grants c ! nat gid)) CPF_USED"

definition upd_grant :: "int \<Rightarrow> (cp_grant \<Rightarrow> cp_grant) \<Rightarrow> cpf \<Rightarrow> cpf" where
  "upd_grant gid f c = c\<lparr>grants := (grants c)[nat gid := f (grants c ! nat gid)]\<rparr>"

definition cpf_revoke :: "int \<Rightarrow> cpf \<Rightarrow> int \<times> cpf" where
  "cpf_revoke g c =
     (if gid_unused g c then (-1, c\<lparr>c_errno := - EINVAL\<rparr>)
      else (0, upd_grant g (\<lambda>e. e\<lparr>cp_flags := 0\<rparr>) c))"

definition cpf_setgrant_direct :: "int \<Rightarrow> int \<Rightarrow> 32 word \<Rightarrow> 32 word \<Rightarrow> 32 word \<Rightarrow> cpf \<Rightarrow> int \<times> cpf" where
  "cpf_setgrant_direct gid who addr bytes access c =
     (if gid_bad gid c then (-1, c\<lparr>c_errno := - EINVAL\<rparr>)
      else if access_bad access then (-1, c\<lparr>c_errno := - EINVAL\<rparr>)
      else (0, upd_grant gid (\<lambda>e. e\<lparr>cp_flags := access OR CPF_DIRECT OR CPF_USED OR CPF_VALID,
                 cp_w0 := word_of_int who, cp_w1 := addr, cp_w2 := bytes\<rparr>) c))"

definition cpf_setgrant_indirect :: "int \<Rightarrow> int \<Rightarrow> int \<Rightarrow> int \<Rightarrow> cpf \<Rightarrow> int \<times> cpf" where
  "cpf_setgrant_indirect gid who_to who_from his_gid c =
     (if gid_bad gid c then (-1, c\<lparr>c_errno := - EINVAL\<rparr>)
      else (0, upd_grant gid (\<lambda>e. e\<lparr>cp_flags := CPF_USED OR CPF_INDIRECT OR CPF_VALID,
                 cp_w0 := word_of_int who_to, cp_w1 := word_of_int who_from, cp_w2 := word_of_int his_gid\<rparr>) c))"

definition cpf_setgrant_magic :: "int \<Rightarrow> int \<Rightarrow> int \<Rightarrow> 32 word \<Rightarrow> 32 word \<Rightarrow> 32 word \<Rightarrow> cpf \<Rightarrow> int \<times> cpf" where
  "cpf_setgrant_magic gid who_to who_from addr bytes access c =
     (if gid_bad gid c then (-1, c\<lparr>c_errno := - EINVAL\<rparr>)
      else if access_bad access then (-1, c\<lparr>c_errno := - EINVAL\<rparr>)
      else (0, upd_grant gid (\<lambda>e. e\<lparr>cp_flags := CPF_USED OR CPF_MAGIC OR CPF_VALID OR access,
                 cp_w1 := word_of_int who_to, cp_w0 := word_of_int who_from, cp_w2 := addr, cp_w3 := bytes\<rparr>) c))"

definition cpf_setgrant_disable :: "int \<Rightarrow> cpf \<Rightarrow> int \<times> cpf" where
  "cpf_setgrant_disable gid c =
     (if gid_bad gid c then (-1, c\<lparr>c_errno := - EINVAL\<rparr>)
      else (0, upd_grant gid (\<lambda>e. e\<lparr>cp_flags := CPF_USED\<rparr>) c))"

text \<open>The sanity checks the three granting routines repeat on a new slot.\<close>

definition slot_ok :: "int \<Rightarrow> cpf \<Rightarrow> bool" where
  "slot_ok g c \<longleftrightarrow> GRANT_VALID g \<and> g \<ge> 0 \<and> g < ngrants c \<and> \<not> has_any (cp_flags (grants c ! nat g)) CPF_USED"

definition cpf_grant_direct :: "cpf_env \<Rightarrow> int \<Rightarrow> 32 word \<Rightarrow> 32 word \<Rightarrow> 32 word \<Rightarrow> cpf \<Rightarrow> (int \<times> cpf) option" where
  "cpf_grant_direct env who_to addr bytes access c = do {
     (g, c1) \<leftarrow> cpf_new_grantslot env c;
     if g < 0 then Some (-1, c1)
     else if \<not> slot_ok g c1 then None
     else (case cpf_setgrant_direct g who_to addr bytes access c1 of
             (r, c2) \<Rightarrow> if r < 0 then Some (GRANT_INVALID, snd (cpf_revoke g c2)) else Some (g, c2))
   }"

definition cpf_grant_indirect :: "cpf_env \<Rightarrow> int \<Rightarrow> int \<Rightarrow> int \<Rightarrow> cpf \<Rightarrow> (int \<times> cpf) option" where
  "cpf_grant_indirect env who_to who_from gr c = do {
     (g, c1) \<leftarrow> cpf_new_grantslot env c;
     if g < 0 then Some (-1, c1)
     else if \<not> slot_ok g c1 then None
     else (case cpf_setgrant_indirect g who_to who_from gr c1 of
             (r, c2) \<Rightarrow> if r < 0 then Some (GRANT_INVALID, snd (cpf_revoke g c2)) else Some (g, c2))
   }"

definition cpf_grant_magic :: "cpf_env \<Rightarrow> int \<Rightarrow> int \<Rightarrow> 32 word \<Rightarrow> 32 word \<Rightarrow> 32 word \<Rightarrow> cpf \<Rightarrow> (int \<times> cpf) option" where
  "cpf_grant_magic env who_to who_from addr bytes access c =
     (if access_bad access then Some (-1, c\<lparr>c_errno := - EINVAL\<rparr>)
      else do {
        (g, c1) \<leftarrow> cpf_new_grantslot env c;
        if g < 0 then Some (-1, c1)
        else if \<not> slot_ok g c1 then None
        else (case cpf_setgrant_magic g who_to who_from addr bytes access c1 of
                (r, c2) \<Rightarrow> if r < 0 then Some (-1, snd (cpf_revoke g c2)) else Some (g, c2))
      })"

text \<open>\<^verbatim>\<open>cpf_lookup\<close>, with both result pointers given: granter and grantee.\<close>

definition cpf_lookup :: "int \<Rightarrow> cpf \<Rightarrow> (int \<times> int) option \<times> cpf" where
  "cpf_lookup g c =
     (if gid_unused g c then (None, c\<lparr>c_errno := - EINVAL\<rparr>)
      else (let e = grants c ! nat g
            in if has_any (cp_flags e) CPF_DIRECT then (Some (ENDPT_SELF, direct_who_to e), c)
               else if has_any (cp_flags e) CPF_MAGIC then (Some (magic_who_from e, magic_who_to e), c)
               else (None, c)))"

text \<open>\<^verbatim>\<open>cpf_getgrants\<close>: the ids assigned; their number is the return value.\<close>

fun cpf_getgrants :: "cpf_env \<Rightarrow> nat \<Rightarrow> cpf \<Rightarrow> (int list \<times> cpf) option" where
  "cpf_getgrants env 0 c = Some ([], c)"
| "cpf_getgrants env (Suc n) c = do {
     (g, c1) \<leftarrow> cpf_new_grantslot env c;
     if g < 0 then Some ([], c1)
     else do {
       (gs, c2) \<leftarrow> cpf_getgrants env n (upd_grant g (\<lambda>e. e\<lparr>cp_flags := CPF_USED\<rparr>) c1);
       Some (g # gs, c2)
     }
   }"

section \<open>What a grant allows\<close>

text \<open>A chain of indirect grants, each given to the process that uses it, down to a last grant.\<close>

inductive grant_chain :: "gmem \<Rightarrow> kstate \<Rightarrow> nat \<Rightarrow> int \<Rightarrow> int \<Rightarrow> int \<Rightarrow> cp_grant \<times> int \<times> int \<Rightarrow> bool" for gm s where
  here: "grant_entry gm s granter grant = Inr g \<Longrightarrow> \<not> has_any (cp_flags g) CPF_INDIRECT \<Longrightarrow>
     grant_chain gm s 0 granter grantee grant (g, granter, grantee)"
| via: "grant_entry gm s granter grant = Inr g \<Longrightarrow> has_any (cp_flags g) CPF_INDIRECT \<Longrightarrow>
     indirect_who_to g = grantee \<or> grantee = ENDPT_ANY \<Longrightarrow>
     grant_chain gm s n (indirect_who_from g) granter (indirect_grant g) r \<Longrightarrow>
     grant_chain gm s (Suc n) granter grantee grant r"

inductive_cases grant_chain_0E: "grant_chain gm s 0 granter grantee grant r"
inductive_cases grant_chain_SucE: "grant_chain gm s (Suc n) granter grantee grant r"
inductive_cases grant_chainE: "grant_chain gm s n granter grantee grant r"

lemma grant_loop_sound:
  "grant_loop gm s d granter grantee grant = Inr r \<Longrightarrow> \<exists>n\<le>d. grant_chain gm s n granter grantee grant r"
proof (induction d arbitrary: granter grantee grant)
  case 0
  then show ?case
    by (subst (asm) grant_loop.simps) (auto intro: grant_chain.intros split: sum.splits if_splits)
next
  case (Suc d)
  from Suc.prems obtain g where g: "grant_entry gm s granter grant = Inr g"
    by (subst (asm) grant_loop.simps) (auto split: sum.splits)
  show ?case
  proof (cases "has_any (cp_flags g) CPF_INDIRECT")
    case False
    with Suc.prems g have "r = (g, granter, grantee)" by (subst (asm) grant_loop.simps) simp
    with g False show ?thesis by (auto intro: grant_chain.intros)
  next
    case True
    with Suc.prems g have w: "indirect_who_to g = grantee \<or> grantee = ENDPT_ANY"
      and r: "grant_loop gm s d (indirect_who_from g) granter (indirect_grant g) = Inr r"
      by (subst (asm) grant_loop.simps, force split: if_splits)+
    obtain n where "n \<le> d" "grant_chain gm s n (indirect_who_from g) granter (indirect_grant g) r"
      using Suc.IH [OF r] by blast
    with g True w show ?thesis by (intro exI [of _ "Suc n"]) (auto intro: grant_chain.intros)
  qed
qed

lemma grant_loop_complete:
  "grant_chain gm s n granter grantee grant r \<Longrightarrow> n \<le> d \<Longrightarrow> grant_loop gm s d granter grantee grant = Inr r"
proof (induction arbitrary: d rule: grant_chain.induct)
  case (here granter grant g grantee)
  then show ?case by (subst grant_loop.simps) simp
next
  case (via granter grant g grantee n r)
  then obtain d' where "d = Suc d'" "n \<le> d'" by (cases d) auto
  with via show ?case by (subst grant_loop.simps) auto
qed

lemma grant_loop_iff:
  "grant_loop gm s d granter grantee grant = Inr r \<longleftrightarrow> (\<exists>n\<le>d. grant_chain gm s n granter grantee grant r)"
  using grant_loop_sound grant_loop_complete by blast

text \<open>A range \<open>[off, off + n)\<close> inside \<open>[0, len)\<close>, and a region that does not wrap.\<close>

definition in_range :: "32 word \<Rightarrow> 32 word \<Rightarrow> 32 word \<Rightarrow> bool" where
  "in_range off n len \<longleftrightarrow> unat off + unat n \<le> unat len"

lemma range_check: "\<not> (off + n < off \<or> len < off + n) \<longleftrightarrow> in_range off n len" for off n len :: "32 word"
proof (cases "unat off + unat n < 2 ^ 32")
  case True
  then have "unat (off + n) = unat off + unat n" by (simp add: unat_word_ariths)
  then show ?thesis by (auto simp: in_range_def word_less_nat_alt)
next
  case False
  have b: "unat off < 2 ^ 32" "unat n < 2 ^ 32" "unat len < 2 ^ 32"
    using unsigned_less [of off] unsigned_less [of n] unsigned_less [of len] by simp_all
  have "unat (off + n) = unat off + unat n - 2 ^ 32"
    using False b by (simp add: unat_word_ariths mod_if)
  then have "off + n < off" using False b by (simp add: word_less_nat_alt)
  then show ?thesis using False b by (auto simp: in_range_def)
qed

lemma wrap_check: "\<not> MEM_TOP - len < start - 1 \<longleftrightarrow>
    (start = 0 \<and> len = 0) \<or> (start \<noteq> 0 \<and> unat start + unat len \<le> 2 ^ 32)" for start len :: "32 word"
proof -
  have b: "unat start < 2 ^ 32" "unat len < 2 ^ 32"
    using unsigned_less [of start] unsigned_less [of len] by simp_all
  have "len \<le> MEM_TOP" using b by (simp add: word_le_nat_alt)
  then have t: "unat (MEM_TOP - len) = 2 ^ 32 - 1 - unat len" by (simp add: unat_sub)
  show ?thesis
  proof (cases "start = 0")
    case True
    then have "unat (start - 1) = 2 ^ 32 - 1" by (simp add: unsigned_minus_1_eq_mask mask_eq_exp_minus_1)
    moreover have "len = 0 \<longleftrightarrow> unat len = 0" by (simp add: unat_eq_0)
    ultimately show ?thesis using True t b by (auto simp: word_less_nat_alt)
  next
    case False
    then have "unat (start - 1) = unat start - 1" "0 < unat start"
      by (simp_all add: unat_minus_one unat_gt_0)
    then show ?thesis using False t b by (auto simp: word_less_nat_alt)
  qed
qed

text \<open>What the last grant of a chain allows its grantee.\<close>

definition direct_ok :: "cp_grant \<Rightarrow> int \<Rightarrow> 32 word \<Rightarrow> 32 word \<Rightarrow> bool" where
  "direct_ok g grantee bytes off \<longleftrightarrow> has_any (cp_flags g) CPF_DIRECT \<and>
     ((direct_start g = 0 \<and> direct_len g = 0) \<or> (direct_start g \<noteq> 0 \<and> unat (direct_start g) + unat (direct_len g) \<le> 2 ^ 32)) \<and>
     (direct_who_to g = grantee \<or> grantee = ENDPT_ANY) \<and> in_range off bytes (direct_len g)"

definition magic_ok :: "cp_grant \<Rightarrow> int \<Rightarrow> int \<Rightarrow> 32 word \<Rightarrow> 32 word \<Rightarrow> bool" where
  "magic_ok g granter grantee bytes off \<longleftrightarrow> \<not> has_any (cp_flags g) CPF_DIRECT \<and> has_any (cp_flags g) CPF_MAGIC \<and>
     granter = VFS_PROC_NR \<and> (magic_who_to g = grantee \<or> grantee = ENDPT_ANY) \<and> in_range off bytes (magic_len g)"

text \<open>Some chain of grants gives the access, at address \<open>a\<close> of process \<open>e\<close>.\<close>

definition granted ::
    "gmem \<Rightarrow> kstate \<Rightarrow> int \<Rightarrow> int \<Rightarrow> int \<Rightarrow> 32 word \<Rightarrow> 32 word \<Rightarrow> 32 word \<Rightarrow> 32 word \<Rightarrow> int \<Rightarrow> bool" where
  "granted gm s granter grantee grant bytes access off a e \<longleftrightarrow>
     (\<exists>n\<le>MAX_INDIRECT_DEPTH. \<exists>g F T. grant_chain gm s n granter grantee grant (g, F, T) \<and> cp_flags g AND access = access \<and>
       (direct_ok g T bytes off \<and> a = direct_start g + off \<and> e = F \<or>
        magic_ok g F T bytes off \<and> a = magic_start g + off \<and> e = magic_who_from g))"

lemma verify_grant_iff:
  "verify_grant gm s granter grantee grant bytes access off = Inr (a, e) \<longleftrightarrow>
     granted gm s granter grantee grant bytes access off a e"
  (is "?l \<longleftrightarrow> ?r")
proof (cases "grant_loop gm s MAX_INDIRECT_DEPTH granter grantee grant")
  case (Inl x)
  then have "\<not> (\<exists>n\<le>MAX_INDIRECT_DEPTH. grant_chain gm s n granter grantee grant y)" for y
    using grant_loop_complete by fastforce
  then show ?thesis using Inl by (auto simp: verify_grant_def granted_def)
next
  case (Inr y)
  obtain g F T where y: "y = (g, F, T)" by (cases y)
  have c1: "z = (g, F, T)" if "n \<le> MAX_INDIRECT_DEPTH" "grant_chain gm s n granter grantee grant z" for n z
    using grant_loop_complete [OF that(2,1)] Inr y by simp
  have c2: "\<exists>n\<le>MAX_INDIRECT_DEPTH. grant_chain gm s n granter grantee grant (g, F, T)"
    using grant_loop_sound [OF Inr] y by simp
  have "?r \<longleftrightarrow> cp_flags g AND access = access \<and>
       (direct_ok g T bytes off \<and> a = direct_start g + off \<and> e = F \<or>
        magic_ok g F T bytes off \<and> a = magic_start g + off \<and> e = magic_who_from g)"
    unfolding granted_def using c2 by (auto dest: c1)
  moreover have "?l \<longleftrightarrow> \<dots>"
    unfolding verify_grant_def Inr y direct_ok_def magic_ok_def
      wrap_check [symmetric] range_check [symmetric] by auto
  ultimately show ?thesis by simp
qed

lemma word_add_no_wrap: "in_range off n len \<Longrightarrow> unat start + unat len \<le> 2 ^ 32 \<Longrightarrow> n \<noteq> 0 \<Longrightarrow>
    unat (start + off) = unat start + unat off" for start off n len :: "32 word"
  using unat_gt_0 [of n] by (simp add: in_range_def unat_word_ariths)

section \<open>Copies are authorised\<close>

definition authorised :: "('m \<Rightarrow> gmem) \<Rightarrow> kstate \<times> 'm \<Rightarrow> vir_addr \<Rightarrow> vir_addr \<Rightarrow> 32 word \<Rightarrow> bool" where
  "authorised gm sm src dst bytes \<longleftrightarrow>
     (\<exists>granter gid off. va_proc_e dst = who_e (fst sm) \<and>
        granted (gm (snd sm)) (fst sm) granter (who_e (fst sm)) gid bytes CPF_READ off (va_offset src) (va_proc_e src)) \<or>
     (\<exists>granter gid off. va_proc_e src = who_e (fst sm) \<and>
        granted (gm (snd sm)) (fst sm) granter (who_e (fst sm)) gid bytes CPF_WRITE off (va_offset dst) (va_proc_e dst))"

lemma safecopy_authorised:
  assumes "\<And>sm src dst n. P sm \<Longrightarrow> authorised gm sm src dst n \<Longrightarrow> P (snd (copy src dst n sm))"
    and "P sm" and "access = CPF_READ \<or> access = CPF_WRITE"
  shows "P (snd (safecopy gm copy granter (who_e (fst sm)) gid ss ds bytes off addr access sm))"
proof -
  have "P (snd (copy \<lparr>va_proc_e = e, va_segment = ss, va_offset = a\<rparr>
                     \<lparr>va_proc_e = who_e (fst sm), va_segment = ds, va_offset = addr\<rparr> bytes sm))"
    if "granted (gm (snd sm)) (fst sm) granter (who_e (fst sm)) gid bytes CPF_READ off a e" for a e
    by (rule assms(1) [OF assms(2)]) (use that in \<open>auto simp: authorised_def\<close>)
  moreover have "P (snd (copy \<lparr>va_proc_e = who_e (fst sm), va_segment = ss, va_offset = addr\<rparr>
                     \<lparr>va_proc_e = e, va_segment = ds, va_offset = a\<rparr> bytes sm))"
    if "granted (gm (snd sm)) (fst sm) granter (who_e (fst sm)) gid bytes CPF_WRITE off a e" for a e
    by (rule assms(1) [OF assms(2)]) (use that in \<open>auto simp: authorised_def\<close>)
  ultimately show ?thesis
    using assms(2,3) by (auto simp: safecopy_def verify_grant_iff split: option.splits sum.splits)
qed

lemma vsafecopy_authorised:
  assumes "\<And>sm src dst n. P sm \<Longrightarrow> authorised gm sm src dst n \<Longrightarrow> P (snd (copy src dst n sm))" and "P sm"
  shows "P (snd (vsafecopy_loop gm copy vs sm))"
  using assms(2)
proof (induction vs arbitrary: sm)
  case (Cons v vs)
  have w: "P (snd (safecopy gm copy granter (who_e (fst sm)) gid ss ds bytes off addr a sm))"
    if "a = CPF_READ \<or> a = CPF_WRITE" for granter gid ss ds bytes off addr a
    by (rule safecopy_authorised [OF assms(1) Cons.prems that])
  show ?case
    using w [of CPF_READ "v_from v" "v_gid v" SEG_D SEG_D "v_bytes v" "v_offset v" "v_addr v"]
      w [of CPF_WRITE "v_to v" "v_gid v" SEG_D SEG_D "v_bytes v" "v_offset v" "v_addr v"] Cons.IH Cons.prems
    by (auto split: prod.splits)
qed simp

section \<open>The granting library\<close>

abbreviation used :: "cp_grant \<Rightarrow> bool" where
  "used e \<equiv> has_any (cp_flags e) CPF_USED"

lemma first_unused_spec:
  "\<exists>i\<le>length es. first_unused k es = k + i \<and> (\<forall>j<i. used (es ! j)) \<and> (i < length es \<longrightarrow> \<not> used (es ! i))"
proof (induction es arbitrary: k)
  case (Cons e es)
  show ?case
  proof (cases "used e")
    case True
    obtain i where i: "i \<le> length es" "first_unused (Suc k) es = Suc k + i" "\<forall>j<i. used (es ! j)"
      "i < length es \<longrightarrow> \<not> used (es ! i)" using Cons [of "Suc k"] by blast
    then have "\<forall>j<Suc i. used ((e # es) ! j)" using True by (auto simp: nth_Cons split: nat.splits)
    with i True show ?thesis by (intro exI [of _ "Suc i"]) auto
  next
    case False
    then show ?thesis by (intro exI [of _ 0]) auto
  qed
qed simp

text \<open>The table cannot be enlarged: there is no memory, or the kernel refuses.\<close>

definition grow_fails :: "cpf_env \<Rightarrow> cpf \<Rightarrow> bool" where
  "grow_fails env c \<longleftrightarrow> (case ce_malloc env (uwrap32 ((1 + ngrants c) * 2 * SIZEOF_GRANT)) of
     None \<Rightarrow> True | Some a \<Rightarrow> ce_setgrant env a ((1 + ngrants c) * 2) \<noteq> 0)"

lemma cpf_grow_spec:
  assumes "ngrants c < 2 ^ 29"
  shows "if grow_fails env c then cpf_grow env c = Some c
     else (\<exists>c'. cpf_grow env c = Some c' \<and> length (grants c) < length (grants c') \<and>
       (\<forall>i<length (grants c). grants c' ! i = grants c ! i) \<and>
       (\<forall>i. length (grants c) \<le> i \<and> i < length (grants c') \<longrightarrow> \<not> used (grants c' ! i)))"
proof -
  define n where "n = (1 + ngrants c) * 2"
  have n: "wrap32 n = n" "ngrants c < n" "length (grants c) < nat n"
    using assms by (simp_all add: n_def ngrants_def wrap32_id)
  show ?thesis
    unfolding cpf_grow_def grow_fails_def Let_def n_def [symmetric] n(1)
    using n(2,3) by (auto simp: nth_append split: option.splits)
qed

text \<open>A full table that could not be enlarged.\<close>

definition table_full :: "cpf_env \<Rightarrow> cpf \<Rightarrow> bool" where
  "table_full env c \<longleftrightarrow> (\<forall>e \<in> set (grants c). used e) \<and> grow_fails env c"

lemma cpf_new_grantslot_spec:
  assumes "ngrants c < 2 ^ 29"
  obtains g c' where "cpf_new_grantslot env c = Some (g, c')"
    and "\<forall>i<length (grants c). grants c' ! i = grants c ! i" and "length (grants c) \<le> length (grants c')"
    and "g = -1 \<and> table_full env c \<or> slot_ok g c'"
proof -
  obtain i where i: "i \<le> length (grants c)" "first_unused 0 (grants c) = i" "\<forall>j<i. used (grants c ! j)"
    "i < length (grants c) \<longrightarrow> \<not> used (grants c ! i)" using first_unused_spec [of "grants c" 0] by auto
  show ?thesis
  proof (cases "i = length (grants c)")
    case False
    then show ?thesis
      using i that [of "int i" c] by (simp add: cpf_new_grantslot_def Let_def ngrants_def GRANT_VALID_def slot_ok_def)
  next
    case True
    have full: "\<forall>e \<in> set (grants c). used e" using i(3) True by (auto simp: in_set_conv_nth)
    show ?thesis
    proof (cases "grow_fails env c")
      case fails: True
      then have r: "cpf_new_grantslot env c = Some (-1, c\<lparr>c_errno := - ENOSPC\<rparr>)"
        using i True cpf_grow_spec [OF assms, of env] by (simp add: cpf_new_grantslot_def ngrants_def)
      show ?thesis using that [OF r] full fails by (simp add: table_full_def)
    next
      case False
      then obtain c' where c': "cpf_grow env c = Some c'" and b: "length (grants c) < length (grants c')"
        "\<forall>i<length (grants c). grants c' ! i = grants c ! i"
        "\<forall>i. length (grants c) \<le> i \<and> i < length (grants c') \<longrightarrow> \<not> used (grants c' ! i)"
        using cpf_grow_spec [OF assms, of env] by auto
      have ok: "slot_ok (int i) c'" using b True by (simp add: slot_ok_def GRANT_VALID_def ngrants_def)
      then have "cpf_new_grantslot env c = Some (int i, c')"
        using i True c' b by (simp add: cpf_new_grantslot_def ngrants_def slot_ok_def)
      then show ?thesis using that [of "int i" c'] b ok by simp
    qed
  qed
qed

text \<open>The kernel knows the table of the library, and reads from the process what the library wrote.\<close>

definition linked :: "kstate \<Rightarrow> gmem \<Rightarrow> int \<Rightarrow> cpf \<Rightarrow> bool" where
  "linked s gm e c \<longleftrightarrow> (\<exists>p. isokendpt s e = Some p \<and> HASGRANTTABLE s p \<and> s_grant_table (priv_of s p) = g_addr c \<and>
     s_grant_entries (priv_of s p) = ngrants c \<and>
     (\<forall>i<length (grants c). gm e (uwrap32 (g_addr c + SIZEOF_GRANT * int i)) = Some (grants c ! i)))"

lemma linked_entry:
  assumes "linked s gm e c" and "0 \<le> g" "g < ngrants c"
  shows "grant_entry gm s e g =
    (if cp_flags (grants c ! nat g) AND (CPF_USED OR CPF_VALID) \<noteq> CPF_USED OR CPF_VALID then Inl (- EPERM)
     else Inr (grants c ! nat g))"
proof -
  obtain p where p: "isokendpt s e = Some p" "HASGRANTTABLE s p" "s_grant_table (priv_of s p) = g_addr c"
    "s_grant_entries (priv_of s p) = ngrants c"
    and m: "\<forall>i<length (grants c). gm e (uwrap32 (g_addr c + SIZEOF_GRANT * int i)) = Some (grants c ! i)"
    using assms(1) unfolding linked_def by blast
  have "gm e (uwrap32 (g_addr c + SIZEOF_GRANT * g)) = Some (grants c ! nat g)"
    using m [rule_format, of "nat g"] assms(2,3) by (simp add: ngrants_def)
  with p assms(2,3) show ?thesis by (simp add: grant_entry_def GRANT_VALID_def)
qed

lemma endpoint_word [simp]: "-2147483648 \<le> e \<Longrightarrow> e \<le> 2147483647 \<Longrightarrow> sint (word_of_int e :: 32 word) = e"
  by (simp add: int_word_sint)

lemma access_cases:
  assumes "\<not> access_bad a" obtains "a = 0" | "a = 1" | "a = 2" | "a = 3"
proof -
  have "a AND NOT 3 = 0" using assms by (simp add: access_bad_def)
  moreover have "a = (a AND 3) OR (a AND NOT 3)" by (metis bit.conj_disj_distrib bit.disj_cancel_right word_and_max)
  ultimately have "a \<le> 3" by (metis or.right_neutral word_and_le1)
  then have u: "unat a = 0 \<or> unat a = 1 \<or> unat a = 2 \<or> unat a = 3" by (auto simp: word_le_nat_alt)
  have "a = word_of_nat (unat a)" by simp
  with u show ?thesis using that by fastforce
qed

text \<open>What the entry of a direct grant allows.\<close>

lemma verify_direct:
  assumes "linked s gm e c" and "0 \<le> g" "g < ngrants c"
    and g: "grants c ! nat g = x\<lparr>cp_flags := access OR CPF_DIRECT OR CPF_USED OR CPF_VALID,
                 cp_w0 := word_of_int who, cp_w1 := addr, cp_w2 := bytes\<rparr>"
    and "\<not> access_bad access" and "\<not> access_bad a" and "-2147483648 \<le> who" "who \<le> 2147483647"
    and "addr \<noteq> 0" and "unat addr + unat bytes \<le> 2 ^ 32"
  shows "verify_grant gm s e w g n a off =
    (if (w = who \<or> w = ENDPT_ANY) \<and> access AND a = a \<and> in_range off n bytes then Inr (addr + off, e) else Inl (- EPERM))"
proof -
  let ?g = "grants c ! nat g" let ?f = "access OR CPF_DIRECT OR CPF_USED OR CPF_VALID"
  have f: "?f AND (CPF_USED OR CPF_VALID) = CPF_USED OR CPF_VALID" "\<not> has_any ?f CPF_INDIRECT" "has_any ?f CPF_DIRECT"
    "?f AND a = a \<longleftrightarrow> access AND a = a"
    using assms(5,6) by (auto elim!: access_cases)
  have "grant_entry gm s e g = Inr ?g"
    unfolding linked_entry [OF assms(1-3)] g using f(1) by simp
  then have "grant_loop gm s MAX_INDIRECT_DEPTH e w g = Inr (?g, e, w)"
    using f(2) by (subst grant_loop.simps) (simp add: g)
  moreover have "direct_start ?g = addr" "direct_len ?g = bytes" "direct_who_to ?g = who" "cp_flags ?g = ?f"
    using assms(7,8) by (simp_all add: g direct_start_def direct_len_def direct_who_to_def)
  moreover have "\<not> MEM_TOP - bytes < addr - 1" unfolding wrap_check using assms(9,10) by simp
  ultimately show ?thesis
    unfolding verify_grant_def using f(3,4) range_check [of off n bytes] by auto
qed

section \<open>Properties\<close>

lemma cpf_grant_direct_spec:
  assumes "ngrants c < 2 ^ 29" and "\<not> access_bad access"
  obtains g c' where "cpf_grant_direct env who addr bytes access c = Some (g, c')"
    and "g = -1 \<and> table_full env c \<or> (\<exists>x. 0 \<le> g \<and> g < ngrants c' \<and>
           grants c' ! nat g = x\<lparr>cp_flags := access OR CPF_DIRECT OR CPF_USED OR CPF_VALID,
             cp_w0 := word_of_int who, cp_w1 := addr, cp_w2 := bytes\<rparr>)"
    and "\<forall>i<length (grants c). used (grants c ! i) \<longrightarrow> int i \<noteq> g \<and> grants c' ! i = grants c ! i"
proof -
  obtain g c1 where r: "cpf_new_grantslot env c = Some (g, c1)"
    and k: "\<forall>i<length (grants c). grants c1 ! i = grants c ! i" "length (grants c) \<le> length (grants c1)"
    and g: "g = -1 \<and> table_full env c \<or> slot_ok g c1"
    using cpf_new_grantslot_spec [OF assms(1)] by blast
  show ?thesis
  proof (cases "g < 0")
    case True
    then have "cpf_grant_direct env who addr bytes access c = Some (-1, c1)" by (simp add: cpf_grant_direct_def r)
    moreover have "g = -1" "table_full env c" using True g by (auto simp: slot_ok_def)
    ultimately show ?thesis using that [of "-1" c1] k by simp
  next
    case False
    then have ok: "slot_ok g c1" and i: "0 \<le> g" "g < ngrants c1" using g by (auto simp: slot_ok_def)
    let ?c = "upd_grant g (\<lambda>e. e\<lparr>cp_flags := access OR CPF_DIRECT OR CPF_USED OR CPF_VALID,
                 cp_w0 := word_of_int who, cp_w1 := addr, cp_w2 := bytes\<rparr>) c1"
    have "cpf_grant_direct env who addr bytes access c = Some (g, ?c)"
      using ok assms(2) i by (simp add: cpf_grant_direct_def r cpf_setgrant_direct_def gid_bad_def GRANT_VALID_def)
    moreover have "int j \<noteq> g \<and> grants ?c ! j = grants c ! j" if "j < length (grants c)" "used (grants c ! j)" for j
    proof -
      have "j \<noteq> nat g" using that k ok by (auto simp: slot_ok_def)
      then show ?thesis using that k i by (auto simp: upd_grant_def)
    qed
    ultimately show ?thesis
      using that [of g ?c] i by (auto simp: upd_grant_def ngrants_def intro!: exI [of _ "grants c1 ! nat g"])
  qed
qed

text \<open>
  C20. A grant does what it says. Granting access to a region returns an unused slot of the table,
  leaves all grants in use alone, and fails only if the table is full and cannot grow; and once
  the kernel knows the table it lets exactly the grantee copy, with exactly the granted kind of access,
  exactly the ranges inside the region, at the address of the region plus the offset.
\<close>

theorem direct_grant_exact:
  assumes "ngrants c < 2 ^ 29" and "\<not> access_bad access"
    and "-2147483648 \<le> who" "who \<le> 2147483647" and "addr \<noteq> 0" and "unat addr + unat bytes \<le> 2 ^ 32"
  shows "\<exists>g c'. cpf_grant_direct env who addr bytes access c = Some (g, c') \<and>
    (g = -1 \<and> table_full env c \<or> 0 \<le> g \<and>
      (\<forall>s gm e w n a off. linked s gm e c' \<and> \<not> access_bad a \<longrightarrow>
        verify_grant gm s e w g n a off =
          (if (w = who \<or> w = ENDPT_ANY) \<and> access AND a = a \<and> in_range off n bytes then Inr (addr + off, e) else Inl (- EPERM)))) \<and>
    (\<forall>i<length (grants c). used (grants c ! i) \<longrightarrow> int i \<noteq> g \<and> grants c' ! i = grants c ! i)"
proof -
  obtain g c' where r: "cpf_grant_direct env who addr bytes access c = Some (g, c')"
    and g: "g = -1 \<and> table_full env c \<or> (\<exists>x. 0 \<le> g \<and> g < ngrants c' \<and>
           grants c' ! nat g = x\<lparr>cp_flags := access OR CPF_DIRECT OR CPF_USED OR CPF_VALID,
             cp_w0 := word_of_int who, cp_w1 := addr, cp_w2 := bytes\<rparr>)"
    and k: "\<forall>i<length (grants c). used (grants c ! i) \<longrightarrow> int i \<noteq> g \<and> grants c' ! i = grants c ! i"
    using cpf_grant_direct_spec [OF assms(1,2)] by blast
  show ?thesis
    by (rule exI [of _ g], rule exI [of _ c']) (use r g k verify_direct assms(2-6) in blast)
qed

text \<open>A process of the sample system with an empty grant table at address 4096.\<close>

definition sample_cpf :: cpf where
  "sample_cpf = \<lparr>g_addr = 4096, grants = [\<lparr>cp_flags = 0, cp_w0 = 0, cp_w1 = 0, cp_w2 = 0, cp_w3 = 0\<rparr>], c_errno = 0\<rparr>"

definition sample_env :: cpf_env where
  "sample_env = \<lparr>ce_malloc = (\<lambda>_. None), ce_fresh = (\<lambda>_. \<lparr>cp_flags = 0, cp_w0 = 0, cp_w1 = 0, cp_w2 = 0, cp_w3 = 0\<rparr>),
     ce_setgrant = (\<lambda>_ _. 0)\<rparr>"

theorem direct_grant_exact_witness:
  "\<exists>c'. cpf_grant_direct sample_env 11 8192 100 CPF_READ sample_cpf = Some (0, c') \<and>
    (\<forall>s gm e. linked s gm e c' \<longrightarrow> verify_grant gm s e 11 0 60 CPF_READ 40 = Inr (8232, e) \<and>
       verify_grant gm s e 11 0 61 CPF_READ 40 = Inl (- EPERM) \<and> verify_grant gm s e 1 0 60 CPF_READ 40 = Inl (- EPERM))"
proof -
  have h: "ngrants sample_cpf < 2 ^ 29" "\<not> access_bad CPF_READ" "unat (8192 :: 32 word) + unat (100 :: 32 word) \<le> 2 ^ 32"
    by (simp_all add: ngrants_def sample_cpf_def access_bad_def)
  have "\<not> table_full sample_env sample_cpf" by (simp add: table_full_def sample_cpf_def)
  then obtain g c' where r: "cpf_grant_direct sample_env 11 8192 100 CPF_READ sample_cpf = Some (g, c')" "0 \<le> g"
    and v: "\<forall>s gm e w n a off. linked s gm e c' \<and> \<not> access_bad a \<longrightarrow>
        verify_grant gm s e w g n a off =
          (if (w = 11 \<or> w = ENDPT_ANY) \<and> CPF_READ AND a = a \<and> in_range off n 100 then Inr (8192 + off, e) else Inl (- EPERM))"
    using direct_grant_exact [OF h(1,2) _ _ _ h(3), of 11 sample_env] by auto
  have "cpf_new_grantslot sample_env sample_cpf = Some (0, sample_cpf)"
    by (simp add: cpf_new_grantslot_def sample_cpf_def ngrants_def GRANT_VALID_def)
  then have "g = 0" using r by (auto simp: cpf_grant_direct_def split: prod.splits if_splits)
  then show ?thesis using r(1) v h(2) by (intro exI [of _ c']) (simp add: in_range_def)
qed

text \<open>
  C37. Revoking a grant ends it: whoever asks afterwards, for whatever access, is refused, while
  every other grant of the table is left as it was.
\<close>

theorem revoke_refuses:
  assumes "0 \<le> g" "g < ngrants c" and "used (grants c ! nat g)"
  shows "\<exists>c'. cpf_revoke g c = (0, c') \<and>
    (\<forall>s gm e w n a off. linked s gm e c' \<longrightarrow> verify_grant gm s e w g n a off = Inl (- EPERM)) \<and>
    (\<forall>i. i \<noteq> nat g \<longrightarrow> grants c' ! i = grants c ! i) \<and> ngrants c' = ngrants c"
proof -
  let ?c = "upd_grant g (\<lambda>e. e\<lparr>cp_flags := 0\<rparr>) c"
  have i: "nat g < length (grants c)" "g < ngrants ?c" using assms(1,2) by (simp_all add: ngrants_def upd_grant_def)
  have z: "cp_flags (grants ?c ! nat g) = 0" using i(1) by (simp add: upd_grant_def)
  have "verify_grant gm s e w g n a off = Inl (- EPERM)" if "linked s gm e ?c" for s gm e w n a off
    using linked_entry [OF that assms(1) i(2)] z by (simp add: verify_grant_def grant_loop.simps)
  moreover have "cpf_revoke g c = (0, ?c)"
    using assms by (simp add: cpf_revoke_def gid_unused_def gid_bad_def GRANT_VALID_def)
  ultimately show ?thesis by (intro exI [of _ ?c]) (simp add: upd_grant_def ngrants_def)
qed

definition sample_granted :: cpf where
  "sample_granted = sample_cpf\<lparr>grants := [\<lparr>cp_flags = 0x1301, cp_w0 = 11, cp_w1 = 8192, cp_w2 = 100, cp_w3 = 0\<rparr>]\<rparr>"

theorem revoke_refuses_witness:
  "used (grants sample_granted ! 0) \<and> (\<exists>c'. cpf_revoke 0 sample_granted = (0, c') \<and>
    (\<forall>s gm e. linked s gm e c' \<longrightarrow> verify_grant gm s e 11 0 60 CPF_READ 40 = Inl (- EPERM)))"
  using revoke_refuses [of 0 sample_granted] by (auto simp: sample_granted_def ngrants_def)


text \<open>The sample system, where the process manager has a table with a direct grant to process 11.\<close>

definition sample_g :: kstate where
  "sample_g = upd_priv_of 0 (\<lambda>p. p\<lparr>s_grant_table := 4096, s_grant_entries := 1\<rparr>) sample"

definition sample_gm :: gmem where
  "sample_gm e a = (if e = 0 \<and> a = 4096 then Some (grants sample_granted ! 0) else None)"

lemma sample_linked: "linked sample_g sample_gm 0 sample_granted"
proof -
  have "isokendpt sample_g 0 = Some 0" "HASGRANTTABLE sample_g 0"
    by (simp_all add: isokendpt_def ENDPOINT_P_def c_rem_def c_div_def wrap32_def isokprocn_def uwrap32_def isemptyp_def
        HASGRANTTABLE_def RTS_ISSET_def sample_g_def sample_def sample_proc_def upd_priv_of_def upd_priv_def priv_of_def)
  then show ?thesis
    by (simp add: linked_def sample_gm_def sample_granted_def sample_cpf_def ngrants_def uwrap32_def
        sample_g_def sample_def sample_proc_def upd_priv_of_def upd_priv_def priv_of_def)
qed



text \<open>A copy routine that only logs the processes it copies between.\<close>

definition log_copy :: "(int \<times> int) list copier" where
  "log_copy src dst n sm = (0, fst sm, (va_proc_e src, va_proc_e dst) # snd sm)"


end
