(* ===== verification/Kernel_Calls.thy ===== *)
theory Kernel_Calls
  imports Kernel_Grants
begin

text \<open>
  The kernel calls that manage processes, signals, privileges and clocks
  (\<^verbatim>\<open>kernel/system/do_*.c\<close>), and the dispatch of a request by the system task
  (\<^verbatim>\<open>kernel/system.c\<close>). A handler takes the request message and returns its result with the
  message, whose fields it may have set for the reply, and the new state.
\<close>

section \<open>What handlers read from the caller\<close>

text \<open>
  \<^verbatim>\<open>data_copy\<close> from an address of the caller: the error, or the structure that lies there. Two
  callers ignore the error and go on with an uninitialised variable, whose content is the
  last component. \<open>um_lin\<close> is the linear address of the kernel's message buffer of a process.
\<close>

record umem =
  um_map :: "int \<Rightarrow> int \<Rightarrow> int + (int \<Rightarrow> mem_map)"
  um_priv :: "int \<Rightarrow> int \<Rightarrow> int + priv"
  um_io :: "int \<Rightarrow> int \<Rightarrow> int + io_range"
  um_mem :: "int \<Rightarrow> int \<Rightarrow> int + mem_range"
  um_irq :: "int \<Rightarrow> int \<Rightarrow> int + int"
  um_lin :: "int \<Rightarrow> int"
  um_junk :: "io_range \<times> int"

type_synonym reply = "(int \<times> kipc_msg \<times> kstate) option"

abbreviation ret :: "int \<Rightarrow> kipc_msg \<Rightarrow> kstate \<Rightarrow> reply" where
  "ret r m s \<equiv> Some (r, m, s)"

section \<open>Processes\<close>

abbreviation (input) TRACEBIT :: "32 word" where "TRACEBIT \<equiv> 0x100"
abbreviation (input) PFF_VMINHIBIT :: int where "PFF_VMINHIBIT \<equiv> 1"

text \<open>\<^verbatim>\<open>newmap\<close>; the segment descriptors that \<^verbatim>\<open>alloc_segments\<close> derives from the map are not modelled.\<close>

definition newmap :: "umem \<Rightarrow> int \<Rightarrow> int \<Rightarrow> kstate \<Rightarrow> int \<times> kstate" where
  "newmap um rp map_ptr s =
     (case um_map um (who_e s) map_ptr of
        Inl r \<Rightarrow> (r, s)
      | Inr mm \<Rightarrow> (0, upd_proc rp (\<lambda>p. p\<lparr>p_memmap := mm\<rparr>) s))"

definition do_newmap :: "umem \<Rightarrow> kipc_msg \<Rightarrow> kstate \<Rightarrow> reply" where
  "do_newmap um m s =
     (case isokendpt s (m_data1 m) of
        None \<Rightarrow> ret (- EINVAL) m s
      | Some proc_nr \<Rightarrow>
          if iskerneln proc_nr then ret (- EPERM) m s
          else (case newmap um proc_nr (m_data4 m) s of (r, s1) \<Rightarrow> ret r m s1))"

definition FIXLINMSG :: "umem \<Rightarrow> int \<Rightarrow> kstate \<Rightarrow> kstate option" where
  "FIXLINMSG um prp s =
     (if syscall_0x80 (procs s prp) then Some (upd_proc prp (\<lambda>p. p\<lparr>p_delivermsg_lin := um_lin um prp\<rparr>) s)
      else do {
        lin \<leftarrow> umap_local (procs s prp) SEG_D (p_delivermsg_vir (procs s prp)) MSG_SIZE;
        Some (upd_proc prp (\<lambda>p. p\<lparr>p_delivermsg_lin := lin\<rparr>) s)
      })"

text \<open>The child's table entry, made from the parent's.\<close>

definition fork_child :: "proc \<Rightarrow> int \<Rightarrow> int \<Rightarrow> bool \<Rightarrow> proc" where
  "fork_child p nr ep sys =
     (let c = p\<lparr>p_nr := nr, p_endpoint := ep, p_retreg := 0, p_user_time := 0, p_sys_time := 0,
                p_psw := p_psw p AND NOT TRACEBIT,
                p_misc_flags := p_misc_flags p AND NOT (MF_VIRT_TIMER OR MF_PROF_TIMER OR MF_SC_TRACE),
                p_virt_left := 0, p_prof_left := 0, p_ticks_left := wrap8 (c_div (p_ticks_left p + 1) 2)\<rparr>
      in if sys then c\<lparr>p_priv := USER_PRIV_ID, p_rts_flags := p_rts_flags p OR RTS_NO_PRIV\<rparr> else c)"

definition fork_generation :: "int \<Rightarrow> int" where
  "fork_generation gen = (if gen + 1 \<ge> ENDPOINT_MAX_GENERATION then 1 else gen + 1)"

definition do_fork :: "umem \<Rightarrow> kipc_msg \<Rightarrow> kstate \<Rightarrow> reply" where
  "do_fork um m s =
     (case isokendpt s (m_data1 m) of
        None \<Rightarrow> ret (- EINVAL) m s
      | Some rpp \<Rightarrow> do {
          rpc \<leftarrow> proc_addr (m_data2 m);
          if isemptyp (procs s rpp) \<or> \<not> isemptyp (procs s rpc) then ret (- EINVAL) m s
          else if \<not> RTS_ISSET (procs s rpp) RTS_RECEIVING then ret (- EINVAL) m s
          else if s_asynsize (priv_of s rpp) > 0 then ret (- EINVAL) m s
          else do {
            let gen = fork_generation (ENDPOINT_G (p_endpoint (procs s rpc)));
            let ep = ENDPOINT gen (m_data2 m);
            let sys = has_any (s_flags (priv_of s rpp)) SYS_PROC;
            let s1 = upd_proc rpc (\<lambda>_. fork_child (procs s rpp) (m_data2 m) ep sys) s;
            let s2 = upd_proc rpp (\<lambda>p. p\<lparr>p_ticks_left := wrap8 (c_div (p_ticks_left p) 2)\<rparr>) s1;
            let m1 = m\<lparr>m_data1 := ep, m_data4 := p_delivermsg_vir (procs s2 rpp)\<rparr>;
            let (r, s3) = newmap um rpc (m_data4 m) s2;
            s4 \<leftarrow> FIXLINMSG um rpc s3;
            s5 \<leftarrow> (if m_data3 m mod 2 = 1 then RTS_LOCK_SET rpc RTS_VMINHIBIT s4 else Some s4);
            s6 \<leftarrow> RTS_LOCK_UNSET rpc (RTS_SIGNALED OR RTS_SIG_PENDING OR RTS_P_STOP) s5;
            ret r m1 (upd_proc rpc (\<lambda>p. p\<lparr>p_pending := 0\<rparr>) s6)
          }
        })"

text \<open>The loop of \<^verbatim>\<open>clear_proc\<close> that gives back interrupt hooks.\<close>

fun release_hooks :: "int \<Rightarrow> int list \<Rightarrow> kstate \<Rightarrow> kstate option" where
  "release_hooks rc [] s = Some s"
| "release_hooks rc (i # is) s =
     (if p_endpoint (procs s rc) = h_proc_nr_e (irq_hooks s i) then do {
        s1 \<leftarrow> rm_irq_handler i s;
        release_hooks rc is (upd_hook i (\<lambda>h. h\<lparr>h_proc_nr_e := ENDPT_NONE\<rparr>) s1)
      }
      else release_hooks rc is s)"

definition clear_proc :: "int \<Rightarrow> kstate \<Rightarrow> kstate option" where
  "clear_proc rc s =
     (if isemptyp (procs s rc) then Some s
      else do {
        s1 \<leftarrow> release_hooks rc [0..NR_IRQ_HOOKS - 1] s;
        s2 \<leftarrow> clear_endpoint rc s1;
        s3 \<leftarrow> reset_timer (Alarm (p_priv (procs s2 rc))) s2;
        s4 \<leftarrow> RTS_LOCK_SETFLAGS rc RTS_SLOT_FREE s3;
        let s5 = upd_proc rc (\<lambda>p. p\<lparr>p_misc_flags := p_misc_flags p AND NOT MF_FPU_INITIALIZED\<rparr>) s4;
        Some (if has_any (s_flags (priv_of s5 rc)) SYS_PROC
              then upd_priv_of rc (\<lambda>pr. pr\<lparr>s_proc_nr := ENDPT_NONE\<rparr>) s5 else s5)
      })"

definition do_exit :: "kipc_msg \<Rightarrow> kstate \<Rightarrow> reply" where
  "do_exit m s =
     (if PM_PROC_NR = who_p s \<and> m_data1 m \<noteq> ENDPT_SELF then
        (case isokendpt s (m_data1 m) of
           None \<Rightarrow> ret (- EINVAL) m s
         | Some exit_e \<Rightarrow> map_option (\<lambda>s1. (0, m, s1)) (clear_proc exit_e s))
      else map_option (\<lambda>s1. (- EDONTREPLY, m, s1)) (clear_proc (who_p s) s))"

abbreviation (input) PRIO_MIN :: int where "PRIO_MIN \<equiv> -20"
abbreviation (input) PRIO_MAX :: int where "PRIO_MAX \<equiv> 20"
abbreviation (input) MAX_USER_Q :: int where "MAX_USER_Q \<equiv> 0"
abbreviation (input) MIN_USER_Q :: int where "MIN_USER_Q \<equiv> NR_SCHED_QUEUES - 1"

definition nice_queue :: "int \<Rightarrow> int" where
  "nice_queue pri =
     (let q = MAX_USER_Q + c_div ((pri - PRIO_MIN) * (MIN_USER_Q - MAX_USER_Q + 1)) (PRIO_MAX - PRIO_MIN + 1);
          q1 = (if q < MAX_USER_Q then MAX_USER_Q else q)
      in if q1 > MIN_USER_Q then MIN_USER_Q else q1)"

definition do_nice :: "kipc_msg \<Rightarrow> kstate \<Rightarrow> reply" where
  "do_nice m s =
     (case isokendpt s (m_data1 m) of
        None \<Rightarrow> ret (- EINVAL) m s
      | Some rp \<Rightarrow>
          if iskerneln rp then ret (- EPERM) m s
          else if m_data2 m < PRIO_MIN \<or> m_data2 m > PRIO_MAX then ret (- EINVAL) m s
          else do {
            s1 \<leftarrow> RTS_LOCK_SET rp RTS_SYS_LOCK s;
            let s2 = upd_proc rp (\<lambda>p. p\<lparr>p_max_priority := nice_queue (m_data2 m), p_priority := nice_queue (m_data2 m)\<rparr>) s1;
            s3 \<leftarrow> RTS_LOCK_UNSET rp RTS_SYS_LOCK s2;
            ret 0 m s3
          })"

abbreviation (input) RC_STOP :: int where "RC_STOP \<equiv> 0"
abbreviation (input) RC_RESUME :: int where "RC_RESUME \<equiv> 1"

definition runctl_delay :: "int \<Rightarrow> kstate \<Rightarrow> (bool \<times> kstate) option" where
  "runctl_delay rp s = do {
     s1 \<leftarrow> RTS_LOCK_SET rp RTS_SYS_LOCK s;
     let s2 = (if RTS_ISSET (procs s1 rp) RTS_SENDING \<or> has_any (p_misc_flags (procs s1 rp)) MF_SC_DEFER
               then upd_proc rp (\<lambda>p. p\<lparr>p_misc_flags := p_misc_flags p OR MF_SIG_DELAY\<rparr>) s1 else s1);
     let delayed = has_any (p_misc_flags (procs s2 rp)) MF_SIG_DELAY;
     s3 \<leftarrow> RTS_LOCK_UNSET rp RTS_SYS_LOCK s2;
     Some (delayed, s3)
   }"

text \<open>\<^verbatim>\<open>RC_DELAY\<close> is the lowest bit of the flags.\<close>

definition do_runctl :: "kipc_msg \<Rightarrow> kstate \<Rightarrow> reply" where
  "do_runctl m s =
     (case isokendpt s (m_data1 m) of
        None \<Rightarrow> ret (- EINVAL) m s
      | Some rp \<Rightarrow>
          if iskerneln rp then ret (- EPERM) m s
          else do {
            (delayed, s1) \<leftarrow> (if m_data2 m = RC_STOP \<and> m_data3 m mod 2 = 1 then runctl_delay rp s else Some (False, s));
            if delayed then ret (- EBUSY) m s1
            else if m_data2 m = RC_STOP then map_option (\<lambda>s2. (0, m, s2)) (RTS_LOCK_SET rp RTS_PROC_STOP s1)
            else if m_data2 m = RC_RESUME then map_option (\<lambda>s2. (0, m, s2)) (RTS_LOCK_UNSET rp RTS_PROC_STOP s1)
            else ret (- EINVAL) m s1
          })"

section \<open>Signals\<close>

abbreviation (input) NSIG :: int where "NSIG \<equiv> 29"

definition do_kill :: "kipc_msg \<Rightarrow> kstate \<Rightarrow> reply" where
  "do_kill m s =
     (case isokendpt s (m_data1 m) of
        None \<Rightarrow> ret (- EINVAL) m s
      | Some proc_nr \<Rightarrow>
          if m_data2 m \<ge> NSIG then ret (- EINVAL) m s
          else if iskerneln proc_nr then ret (- EPERM) m s
          else do {
            s1 \<leftarrow> cause_sig proc_nr (m_data2 m) s;
            s2 \<leftarrow> (if m_data2 m = SIGKILL then clear_endpoint proc_nr s1 else Some s1);
            ret 0 m s2
          })"

text \<open>The user part of the process table, from \<^verbatim>\<open>BEG_USER_ADDR\<close>, is searched in order.\<close>

definition do_getksig :: "kipc_msg \<Rightarrow> kstate \<Rightarrow> reply" where
  "do_getksig m s =
     (case find (\<lambda>rp. RTS_ISSET (procs s rp) RTS_SIGNALED) [0..NR_PROCS - 1] of
        None \<Rightarrow> ret 0 (m\<lparr>m_data1 := ENDPT_NONE\<rparr>) s
      | Some rp \<Rightarrow>
          (let m1 = m\<lparr>m_data1 := p_endpoint (procs s rp), m_data4 := sint (p_pending (procs s rp))\<rparr>;
               s1 = upd_proc rp (\<lambda>p. p\<lparr>p_pending := 0\<rparr>) s
           in map_option (\<lambda>s2. (0, m1, s2)) (RTS_LOCK_UNSET rp RTS_SIGNALED s1)))"

definition do_endksig :: "kipc_msg \<Rightarrow> kstate \<Rightarrow> reply" where
  "do_endksig m s =
     (case isokendpt s (m_data1 m) of
        None \<Rightarrow> ret (- EINVAL) m s
      | Some rp \<Rightarrow>
          if \<not> RTS_ISSET (procs s rp) RTS_SIG_PENDING then ret (- EINVAL) m s
          else if \<not> RTS_ISSET (procs s rp) RTS_SIGNALED
          then map_option (\<lambda>s1. (0, m, s1)) (RTS_LOCK_UNSET rp RTS_SIG_PENDING s)
          else ret 0 m s)"

section \<open>Clocks\<close>

definition upd_ktmr :: "ktimer \<Rightarrow> ((ktimer, watchdog) timer \<Rightarrow> (ktimer, watchdog) timer) \<Rightarrow> kstate \<Rightarrow> kstate" where
  "upd_ktmr tp f s = s\<lparr>clock_timers := upd_tmr tp f (clock_timers s)\<rparr>"

definition do_setalarm :: "kipc_msg \<Rightarrow> kstate \<Rightarrow> reply" where
  "do_setalarm m s =
     (let exp_time = m_data4 m; use_abs_time = (m_data2 m \<noteq> 0); rp = who_p s
      in if \<not> has_any (s_flags (priv_of s rp)) SYS_PROC then ret (- EPERM) m s
         else do {
           let tp = Alarm (p_priv (procs s rp));
           let s1 = upd_ktmr tp (\<lambda>t. t\<lparr>tmr_arg := m_source m, tmr_func := WD_cause_alarm\<rparr>) s;
           let old = tmr_exp_time (tmr (clock_timers s1) tp);
           let m1 = m\<lparr>m_data4 := (if old \<noteq> TMR_NEVER \<and> get_uptime s1 < old then old - get_uptime s1 else 0)\<rparr>;
           s2 \<leftarrow> (if exp_time = 0 then reset_timer tp s1
                  else (let t = (if use_abs_time then exp_time else wrap32 (exp_time + get_uptime s1));
                            s3 = upd_ktmr tp (\<lambda>tm. tm\<lparr>tmr_exp_time := t\<rparr>) s1
                        in set_timer tp (tmr_exp_time (tmr (clock_timers s3) tp)) (tmr_func (tmr (clock_timers s3) tp)) s3));
           ret 0 m1 s2
         })"

abbreviation (input) VT_VIRTUAL :: int where "VT_VIRTUAL \<equiv> 1"
abbreviation (input) VT_PROF :: int where "VT_PROF \<equiv> 2"

definition do_vtimer :: "kipc_msg \<Rightarrow> kstate \<Rightarrow> reply" where
  "do_vtimer m s =
     (if \<not> has_any (s_flags (priv_of s (who_p s))) SYS_PROC then ret (- EPERM) m s
      else if m_data1 m \<noteq> VT_VIRTUAL \<and> m_data1 m \<noteq> VT_PROF then ret (- EINVAL) m s
      else (case isokendpt s (if m_data5 m = ENDPT_SELF then m_source m else m_data5 m) of
              None \<Rightarrow> ret (- EINVAL) m s
            | Some rp \<Rightarrow>
                (let virt = (m_data1 m = VT_VIRTUAL);
                     pt_flag = (if virt then MF_VIRT_TIMER else MF_PROF_TIMER);
                     left = (if virt then p_virt_left (procs s rp) else p_prof_left (procs s rp));
                     old_value = (if has_any (p_misc_flags (procs s rp)) pt_flag then (if left < 0 then 0 else left) else 0);
                     set_left = (\<lambda>v p. if virt then p\<lparr>p_virt_left := v\<rparr> else p\<lparr>p_prof_left := v\<rparr>);
                     s1 = (if m_data2 m = 0 then s
                           else if m_data4 m > 0
                           then upd_proc rp (\<lambda>p. (set_left (m_data4 m) p)\<lparr>p_misc_flags := (p_misc_flags p AND NOT pt_flag) OR pt_flag\<rparr>) s
                           else upd_proc rp (\<lambda>p. (set_left 0 p)\<lparr>p_misc_flags := p_misc_flags p AND NOT pt_flag\<rparr>) s)
                 in ret 0 (m\<lparr>m_data4 := old_value\<rparr>) s1)))"

definition do_times :: "kipc_msg \<Rightarrow> kstate \<Rightarrow> reply" where
  "do_times m s =
     (let e = (if m_data1 m = ENDPT_SELF then m_source m else m_data1 m);
          m1 = (if e = ENDPT_NONE then m
                else (case isokendpt s e of
                        None \<Rightarrow> m
                      | Some rp \<Rightarrow> m\<lparr>m_data1 := p_user_time (procs s rp), m_data2 := p_sys_time (procs s rp)\<rparr>))
      in ret 0 (m1\<lparr>m_data5 := get_uptime s, m_data3 := boottime s\<rparr>) s)"

definition do_stime :: "kipc_msg \<Rightarrow> kstate \<Rightarrow> reply" where
  "do_stime m s = ret 0 m (s\<lparr>boottime := m_data3 m\<rparr>)"

section \<open>Tracing\<close>

abbreviation (input) T_STOP :: int where "T_STOP \<equiv> -1"
abbreviation (input) T_RESUME :: int where "T_RESUME \<equiv> 7"
abbreviation (input) T_STEP :: int where "T_STEP \<equiv> 9"
abbreviation (input) T_SYSCALL :: int where "T_SYSCALL \<equiv> 10"
abbreviation (input) T_DETACH :: int where "T_DETACH \<equiv> 12"

text \<open>
  The requests that control the traced process; those that read and write its memory and
  registers are answered by \<open>peek\<close>.
\<close>

definition do_trace :: "(int \<Rightarrow> kipc_msg \<Rightarrow> kstate \<Rightarrow> reply) \<Rightarrow> kipc_msg \<Rightarrow> kstate \<Rightarrow> reply" where
  "do_trace peek m s =
     (case isokendpt s (m_data1 m) of
        None \<Rightarrow> ret (- EINVAL) m s
      | Some rp \<Rightarrow>
          if iskerneln rp then ret (- EPERM) m s
          else if isemptyp (procs s rp) then ret (- EINVAL) m s
          else if m_data2 m = T_STOP then do {
            s1 \<leftarrow> RTS_LOCK_SET rp RTS_P_STOP s;
            ret 0 m (upd_proc rp (\<lambda>p. p\<lparr>p_psw := p_psw p AND NOT TRACEBIT, p_misc_flags := p_misc_flags p AND NOT MF_SC_TRACE\<rparr>) s1)
          }
          else if m_data2 m = T_DETACH \<or> m_data2 m = T_RESUME \<or> m_data2 m = T_STEP \<or> m_data2 m = T_SYSCALL then do {
            let s1 = upd_proc rp (\<lambda>p.
                       if m_data2 m = T_DETACH then p\<lparr>p_misc_flags := p_misc_flags p AND NOT MF_SC_ACTIVE\<rparr>
                       else if m_data2 m = T_STEP then p\<lparr>p_psw := p_psw p OR TRACEBIT\<rparr>
                       else if m_data2 m = T_SYSCALL then p\<lparr>p_misc_flags := p_misc_flags p OR MF_SC_TRACE\<rparr>
                       else p) s;
            s2 \<leftarrow> RTS_LOCK_UNSET rp RTS_P_STOP s1;
            ret 0 (m\<lparr>m_data5 := 0\<rparr>) s2
          }
          else peek rp m s)"

section \<open>Privileges\<close>

abbreviation (input) NR_IO_RANGE :: int where "NR_IO_RANGE \<equiv> 32"
abbreviation (input) NR_MEM_RANGE :: int where "NR_MEM_RANGE \<equiv> 10"
abbreviation (input) NR_IRQ :: int where "NR_IRQ \<equiv> 4"
abbreviation (input) DEF_SYS_F :: "16 word" where "DEF_SYS_F \<equiv> SYS_PROC OR PREEMPTIBLE OR DYN_PRIV_ID"
abbreviation (input) DEF_SYS_T :: "16 word" where "DEF_SYS_T \<equiv> 0xffff"

text \<open>The first \<open>n\<close> entries of one table, the others of another.\<close>

definition copy_tab :: "int \<Rightarrow> (int \<Rightarrow> 'a) \<Rightarrow> (int \<Rightarrow> 'a) \<Rightarrow> int \<Rightarrow> 'a" where
  "copy_tab n new old i = (if 0 \<le> i \<and> i < n then new i else old i)"

text \<open>
  A new system process gets the structure of the caller, of which only some fields are reset;
  the alarm timer, too, is a field of the structure.
\<close>

definition priv_default :: "int \<Rightarrow> priv \<Rightarrow> priv \<Rightarrow> priv" where
  "priv_default proc_nr caller p =
     caller\<lparr>s_id := s_id p, s_proc_nr := proc_nr, s_notify_pending := (\<lambda>i. if 0 \<le> i \<and> i < NR_SYS_CHUNKS then 0 else s_notify_pending caller i),
       s_int_pending := 0, s_sig_pending := 0, s_flags := DEF_SYS_F, s_trap_mask := DEF_SYS_T,
       s_k_call_mask := (\<lambda>_. 0xffff), s_nr_io_range := 0, s_nr_mem_range := 0, s_nr_irq := 0,
       s_grant_table := 0, s_grant_entries := 0\<rparr>"

text \<open>Overriding the defaults with a structure of the caller, as far as its counts are in range.\<close>

definition priv_override :: "int \<Rightarrow> priv \<Rightarrow> kstate \<Rightarrow> int \<times> kstate" where
  "priv_override rp a s =
     (let s1 = upd_priv_of rp (\<lambda>p. p\<lparr>s_flags := s_flags a\<rparr>) s
      in if has_any (s_flags a) CHECK_IRQ \<and> (s_nr_irq a < 0 \<or> s_nr_irq a > NR_IRQ) then (- EINVAL, s1)
         else
           (let s2 = (if has_any (s_flags a) CHECK_IRQ
                      then upd_priv_of rp (\<lambda>p. p\<lparr>s_nr_irq := s_nr_irq a, s_irq_tab := copy_tab (s_nr_irq a) (s_irq_tab a) (s_irq_tab p)\<rparr>) s1
                      else s1)
            in if has_any (s_flags a) CHECK_IO_PORT \<and> (s_nr_io_range a < 0 \<or> s_nr_io_range a > NR_IO_RANGE) then (- EINVAL, s2)
               else
                 (let s3 = (if has_any (s_flags a) CHECK_IO_PORT
                            then upd_priv_of rp (\<lambda>p. p\<lparr>s_nr_io_range := s_nr_io_range a, s_io_tab := copy_tab (s_nr_io_range a) (s_io_tab a) (s_io_tab p)\<rparr>) s2
                            else s2)
                  in if has_any (s_flags a) CHECK_MEM \<and> (s_nr_mem_range a < 0 \<or> s_nr_mem_range a > NR_MEM_RANGE) then (- EINVAL, s3)
                     else
                       (let s4 = (if has_any (s_flags a) CHECK_MEM
                                  then upd_priv_of rp (\<lambda>p. p\<lparr>s_nr_mem_range := s_nr_mem_range a, s_mem_tab := copy_tab (s_nr_mem_range a) (s_mem_tab a) (s_mem_tab p)\<rparr>) s3
                                  else s3)
                        in (0, upd_priv_of rp (\<lambda>p. p\<lparr>s_trap_mask := s_trap_mask a, s_k_call_mask := s_k_call_mask a\<rparr>) s4)))))"

fun fill_targets :: "int \<Rightarrow> (int \<Rightarrow> bool) \<Rightarrow> int list \<Rightarrow> kstate \<Rightarrow> kstate" where
  "fill_targets rp ipc_to_m [] s = s"
| "fill_targets rp ipc_to_m (i # is) s =
     fill_targets rp ipc_to_m is (if ipc_to_m i then set_sendto_bit rp i s else unset_sendto_bit rp i s)"

definition priv_set_sys :: "umem \<Rightarrow> kipc_msg \<Rightarrow> int \<Rightarrow> kstate \<Rightarrow> int \<times> kstate" where
  "priv_set_sys um m rp s =
     (if \<not> RTS_ISSET (procs s rp) RTS_NO_PRIV then (- EPERM, s)
      else (case (if m_data6 m \<noteq> 0 then map_sum id Some (um_priv um (who_e s) (m_data6 m)) else Inr None) of
              Inl r \<Rightarrow> (r, s)
            | Inr arg \<Rightarrow>
                (case get_priv rp (case arg of None \<Rightarrow> NULL_PRIV_ID
                                   | Some a \<Rightarrow> if \<not> has_any (s_flags a) DYN_PRIV_ID then s_id a else NULL_PRIV_ID) s of
                   (r, s1) \<Rightarrow>
                     if r \<noteq> 0 then (r, s1)
                     else
                       (let caller = who_p s;
                            s2 = upd_priv_of rp (\<lambda>p. priv_default rp (priv_of s1 caller) p) s1;
                            s3 = upd_ktmr (Alarm (p_priv (procs s2 rp))) (\<lambda>_. tmr (clock_timers s2) (Alarm (p_priv (procs s2 caller)))) s2
                        in case arg of
                             None \<Rightarrow> (0, fill_targets rp (\<lambda>i. i \<noteq> USER_PRIV_ID) [0..NR_SYS_PROCS - 1] s3)
                           | Some a \<Rightarrow>
                               (case priv_override rp a s3 of
                                  (r1, s4) \<Rightarrow> if r1 \<noteq> 0 then (r1, s4)
                                              else (0, fill_targets rp (get_sys_bit (s_ipc_to a)) [0..NR_SYS_PROCS - 1] s4))))))"

abbreviation (input) SYS_PRIV_ALLOW :: int where "SYS_PRIV_ALLOW \<equiv> 1"
abbreviation (input) SYS_PRIV_DISALLOW :: int where "SYS_PRIV_DISALLOW \<equiv> 2"
abbreviation (input) SYS_PRIV_SET_SYS :: int where "SYS_PRIV_SET_SYS \<equiv> 3"
abbreviation (input) SYS_PRIV_SET_USER :: int where "SYS_PRIV_SET_USER \<equiv> 4"
abbreviation (input) SYS_PRIV_ADD_IO :: int where "SYS_PRIV_ADD_IO \<equiv> 5"
abbreviation (input) SYS_PRIV_ADD_MEM :: int where "SYS_PRIV_ADD_MEM \<equiv> 6"
abbreviation (input) SYS_PRIV_ADD_IRQ :: int where "SYS_PRIV_ADD_IRQ \<equiv> 7"
abbreviation (input) SYS_PRIV_QUERY_MEM :: int where "SYS_PRIV_QUERY_MEM \<equiv> 8"

text \<open>Adding a range of I/O ports, a range of memory, an interrupt line.\<close>

definition priv_add_io :: "io_range \<Rightarrow> int \<Rightarrow> kstate \<Rightarrow> int \<times> kstate" where
  "priv_add_io r rp s =
     (let s1 = upd_priv_of rp (\<lambda>p. p\<lparr>s_flags := s_flags p OR CHECK_IO_PORT\<rparr>) s; i = s_nr_io_range (priv_of s1 rp)
      in if i \<ge> NR_IO_RANGE then (- ENOMEM, s1)
         else (0, upd_priv_of rp (\<lambda>p. p\<lparr>s_io_tab := (s_io_tab p)(i := r), s_nr_io_range := i + 1\<rparr>) s1))"

definition priv_add_mem :: "mem_range \<Rightarrow> int \<Rightarrow> kstate \<Rightarrow> int \<times> kstate" where
  "priv_add_mem r rp s =
     (let s1 = upd_priv_of rp (\<lambda>p. p\<lparr>s_flags := s_flags p OR CHECK_MEM\<rparr>) s; i = s_nr_mem_range (priv_of s1 rp)
      in if i \<ge> NR_MEM_RANGE then (- ENOMEM, s1)
         else (0, upd_priv_of rp (\<lambda>p. p\<lparr>s_mem_tab := (s_mem_tab p)(i := r), s_nr_mem_range := i + 1\<rparr>) s1))"

definition priv_add_irq :: "int \<Rightarrow> int \<Rightarrow> kstate \<Rightarrow> int \<times> kstate" where
  "priv_add_irq irq rp s =
     (let s1 = upd_priv_of rp (\<lambda>p. p\<lparr>s_flags := s_flags p OR CHECK_IRQ\<rparr>) s; i = s_nr_irq (priv_of s1 rp)
      in if i \<ge> NR_IRQ then (- ENOMEM, s1)
         else (0, upd_priv_of rp (\<lambda>p. p\<lparr>s_irq_tab := (s_irq_tab p)(i := irq), s_nr_irq := i + 1\<rparr>) s1))"

definition priv_query_mem :: "kipc_msg \<Rightarrow> int \<Rightarrow> kstate \<Rightarrow> int" where
  "priv_query_mem m rp s =
     (let addr = uwrap32 (m_data4 m); limit = uwrap32 (addr + uwrap32 (m_data5 m) - 1); sp = priv_of s rp
      in if limit < addr then - EPERM
         else if \<not> has_any (s_flags sp) SYS_PROC then - EPERM
         else if \<exists>i \<in> set [0..s_nr_mem_range sp - 1]. addr \<ge> mr_base (s_mem_tab sp i) \<and> limit \<le> mr_limit (s_mem_tab sp i) then 0
         else - EPERM)"

definition or_junk :: "'e + 'a \<Rightarrow> 'a \<Rightarrow> 'a" where
  "or_junk x j = (case x of Inl _ \<Rightarrow> j | Inr a \<Rightarrow> a)"

definition do_privctl :: "umem \<Rightarrow> kipc_msg \<Rightarrow> kstate \<Rightarrow> reply" where
  "do_privctl um m s =
     (if \<not> has_any (s_flags (priv_of s (who_p s))) SYS_PROC then ret (- EPERM) m s
      else (case (if m_data1 m = ENDPT_SELF then Some (who_p s) else isokendpt s (m_data1 m)) of
        None \<Rightarrow> ret (- EINVAL) m s
      | Some rp \<Rightarrow>
          (let no_priv = RTS_ISSET (procs s rp) RTS_NO_PRIV;
               denied = (no_priv \<or> \<not> has_any (s_flags (priv_of s rp)) SYS_PROC);
               done = (\<lambda>(r, s1). ret r m s1)
           in if m_data2 m = SYS_PRIV_ALLOW then
                (if \<not> no_priv \<or> s_proc_nr (priv_of s rp) = ENDPT_NONE then ret (- EPERM) m s
                 else map_option (\<lambda>s1. (0, m, s1)) (RTS_LOCK_UNSET rp RTS_NO_PRIV s))
              else if m_data2 m = SYS_PRIV_DISALLOW then
                (if no_priv then ret (- EPERM) m s
                 else map_option (\<lambda>s1. (0, m, s1)) (RTS_LOCK_SET rp RTS_NO_PRIV s))
              else if m_data2 m = SYS_PRIV_SET_SYS then done (priv_set_sys um m rp s)
              else if m_data2 m = SYS_PRIV_SET_USER then
                (if \<not> no_priv then ret (- EPERM) m s
                 else ret 0 m (upd_proc rp (\<lambda>p. p\<lparr>p_priv := USER_PRIV_ID\<rparr>) s))
              else if m_data2 m = SYS_PRIV_ADD_IO then
                (if denied then ret (- EPERM) m s
                 else done (priv_add_io (or_junk (um_io um (who_e s) (m_data6 m)) (fst (um_junk um))) rp s))
              else if m_data2 m = SYS_PRIV_ADD_MEM then
                (if denied then ret (- EPERM) m s
                 else (case um_mem um (who_e s) (m_data6 m) of
                         Inl r \<Rightarrow> ret r m s
                       | Inr mr \<Rightarrow> done (priv_add_mem mr rp s)))
              else if m_data2 m = SYS_PRIV_ADD_IRQ then
                (if denied then ret (- EPERM) m s
                 else done (priv_add_irq (or_junk (um_irq um (who_e s) (m_data6 m)) (snd (um_junk um))) rp s))
              else if m_data2 m = SYS_PRIV_QUERY_MEM then ret (priv_query_mem m rp s) m s
              else ret (- EINVAL) m s)))"

section \<open>The system task\<close>

abbreviation (input) KERNEL_CALL :: int where "KERNEL_CALL \<equiv> 0x600"
abbreviation (input) NR_SYS_CALLS :: int where "NR_SYS_CALLS \<equiv> 48"
abbreviation (input) EBADREQUEST :: int where "EBADREQUEST \<equiv> 107"
abbreviation (input) VMSUSPEND :: int where "VMSUSPEND \<equiv> 996"

text \<open>The call vector; calls not modelled here are answered by \<open>other\<close>.\<close>

definition call_vec :: "umem \<Rightarrow> (int \<Rightarrow> kipc_msg \<Rightarrow> kstate \<Rightarrow> reply) \<Rightarrow> int \<Rightarrow> kipc_msg \<Rightarrow> kstate \<Rightarrow> reply" where
  "call_vec um other call_nr m s =
     (if call_nr = 0 then do_fork um m s
      else if call_nr = 2 then do_exit m s
      else if call_nr = 3 then do_nice m s
      else if call_nr = 4 then do_privctl um m s
      else if call_nr = 5 then do_trace other m s
      else if call_nr = 6 then do_kill m s
      else if call_nr = 7 then do_getksig m s
      else if call_nr = 8 then do_endksig m s
      else if call_nr = 11 then do_newmap um m s
      else if call_nr = 19 then do_irqctl m s
      else if call_nr = 24 then do_setalarm m s
      else if call_nr = 25 then do_times m s
      else if call_nr = 34 then (case do_setgrant m s of (r, s1) \<Rightarrow> ret r m s1)
      else if call_nr = 39 then do_stime m s
      else if call_nr = 45 then do_vtimer m s
      else if call_nr = 46 then do_runctl m s
      else other call_nr m s)"

text \<open>Serving a request: who asks, whether the call exists and is allowed, and the call.\<close>

definition sys_dispatch :: "umem \<Rightarrow> (int \<Rightarrow> kipc_msg \<Rightarrow> kstate \<Rightarrow> reply) \<Rightarrow> kipc_msg \<Rightarrow> kstate \<Rightarrow> reply" where
  "sys_dispatch um other m s = do {
     let call_nr = wrap32 (m_type m - KERNEL_CALL);
     let s1 = s\<lparr>who_e := m_source m\<rparr>;
     p \<leftarrow> okendpt s1 (m_source m);
     let s2 = s1\<lparr>who_p := p\<rparr>;
     if call_nr < 0 \<or> call_nr \<ge> NR_SYS_CALLS then ret (- EBADREQUEST) m s2
     else if \<not> get_sys_bit (s_k_call_mask (priv_of s2 p)) call_nr then ret (- ECALLDENIED) m s2
     else call_vec um other call_nr m s2
   }"

text \<open>
  The reply. The message of the system task lies in a variable at address \<open>maddr\<close> of the
  kernel, from where \<^verbatim>\<open>lock_send\<close> takes it. A suspended call is saved in a field of the
  caller's entry that is not modelled.
\<close>

definition sys_reply :: "int \<Rightarrow> int \<Rightarrow> kipc_msg \<Rightarrow> kstate \<Rightarrow> kstate option" where
  "sys_reply maddr result m s =
     (if result = - VMSUSPEND \<or> result = - EDONTREPLY then Some s
      else if WILLRECEIVE (procs s (who_p s)) SYSTEM then do {
        lin \<leftarrow> umap_local (procs s (proc_ptr s)) SEG_D maddr MSG_SIZE;
        (_, s1) \<leftarrow> lock_send (m_source m) maddr (s\<lparr>umsg := (umsg s)(lin := Some (m\<lparr>m_type := result\<rparr>))\<rparr>);
        Some s1
      }
      else Some s)"

definition sys_task_step :: "umem \<Rightarrow> (int \<Rightarrow> kipc_msg \<Rightarrow> kstate \<Rightarrow> reply) \<Rightarrow> int \<Rightarrow> kipc_msg \<Rightarrow> kstate \<Rightarrow> kstate option" where
  "sys_task_step um other maddr m s = do {
     (result, m1, s1) \<leftarrow> sys_dispatch um other m s;
     sys_reply maddr result m1 s1
   }"

end
