(* ===== verification/Kernel_Calls_Props.thy ===== *)
theory Kernel_Calls_Props
  imports Kernel_Calls
begin

text \<open>
  Properties of the kernel calls of \<^verbatim>\<open>Kernel_Calls\<close>: each keeps the kernel invariant, and what it
  does for its caller.
\<close>

section \<open>Flags that communication does not look at\<close>

definition plain :: "16 word \<Rightarrow> bool" where
  "plain f \<longleftrightarrow> f \<noteq> 0 \<and> f AND RTS_SLOT_FREE = 0 \<and> f AND RTS_SENDING = 0 \<and> f AND RTS_RECEIVING = 0 \<and> f AND RTS_NO_ENDPOINT = 0"

lemma and_not_disjoint: "f AND g = 0 \<Longrightarrow> (x AND NOT f) AND g = x AND g" for x f g :: "'a::len word"
proof (rule bit_word_eqI)
  fix n assume f: "f AND g = 0" and n: "n < LENGTH('a)"
  have "\<not> (bit f n \<and> bit g n)" using arg_cong [OF f, of "\<lambda>w. bit w n"] by (simp add: bit_and_iff)
  then show "bit ((x AND NOT f) AND g) n \<longleftrightarrow> bit (x AND g) n" using n by (auto simp: bit_simps)
qed

lemma plainD:
  assumes "plain f"
  shows "f \<noteq> 0" "f AND RTS_SLOT_FREE = 0" "f AND RTS_SENDING = 0" "f AND RTS_RECEIVING = 0" "f AND RTS_NO_ENDPOINT = 0"
  using assms by (simp_all add: plain_def)

lemma ipcv_plain:
  assumes "plain f"
  shows "ipcv (set_rts n (p_rts_flags (procs s n) OR f) s) = ipcv s"
    "ipcv (set_rts n (p_rts_flags (procs s n) AND NOT f) s) = ipcv s"
  using plainD [OF assms]
  by (auto simp: set_rts_def ipcv_def ipcp_def fun_eq_iff or_and_dist and_not_disjoint simp del: and_not_and)

lemma plain_set:
  assumes k: "kinv s" and l: "live s n" and f: "plain f"
  obtains s' where "RTS_LOCK_SET n f s = Some s'" and "kinv s'" and "note_view s' = note_view s" and "ipcv s' = ipcv s"
    and "p_rts_flags (procs s' n) = p_rts_flags (procs s n) OR f"
  using RTS_LOCK_SET_core [OF kinvD(2) [OF k] l plainD(1,2) [OF f]] ipcv_plain(1) [OF f] k unfolding kinv_alt by metis

lemma plain_unset:
  assumes k: "kinv s" and l: "live s n" and f: "plain f"
  obtains s' where "RTS_LOCK_UNSET n f s = Some s'" and "kinv s'" and "note_view s' = note_view s" and "ipcv s' = ipcv s"
  using RTS_LOCK_UNSET_core [OF kinvD(2) [OF k] l, of f] ipcv_plain(2) [OF f] k unfolding kinv_alt by metis

lemma plain_flags [simp]:
  "plain RTS_SYS_LOCK" "plain RTS_PROC_STOP" "plain RTS_SIGNALED" "plain RTS_SIG_PENDING" "plain RTS_P_STOP"
  "plain RTS_NO_PRIV" "plain RTS_VMINHIBIT" "plain (RTS_SIGNALED OR RTS_SIG_PENDING OR RTS_P_STOP)"
  by (simp_all add: plain_def)

section \<open>Priorities\<close>

lemma nice_queue_range: "0 \<le> nice_queue pri \<and> nice_queue pri < NR_SCHED_QUEUES"
  by (simp add: nice_queue_def Let_def)

lemma nice_queue_exact: "PRIO_MIN \<le> pri \<Longrightarrow> pri \<le> PRIO_MAX \<Longrightarrow> nice_queue pri = (pri + 20) * 16 div 41"
proof -
  assume a: "PRIO_MIN \<le> pri" "pri \<le> PRIO_MAX"
  have "0 \<le> (pri + 20) * 16 div 41" using a by (simp add: pos_imp_zdiv_nonneg_iff)
  moreover have "(pri + 20) * 16 div 41 \<le> 640 div 41" using a by (intro zdiv_mono1) simp_all
  ultimately show ?thesis using a by (simp add: nice_queue_def Let_def c_div_nonneg)
qed

lemma kcore_priority:
  assumes k: "kcore s" and r: "p_rts_flags (procs s n) \<noteq> 0" and q: "valid_q q" "0 \<le> mq"
  shows "kcore (upd_proc n (\<lambda>p. p\<lparr>p_max_priority := mq, p_priority := q\<rparr>) s)"
proof -
  let ?s = "upd_proc n (\<lambda>p. p\<lparr>p_max_priority := mq, p_priority := q\<rparr>) s"
  have f: "nextreadys ?s m = nextreadys s m" "p_rts_flags (procs ?s m) = p_rts_flags (procs s m)"
    "p_nr (procs ?s m) = p_nr (procs s m)" "p_priv (procs ?s m) = p_priv (procs s m)"
    "p_misc_flags (procs ?s m) = p_misc_flags (procs s m)"
    "syscall_0x80 (procs ?s m) = syscall_0x80 (procs s m)" for m by simp_all
  have g: "rdy_head ?s = rdy_head s" "rdy_tail ?s = rdy_tail s" "proc_ptr ?s = proc_ptr s" "privs ?s = privs s"
    "intr_off ?s = intr_off s" "locklevel ?s = locklevel s" "umsg ?s = umsg s"
    by (simp_all add: upd_proc_def)
  have p: "priv_of ?s m = priv_of s m" for m by (simp add: priv_of_def g)
  have rn: "runnables ?s = runnables s" by (auto simp: runnables_def proc_is_runnable_def)
  have "n \<notin> runnables s" using r by (simp add: runnables_def proc_is_runnable_def)
  then have "{m \<in> runnables s. p_priority (procs ?s m) = c} = {m \<in> runnables s. p_priority (procs s m) = c}" for c by auto
  then have "queues ?s (runnables s) Q = queues s (runnables s) Q" for Q unfolding queues_def f g by simp
  moreover have "prio_ok ?s" using k q by (auto simp: kcore_def runq_inv_def prio_ok_def)
  ultimately have "runq_inv ?s" using kcoreD(2) [OF k] unfolding runq_inv_def rn g by blast
  with k show ?thesis
    unfolding kcore_def ksane_def free_ok_def tables_ok_def pm_ok_def lock_ok_def f g p by blast
qed

text \<open>A handler that returns with the invariant kept.\<close>

definition keeps :: "reply \<Rightarrow> bool" where
  "keeps r \<longleftrightarrow> (\<exists>c m s. r = Some (c, m, s) \<and> kinv s)"

lemma keepsI: "r = Some (c, m, s) \<Longrightarrow> kinv s \<Longrightarrow> keeps r"
  by (auto simp: keeps_def)

lemma keeps_ret [simp]: "keeps (ret c m s) = kinv s"
  by (simp add: keeps_def)

lemma do_nice_spec:
  assumes k: "kinv s" and e: "isokendpt s (m_data1 m) = Some n" and n: "\<not> iskerneln n"
    and p: "PRIO_MIN \<le> m_data2 m" "m_data2 m \<le> PRIO_MAX"
  obtains s' where "do_nice m s = ret 0 m s'" and "kinv s'" and "p_max_priority (procs s' n) = nice_queue (m_data2 m)"
proof -
  let ?q = "nice_queue (m_data2 m)"
  have l: "live s n" by (rule isokendptD(2) [OF kinvD(1) [OF k] e])
  obtain s1 where r1: "RTS_LOCK_SET n RTS_SYS_LOCK s = Some s1" and k1: "kinv s1" and v1: "ipcv s1 = ipcv s"
    and f1: "p_rts_flags (procs s1 n) = p_rts_flags (procs s n) OR RTS_SYS_LOCK"
    using plain_set [OF k l, of RTS_SYS_LOCK] by auto
  define s2 where "s2 = upd_proc n (\<lambda>p. p\<lparr>p_max_priority := ?q, p_priority := ?q\<rparr>) s1"
  have "p_rts_flags (procs s1 n) \<noteq> 0" unfolding f1 by simp
  then have c2: "kcore s2"
    unfolding s2_def using nice_queue_range by (intro kcore_priority [OF kinvD(2) [OF k1]]) (auto simp: valid_q_def)
  moreover have v2: "ipcv s2 = ipcv s" unfolding s2_def ipcv_upd_proc v1 [symmetric] by (simp add: ipcv_def ipcp_def fun_eq_iff)
  ultimately have k2: "kinv s2" using kinvD(3) [OF k] by (simp add: kinv_alt)
  have l2: "live s2 n" using l unfolding live_view v2 .
  obtain s3 where r3: "RTS_LOCK_UNSET n RTS_SYS_LOCK s2 = Some s3" and k3: "kinv s3" and n3: "note_view s3 = note_view s2"
    using plain_unset [OF k2 l2, of RTS_SYS_LOCK] by auto
  have "do_nice m s = ret 0 m s3"
    using n p by (simp add: do_nice_def e r1 s2_def [symmetric] r3)
  moreover have "p_max_priority (procs s3 n) = p_max_priority (procs s2 n)"
    using arg_cong [OF n3, of "\<lambda>t. p_max_priority (procs t n)"] by (simp add: note_view_def)
  then have "p_max_priority (procs s3 n) = ?q" by (simp add: s2_def)
  ultimately show ?thesis using that k3 by blast
qed

lemma do_nice_keeps:
  assumes "kinv s" shows "keeps (do_nice m s)"
proof (cases "isokendpt s (m_data1 m)")
  case (Some n)
  show ?thesis
  proof (cases "iskerneln n \<or> m_data2 m < PRIO_MIN \<or> m_data2 m > PRIO_MAX")
    case True
    with Some assms show ?thesis by (auto simp: do_nice_def)
  next
    case False
    then show ?thesis using do_nice_spec [OF assms Some] keepsI by (metis not_le)
  qed
qed (use assms in \<open>simp add: do_nice_def\<close>)

text \<open>Any miscellaneous flags, of any process but the process manager.\<close>

lemma kinv_misc:
  assumes k: "kinv s" and n: "n \<noteq> PM_PROC_NR"
  shows "kinv (upd_proc n (\<lambda>p. p\<lparr>p_misc_flags := f p\<rparr>) s)" (is "kinv ?s")
proof -
  have f: "nextreadys ?s m = nextreadys s m" "p_rts_flags (procs ?s m) = p_rts_flags (procs s m)"
    "p_priority (procs ?s m) = p_priority (procs s m)" "p_max_priority (procs ?s m) = p_max_priority (procs s m)"
    "p_nr (procs ?s m) = p_nr (procs s m)" "p_priv (procs ?s m) = p_priv (procs s m)"
    "syscall_0x80 (procs ?s m) = syscall_0x80 (procs s m)" for m by simp_all
  have pm: "p_misc_flags (procs ?s PM_PROC_NR) = p_misc_flags (procs s PM_PROC_NR)" using n by simp
  have g: "rdy_head ?s = rdy_head s" "rdy_tail ?s = rdy_tail s" "proc_ptr ?s = proc_ptr s" "privs ?s = privs s"
    "intr_off ?s = intr_off s" "locklevel ?s = locklevel s" "umsg ?s = umsg s"
    by (simp_all add: upd_proc_def)
  have p: "priv_of ?s m = priv_of s m" for m by (simp add: priv_of_def g)
  have r: "runq_inv ?s = runq_inv s" by (rule runq_inv_cong) (simp_all only: f g)
  have v: "ipcv ?s = ipcv s" unfolding ipcv_upd_proc by (simp add: ipcv_def ipcp_def fun_eq_iff)
  show ?thesis
    using k unfolding kinv_def r v ksane_def free_ok_def tables_ok_def pm_ok_def lock_ok_def f g p pm by blast
qed

lemma ipcv_misc [simp]: "ipcv (upd_proc n (\<lambda>p. p\<lparr>p_misc_flags := f p\<rparr>) s) = ipcv s"
  unfolding ipcv_upd_proc by (simp add: ipcv_def ipcp_def fun_eq_iff)

section \<open>Stopping and resuming\<close>

lemma runctl_delay_keeps:
  assumes k: "kinv s" and l: "live s n" and pm: "n \<noteq> PM_PROC_NR"
  obtains d s' where "runctl_delay n s = Some (d, s')" and "kinv s'" and "ipcv s' = ipcv s"
    and "d \<longleftrightarrow> i_send (ipcv s n) \<or> has_any (p_misc_flags (procs s n)) MF_SC_DEFER \<or> has_any (p_misc_flags (procs s n)) MF_SIG_DELAY"
    and "d \<Longrightarrow> has_any (p_misc_flags (procs s' n)) MF_SIG_DELAY"
proof -
  obtain s1 where r1: "RTS_LOCK_SET n RTS_SYS_LOCK s = Some s1" and k1: "kinv s1" and v1: "ipcv s1 = ipcv s"
    and n1: "note_view s1 = note_view s"
    using plain_set [OF k l, of RTS_SYS_LOCK] by auto
  define c where "c = (i_send (ipcv s1 n) \<or> has_any (p_misc_flags (procs s1 n)) MF_SC_DEFER)"
  define s2 where "s2 = (if c then upd_proc n (\<lambda>p. p\<lparr>p_misc_flags := p_misc_flags p OR MF_SIG_DELAY\<rparr>) s1 else s1)"
  have v2: "ipcv s2 = ipcv s" unfolding s2_def v1 [symmetric] by simp
  have k2: "kinv s2" using k1 kinv_misc [OF k1 pm] by (simp add: s2_def)
  have l2: "live s2 n" using l unfolding live_view v2 .
  obtain s3 where r3: "RTS_LOCK_UNSET n RTS_SYS_LOCK s2 = Some s3" and k3: "kinv s3" and v3: "ipcv s3 = ipcv s2"
    and n3: "note_view s3 = note_view s2"
    using plain_unset [OF k2 l2, of RTS_SYS_LOCK] by auto
  let ?d = "has_any (p_misc_flags (procs s2 n)) MF_SIG_DELAY"
  have run: "runctl_delay n s = Some (?d, s3)"
    by (simp add: runctl_delay_def r1 s2_def [symmetric] c_def [symmetric] r3 cong: if_cong)
  have m1: "p_misc_flags (procs s1 n) AND f = p_misc_flags (procs s n) AND f" if "f AND NOT MF_DELIVERMSG = f" for f
    by (rule note_view_procs(9) [OF n1 that])
  have "?d \<longleftrightarrow> i_send (ipcv s n) \<or> has_any (p_misc_flags (procs s n)) MF_SC_DEFER \<or> has_any (p_misc_flags (procs s n)) MF_SIG_DELAY"
    using m1 [of MF_SC_DEFER] m1 [of MF_SIG_DELAY] v1 by (auto simp: s2_def c_def or_and_dist)
  moreover have "p_misc_flags (procs s3 n) AND MF_SIG_DELAY = p_misc_flags (procs s2 n) AND MF_SIG_DELAY"
    by (rule note_view_procs(9) [OF n3]) simp
  ultimately show ?thesis using that [OF run k3] v3 v2 by simp
qed

lemma do_runctl_keeps:
  assumes k: "kinv s" and pm: "isokendpt s (m_data1 m) \<noteq> Some PM_PROC_NR"
  shows "keeps (do_runctl m s)"
proof (cases "isokendpt s (m_data1 m)")
  case (Some n)
  have l: "live s n" by (rule isokendptD(2) [OF kinvD(1) [OF k] Some])
  have n: "n \<noteq> PM_PROC_NR" using pm Some by simp
  define D where "D = (if m_data2 m = RC_STOP \<and> m_data3 m mod 2 = 1 then runctl_delay n s else Some (False, s))"
  obtain d s1 where D: "D = Some (d, s1)" and k1: "kinv s1" and v1: "ipcv s1 = ipcv s"
    using runctl_delay_keeps [OF k l n] k unfolding D_def by (metis (no_types, lifting))
  have l1: "live s1 n" using l unfolding live_view v1 .
  obtain t where t: "RTS_LOCK_SET n RTS_PROC_STOP s1 = Some t" "kinv t" using plain_set [OF k1 l1] plain_flags(2) by metis
  obtain u where u: "RTS_LOCK_UNSET n RTS_PROC_STOP s1 = Some u" "kinv u" using plain_unset [OF k1 l1] plain_flags(2) by metis
  have "do_runctl m s = (if iskerneln n then ret (- EPERM) m s
      else if d then ret (- EBUSY) m s1 else if m_data2 m = RC_STOP then ret 0 m t
      else if m_data2 m = RC_RESUME then ret 0 m u else ret (- EINVAL) m s1)"
    unfolding do_runctl_def Some option.case D_def [symmetric] D using t u by simp
  then show ?thesis using k k1 t u by simp
qed (use k in \<open>simp add: do_runctl_def\<close>)

section \<open>Signals\<close>

lemma do_kill_keeps:
  assumes k: "kinv s" and pm: "isokendpt s (m_data1 m) \<noteq> Some PM_PROC_NR"
    and v: "m_data2 m = SIGKILL \<Longrightarrow> m_data1 m \<noteq> VFS_PROC_NR \<and> m_data1 m \<noteq> VM_PROC_NR \<and> m_data1 m \<noteq> PM_PROC_NR"
  shows "keeps (do_kill m s)"
proof (cases "isokendpt s (m_data1 m)")
  case (Some n)
  note d = isokendptD [OF kinvD(1) [OF k] Some]
  have n: "n \<noteq> PM_PROC_NR" using pm Some by simp
  obtain s1 where r1: "cause_sig n (m_data2 m) s = Some s1" and k1: "kinv s1" and n1: "note_view s1 = note_view s"
    and l1: "live s1 n" using cause_sig_kinv [OF k d(2) n] d(2) by metis
  have e1: "p_endpoint (procs s1 n) = m_data1 m" using note_view_procs(8) [OF n1] d(3) by (simp add: ipcv_sel)
  show ?thesis
  proof (cases "m_data2 m = SIGKILL")
    case True
    obtain s2 where r2: "clear_endpoint n s1 = Some s2" "kinv s2"
      using clear_endpoint_spec [OF k1 l1] v [OF True] e1 by auto
    show ?thesis using k r2 by (simp add: do_kill_def Some r1 [unfolded True] True)
  next
    case False
    then show ?thesis using k k1 by (simp add: do_kill_def Some r1)
  qed
qed (use k in \<open>simp add: do_kill_def\<close>)

lemma signaled_live:
  assumes k: "ksane s" and n: "valid_nr n" and f: "RTS_ISSET (procs s n) RTS_SIGNALED"
  shows "live s n"
proof -
  have "p_rts_flags (procs s n) AND RTS_SIGNALED \<noteq> 0" using f by (simp add: RTS_ISSET_def)
  then have "p_rts_flags (procs s n) \<noteq> RTS_SLOT_FREE" by auto
  then show ?thesis using k n by (auto simp: ksane_def free_ok_def)
qed

lemma kinv_pending: "kinv s \<Longrightarrow> kinv (upd_proc n (\<lambda>p. p\<lparr>p_pending := f p\<rparr>) s)"
  by (rule quiet_kinv) (simp_all add: quiet_def ipcp_def)

lemma do_getksig_keeps:
  assumes k: "kinv s" shows "keeps (do_getksig m s)"
proof (cases "find (\<lambda>rp. RTS_ISSET (procs s rp) RTS_SIGNALED) [0..NR_PROCS - 1]")
  case (Some n)
  then have v: "valid_nr n" and f: "RTS_ISSET (procs s n) RTS_SIGNALED" by (auto simp: find_Some_iff valid_nr_def)
  let ?s = "upd_proc n (\<lambda>p. p\<lparr>p_pending := 0\<rparr>) s"
  have k1: "kinv ?s" by (rule kinv_pending [OF k])
  have l: "live ?s n" using signaled_live [OF kinvD(1) [OF k] v f] by simp
  obtain s' where "RTS_LOCK_UNSET n RTS_SIGNALED ?s = Some s'" "kinv s'" using plain_unset [OF k1 l] plain_flags(3) by metis
  then show ?thesis unfolding do_getksig_def Some option.case Let_def by simp
next
  case None
  then show ?thesis unfolding do_getksig_def None option.case using k by simp
qed

lemma do_endksig_keeps:
  assumes k: "kinv s" shows "keeps (do_endksig m s)"
proof (cases "isokendpt s (m_data1 m)")
  case (Some n)
  note d = isokendptD [OF kinvD(1) [OF k] Some]
  obtain s' where "RTS_LOCK_UNSET n RTS_SIG_PENDING s = Some s'" "kinv s'" using plain_unset [OF k d(2)] plain_flags(4) by metis
  then show ?thesis using k by (simp add: do_endksig_def Some)
qed (use k in \<open>simp add: do_endksig_def\<close>)

section \<open>Clocks\<close>

lemma ipcv_fields2 [simp]: "ipcv (s\<lparr>who_e := e\<rparr>) = ipcv s" "ipcv (s\<lparr>who_p := p\<rparr>) = ipcv s" "ipcv (s\<lparr>boottime := b\<rparr>) = ipcv s"
  by (simp_all add: ipcv_def fun_eq_iff)

lemma kinv_fields2 [simp]: "kinv (s\<lparr>who_e := e\<rparr>) = kinv s" "kinv (s\<lparr>who_p := p\<rparr>) = kinv s" "kinv (s\<lparr>boottime := b\<rparr>) = kinv s"
  by (simp_all add: kinv_unfold)

lemma do_times_keeps: "kinv s \<Longrightarrow> keeps (do_times m s)"
  by (simp add: do_times_def Let_def)

lemma do_stime_keeps: "kinv s \<Longrightarrow> keeps (do_stime m s)"
  by (simp add: do_stime_def)

lemma kinv_vtimer:
  assumes k: "kinv s" and g: "g AND PM_NEVER = 0"
  shows "kinv (upd_proc n (\<lambda>p. p\<lparr>p_virt_left := x, p_misc_flags := (p_misc_flags p AND h) OR g\<rparr>) s)"
    "kinv (upd_proc n (\<lambda>p. p\<lparr>p_prof_left := x, p_misc_flags := (p_misc_flags p AND h) OR g\<rparr>) s)"
    "kinv (upd_proc n (\<lambda>p. p\<lparr>p_virt_left := x, p_misc_flags := p_misc_flags p AND h\<rparr>) s)"
    "kinv (upd_proc n (\<lambda>p. p\<lparr>p_prof_left := x, p_misc_flags := p_misc_flags p AND h\<rparr>) s)"
proof -
  have h: "has_any ((y AND h) OR g) PM_NEVER \<Longrightarrow> has_any y PM_NEVER" "has_any (y AND h) PM_NEVER \<Longrightarrow> has_any y PM_NEVER" for y
    using g and_and_zero [of y PM_NEVER h] by (auto simp: or_and_dist)
  note q = quiet_def ipcp_def
  show "kinv (upd_proc n (\<lambda>p. p\<lparr>p_virt_left := x, p_misc_flags := (p_misc_flags p AND h) OR g\<rparr>) s)"
    by (rule quiet_kinv [OF k]) (use h(1) in \<open>simp_all add: q\<close>)
  show "kinv (upd_proc n (\<lambda>p. p\<lparr>p_prof_left := x, p_misc_flags := (p_misc_flags p AND h) OR g\<rparr>) s)"
    by (rule quiet_kinv [OF k]) (use h(1) in \<open>simp_all add: q\<close>)
  show "kinv (upd_proc n (\<lambda>p. p\<lparr>p_virt_left := x, p_misc_flags := p_misc_flags p AND h\<rparr>) s)"
    by (rule quiet_kinv [OF k]) (use h(2) in \<open>simp_all add: q\<close>)
  show "kinv (upd_proc n (\<lambda>p. p\<lparr>p_prof_left := x, p_misc_flags := p_misc_flags p AND h\<rparr>) s)"
    by (rule quiet_kinv [OF k]) (use h(2) in \<open>simp_all add: q\<close>)
qed

lemma do_vtimer_keeps: "kinv s \<Longrightarrow> keeps (do_vtimer m s)"
  by (auto simp: do_vtimer_def Let_def kinv_vtimer(1,2) kinv_vtimer(3,4) [where g = 0, simplified] split: option.splits)

text \<open>Setting a timer does not depend on the expiry time the structure held before.\<close>

lemma set_timer_stale: "set_timer tp t w (upd_ktmr tp (\<lambda>tm. tm\<lparr>tmr_exp_time := x\<rparr>) s) = set_timer tp t w s"
proof -
  have u: "upd_tmr tp (\<lambda>tm. tm\<lparr>tmr_exp_time := TMR_NEVER\<rparr>) (upd_tmr tp (\<lambda>tm. tm\<lparr>tmr_exp_time := x\<rparr>) q) =
      upd_tmr tp (\<lambda>tm. tm\<lparr>tmr_exp_time := TMR_NEVER\<rparr>) q" for q :: "(ktimer, watchdog) tmrq"
    by (simp add: upd_tmr_def)
  show ?thesis by (simp add: set_timer_def tmrs_settimer_def tmrs_clrtimer_def upd_ktmr_def u Let_def)
qed

text \<open>The queue does not look at the argument and the function of a timer.\<close>

lemma timer_queue_arg: "timer_queue (upd_tmr tp (\<lambda>t. t\<lparr>tmr_arg := a, tmr_func := f\<rparr>) q) xs = timer_queue q xs"
proof -
  have "tmr_nexts (upd_tmr tp (\<lambda>t. t\<lparr>tmr_arg := a, tmr_func := f\<rparr>) q) = tmr_nexts q"
    "tmr_exp_time (tmr (upd_tmr tp (\<lambda>t. t\<lparr>tmr_arg := a, tmr_func := f\<rparr>) q) x) = tmr_exp_time (tmr q x)" for x
    by (auto simp: fun_eq_iff)
  then show ?thesis by (simp add: timer_queue_def)
qed

lemma do_setalarm_spec:
  assumes k: "kinv s" and t: "timer_queue (clock_timers s) xs" and p: "has_any (s_flags (priv_of s (who_p s))) SYS_PROC"
  defines "tp \<equiv> Alarm (p_priv (procs s (who_p s)))" and "old \<equiv> \<lambda>x. tmr_exp_time (tmr (clock_timers s) x)"
  shows "\<exists>s'. do_setalarm m s = ret 0 (m\<lparr>m_data4 := (if old tp \<noteq> TMR_NEVER \<and> realtime s < old tp then old tp - realtime s else 0)\<rparr>) s' \<and>
    kinv s' \<and> timers_ok s' \<and> timer_view s' = timer_view s \<and>
    (if m_data4 m = 0 then timer_queue (clock_timers s') (remove1 tp xs)
     else timer_queue (clock_timers s')
         (timer_insert old tp (if m_data2 m \<noteq> 0 then m_data4 m else wrap32 (m_data4 m + realtime s)) (remove1 tp xs)) \<and>
       tmr_exp_time (tmr (clock_timers s') tp) = (if m_data2 m \<noteq> 0 then m_data4 m else wrap32 (m_data4 m + realtime s)) \<and>
       tmr_func (tmr (clock_timers s') tp) = WD_cause_alarm \<and> tmr_arg (tmr (clock_timers s') tp) = m_source m)"
proof -
  define s1 where "s1 = upd_ktmr tp (\<lambda>t. t\<lparr>tmr_arg := m_source m, tmr_func := WD_cause_alarm\<rparr>) s"
  have q1: "timer_queue (clock_timers s1) xs" using t by (simp add: s1_def upd_ktmr_def timer_queue_arg)
  have w1: "timer_view s1 = timer_view s" by (simp add: s1_def upd_ktmr_def timer_view_def)
  have e1: "tmr_exp_time (tmr (clock_timers s1) x) = old x" for x by (simp add: s1_def upd_ktmr_def old_def)
  have o1: "realtime s1 = realtime s" "tmr_func (tmr (clock_timers s1) tp) = WD_cause_alarm"
    "tmr_arg (tmr (clock_timers s1) tp) = m_source m" by (simp_all add: s1_def upd_ktmr_def)
  define T where "T = (if m_data2 m \<noteq> 0 then m_data4 m else wrap32 (m_data4 m + realtime s))"
  show ?thesis
  proof (cases "m_data4 m = 0")
    case True
    obtain s' where r: "reset_timer tp s1 = Some s'" and s': "timers_ok s'" "timer_view s' = timer_view s1" "timer_queue (clock_timers s') (remove1 tp xs)"
      using reset_timer_spec [OF q1, of tp] by blast
    have v: "timer_view s' = timer_view s" using s'(2) w1 by simp
    have k': "kinv s'" using k kinv_timer_view [OF v] by (simp add: kinv_alt)
    have run: "do_setalarm m s = ret 0 (m\<lparr>m_data4 := (if old tp \<noteq> TMR_NEVER \<and> realtime s < old tp then old tp - realtime s else 0)\<rparr>) s'"
      using p True r by (simp add: do_setalarm_def Let_def tp_def [symmetric] s1_def [symmetric] e1 get_uptime_def o1)
    show ?thesis by (intro exI [of _ s'] conjI run k' s'(1) v) (use s'(3) True in simp)
  next
    case False
    obtain s' where r: "set_timer tp T WD_cause_alarm s1 = Some s'" and s': "timers_ok s'" "timer_view s' = timer_view s1"
      "timer_queue (clock_timers s') (timer_insert (\<lambda>x. tmr_exp_time (tmr (clock_timers s1) x)) tp T (remove1 tp xs))"
      "tmr_exp_time (tmr (clock_timers s') tp) = T" "tmr_func (tmr (clock_timers s') tp) = WD_cause_alarm"
      and a: "\<forall>x. tmr_arg (tmr (clock_timers s') x) = tmr_arg (tmr (clock_timers s1) x)"
      using set_timer_spec [OF q1, of tp T WD_cause_alarm] by blast
    have v: "timer_view s' = timer_view s" using s'(2) w1 by simp
    have k': "kinv s'" using k kinv_timer_view [OF v] by (simp add: kinv_alt)
    have z: "tmr_exp_time (tmr (clock_timers (upd_ktmr tp (\<lambda>tm. tm\<lparr>tmr_exp_time := y\<rparr>) s1)) tp) = y"
      "tmr_func (tmr (clock_timers (upd_ktmr tp (\<lambda>tm. tm\<lparr>tmr_exp_time := y\<rparr>) s1)) tp) = WD_cause_alarm" for y
      using o1 by (simp_all add: upd_ktmr_def)
    have "set_timer tp T WD_cause_alarm (upd_ktmr tp (\<lambda>tm. tm\<lparr>tmr_exp_time := T\<rparr>) s1) = Some s'"
      unfolding set_timer_stale by (rule r)
    then have run: "do_setalarm m s = ret 0 (m\<lparr>m_data4 := (if old tp \<noteq> TMR_NEVER \<and> realtime s < old tp then old tp - realtime s else 0)\<rparr>) s'"
      using p False by (cases "m_data2 m = 0")
        (simp_all add: do_setalarm_def Let_def tp_def [symmetric] s1_def [symmetric] e1 get_uptime_def o1 z T_def)
    show ?thesis by (intro exI [of _ s'] conjI run k' s'(1) v) (use s'(3-) False a o1(3) in \<open>simp add: e1 T_def\<close>)
  qed
qed

end
