(* ===== verification/Kernel_Exit.thy ===== *)
theory Kernel_Exit
  imports Kernel_Calls_Props
begin

text \<open>
  Leaving and entering the system: \<^verbatim>\<open>do_exit\<close> gives back everything a process has, \<^verbatim>\<open>do_fork\<close> makes
  a new process that is distinguishable from all earlier users of its slot.
\<close>

section \<open>Giving back interrupt hooks\<close>

abbreviation (input) owner :: "kstate \<Rightarrow> int \<Rightarrow> int" where
  "owner s h \<equiv> h_proc_nr_e (irq_hooks s h)"

lemma irq_lines_owner:
  "irq_lines (upd_hook i (\<lambda>h. h\<lparr>h_proc_nr_e := e\<rparr>) s) L = irq_lines s L"
proof -
  let ?s = "upd_hook i (\<lambda>h. h\<lparr>h_proc_nr_e := e\<rparr>) s"
  have "hook_nexts ?s = hook_nexts s" "h_irq (irq_hooks ?s x) = h_irq (irq_hooks s x)"
    "h_id (irq_hooks ?s x) = h_id (irq_hooks s x)" "irq_handlers ?s = irq_handlers s" for x by auto
  then show ?thesis by (simp add: irq_lines_def irq_line_def)
qed

text \<open>The hooks owned by \<open>e\<close> are each on a line.\<close>

definition on_lines :: "kstate \<Rightarrow> (int \<Rightarrow> int list) \<Rightarrow> int \<Rightarrow> bool" where
  "on_lines s L e \<longleftrightarrow> irq_lines s L \<and> (\<forall>h. owner s h = e \<longrightarrow> (\<exists>q. 0 \<le> q \<and> q < NR_IRQ_VECTORS \<and> h \<in> set (L q)))"

lemma release_hooks_spec:
  assumes "on_lines s L (p_endpoint (procs s rc))" and "p_endpoint (procs s rc) \<noteq> ENDPT_NONE"
  shows "\<exists>s' L'. release_hooks rc is s = Some s' \<and> irq_view s' = irq_view s \<and> irq_lines s' L' \<and>
    (\<forall>h. owner s' h = p_endpoint (procs s rc) \<longrightarrow> h \<notin> set is \<and> owner s h = p_endpoint (procs s rc))"
  using assms
proof (induction "is" arbitrary: s L)
  case Nil
  then show ?case by (auto simp: on_lines_def)
next
  case (Cons i "is")
  let ?e = "p_endpoint (procs s rc)"
  have L: "irq_lines s L" using Cons.prems(1) by (simp add: on_lines_def)
  show ?case
  proof (cases "?e = owner s i")
    case False
    then have r: "release_hooks rc (i # is) s = release_hooks rc is s" by simp
    show ?thesis using Cons.IH [OF Cons.prems] False unfolding r by fastforce
  next
    case True
    then obtain q where q: "0 \<le> q" "q < NR_IRQ_VECTORS" "i \<in> set (L q)" using Cons.prems(1) by (metis on_lines_def)
    have lq: "irq_line s q (L q)" using L q by (simp add: irq_lines_def)
    obtain s1 where r1: "rm_irq_handler i s = Some s1" and l1: "irq_lines s1 (L(q := remove1 i (L q)))"
      and v1: "irq_view s1 = irq_view s" and o1: "\<forall>x. owner s1 x = owner s x"
      using rm_irq_handler_spec [OF L q irq_lineD(2) [OF lq q(3)] refl] by blast
    define s2 where "s2 = upd_hook i (\<lambda>h. h\<lparr>h_proc_nr_e := ENDPT_NONE\<rparr>) s1"
    have v2: "irq_view s2 = irq_view s" by (simp add: s2_def v1)
    have p2: "procs s2 = procs s" by (rule irq_view_kinv(3) [OF v2])
    have o2: "owner s2 x = (if x = i then ENDPT_NONE else owner s x)" for x using o1 by (simp add: s2_def)
    have "on_lines s2 (L(q := remove1 i (L q))) (p_endpoint (procs s2 rc))"
      unfolding on_lines_def p2
    proof (intro conjI allI impI)
      show "irq_lines s2 (L(q := remove1 i (L q)))" unfolding s2_def irq_lines_owner by (rule l1)
      fix h assume h: "owner s2 h = ?e"
      then have "h \<noteq> i" "owner s h = ?e" using Cons.prems(2) unfolding o2 by (auto split: if_splits)
      then obtain q' where "0 \<le> q'" "q' < NR_IRQ_VECTORS" "h \<in> set (L q')" using Cons.prems(1) by (metis on_lines_def)
      then show "\<exists>q'. 0 \<le> q' \<and> q' < NR_IRQ_VECTORS \<and> h \<in> set ((L(q := remove1 i (L q))) q')"
        using \<open>h \<noteq> i\<close> by (intro exI [of _ q']) auto
    qed
    from Cons.IH [OF this] Cons.prems(2) obtain s' L' where r': "release_hooks rc is s2 = Some s'" "irq_view s' = irq_view s2"
      "irq_lines s' L'" and h': "\<forall>h. owner s' h = ?e \<longrightarrow> h \<notin> set is \<and> owner s2 h = ?e" unfolding p2 by blast
    have "release_hooks rc (i # is) s = Some s'" using True r1 r'(1) by (simp add: s2_def)
    moreover have "h \<notin> set (i # is) \<and> owner s h = ?e" if "owner s' h = ?e" for h
      using h' that o2 [of h] Cons.prems(2) by (auto split: if_splits)
    ultimately show ?thesis using r' v2 by (intro exI [of _ s'] exI [of _ L']) auto
  qed
qed

section \<open>Freeing a slot\<close>

definition v_free :: "int \<Rightarrow> ipcview \<Rightarrow> ipcview" where
  "v_free rc v = v(rc := (v rc)\<lparr>i_empty := True, i_recv := False, i_send := False, i_dead := False\<rparr>)"

lemma v_free_ok:
  assumes i: "ipc_ok v" and d: "i_dead (v rc)" "\<not> i_send (v rc)" "\<not> i_recv (v rc)"
  shows "ipc_ok (v_free rc v)"
proof -
  let ?w = "v_free rc v"
  have bo: "blocked_ok v" using i by (simp add: ipc_ok_def)
  have f: "i_send (?w n) = i_send (v n)" "i_recv (?w n) = i_recv (v n)" "i_sendto (?w n) = i_sendto (v n)"
    "i_getfrom (?w n) = i_getfrom (v n)" "i_ep (?w n) = i_ep (v n)" "i_callq (?w n) = i_callq (v n)"
    "i_link (?w n) = i_link (v n)" "i_empty (?w n) \<longleftrightarrow> n = rc \<or> i_empty (v n)" "i_dead (?w n) \<longleftrightarrow> n \<noteq> rc \<and> i_dead (v n)" for n
    using d by (auto simp: v_free_def)
  have ep: "ep_ok ?w e" if "ep_ok v e" for e using that d(1) by (auto simp: ep_ok_def Let_def f)
  have "blocked_ok ?w" using bo ep d unfolding blocked_ok_def f by blast
  moreover have w: "waits ?w = waits v" by (simp add: waits_def fun_eq_iff f)
  moreover have "acyc (waits ?w)" using i unfolding w by (simp add: ipc_ok_def)
  moreover have "callers_ok ?w C" if "callers_ok v C" for C
  proof -
    have "senders ?w d = senders v d" "i_links ?w = i_links v" for d by (simp_all add: senders_def f)
    moreover have "reachable_ep ?w d \<Longrightarrow> reachable_ep v d" for d by (auto simp: reachable_ep_def f)
    ultimately show ?thesis using that by (auto simp: callers_ok_def f)
  qed
  ultimately show ?thesis using i by (auto simp: ipc_ok_def)
qed

lemma SETFLAGS_rts:
  assumes "RTS_LOCK_SETFLAGS rp f s = Some s'"
  shows "p_rts_flags (procs s' n) = (if n = rp then f else p_rts_flags (procs s n))"
proof -
  have lk: "procs s2 = procs s1" if "reallock s1 = Some s2 \<or> realunlock s1 = Some s2" for s1 s2
    using that by (auto simp: reallock_def realunlock_def Let_def split: if_splits)
  have dq: "p_rts_flags (procs s2 m) = p_rts_flags (procs s1 m)" if "dequeue rp s1 = Some s2" for s1 s2 m
    by (rule link_viewD(1) [OF dequeue_link_view [OF that]])
  obtain s1 s2 where s1: "(if \<not> intr_off s then reallock s else Some s) = Some s1"
    and s2: "(if proc_is_runnable (procs s1 rp) \<and> f \<noteq> 0 then dequeue rp s1 else Some s1) = Some s2"
    and s': "(if \<not> intr_off s then realunlock (set_rts rp f s2) else Some (set_rts rp f s2)) = Some s'"
    using assms unfolding RTS_LOCK_SETFLAGS_def Let_def Option.bind_eq_Some_conv by blast
  have "procs s1 = procs s" using s1 lk by (auto split: if_splits)
  moreover have "p_rts_flags (procs s2 m) = p_rts_flags (procs s1 m)" for m using s2 dq by (auto split: if_splits)
  moreover have "procs s' = procs (set_rts rp f s2)" using s' lk by (auto split: if_splits)
  ultimately show ?thesis by (simp add: set_rts_def)
qed

text \<open>Freeing the slot of a process that has left communication, and its privilege structure.\<close>

definition free_slot :: "int \<Rightarrow> kstate \<Rightarrow> kstate option" where
  "free_slot rc s = do {
     s4 \<leftarrow> RTS_LOCK_SETFLAGS rc RTS_SLOT_FREE s;
     let s5 = upd_proc rc (\<lambda>p. p\<lparr>p_misc_flags := p_misc_flags p AND NOT MF_FPU_INITIALIZED\<rparr>) s4;
     Some (if has_any (s_flags (priv_of s5 rc)) SYS_PROC
           then upd_priv_of rc (\<lambda>pr. pr\<lparr>s_proc_nr := ENDPT_NONE\<rparr>) s5 else s5)
   }"

lemma free_slot_spec:
  assumes k: "kinv s" and l: "live s rc" and d: "i_dead (ipcv s rc)" "\<not> i_send (ipcv s rc)" "\<not> i_recv (ipcv s rc)"
    and n: "rc \<noteq> PM_PROC_NR" "rc \<noteq> SYSTEM" "rc \<noteq> proc_ptr s"
    and x: "\<And>m. has_any (s_flags (priv_of s rc)) SYS_PROC \<Longrightarrow> live s m \<Longrightarrow> m \<noteq> rc \<Longrightarrow> p_priv (procs s m) \<noteq> p_priv (procs s rc)"
    and p: "\<And>m. live s m \<Longrightarrow> \<not> pend s (p_priv (procs s m)) (s_id (priv_of s rc))"
  shows "\<exists>s'. free_slot rc s = Some s' \<and> kinv s' \<and> ipcv s' = v_free rc (ipcv s) \<and>
    irq_hooks s' = irq_hooks s \<and> irq_handlers s' = irq_handlers s \<and> clock_timers s' = clock_timers s \<and> next_timeout s' = next_timeout s \<and>
    (has_any (s_flags (priv_of s rc)) SYS_PROC \<longrightarrow> s_proc_nr (privs s' (p_priv (procs s rc))) = ENDPT_NONE)"
proof -
  have ks: "ksane s" and v: "valid_nr rc" using kinvD(1) [OF k] l by auto
  have lo: "lock_ok s" and t: "tables_ok s" using ks by (simp_all add: ksane_def)
  have rq: "runq_inv s" using k by (simp add: kinv_def)
  obtain s4 where r4: "RTS_LOCK_SETFLAGS rc RTS_SLOT_FREE s = Some s4" and q4: "runq_inv s4"
    and v4: "sched_view s4 = sched_view (set_rts rc RTS_SLOT_FREE s)"
    using RTS_LOCK_SETFLAGS_inv [OF rq v _ lo, of RTS_SLOT_FREE] by auto
  note f4 = sched_view_fields [OF v4]
  have g4: "p_nr (procs s4 m) = p_nr (procs s m)" "p_priv (procs s4 m) = p_priv (procs s m)"
    "p_misc_flags (procs s4 m) = p_misc_flags (procs s m)" "syscall_0x80 (procs s4 m) = syscall_0x80 (procs s m)"
    "p_caller_q (procs s4 m) = p_caller_q (procs s m)" "p_q_link (procs s4 m) = p_q_link (procs s m)"
    "p_getfrom_e (procs s4 m) = p_getfrom_e (procs s m)" "p_sendto_e (procs s4 m) = p_sendto_e (procs s m)"
    "p_endpoint (procs s4 m) = p_endpoint (procs s m)" "privs s4 = privs s" "proc_ptr s4 = proc_ptr s"
    "intr_off s4 = intr_off s" "locklevel s4 = locklevel s" "umsg s4 = umsg s" for m
    using f4(1) [of m] f4(2) [of m] f4(3) [of m] f4(13) [of m] f4(5) [of m] f4(6) [of m] f4(7) [of m] f4(8) [of m] f4(10) [of m]
      f4(16-20) by (simp_all add: set_rts_def upd_proc_def)
  have fl: "p_rts_flags (procs s4 m) = (if m = rc then RTS_SLOT_FREE else p_rts_flags (procs s m))" for m
    by (rule SETFLAGS_rts [OF r4])
  define s5 where "s5 = upd_proc rc (\<lambda>p. p\<lparr>p_misc_flags := p_misc_flags p AND NOT MF_FPU_INITIALIZED\<rparr>) s4"
  define sys where "sys = has_any (s_flags (priv_of s5 rc)) SYS_PROC"
  define s' where "s' = (if sys then upd_priv_of rc (\<lambda>pr. pr\<lparr>s_proc_nr := ENDPT_NONE\<rparr>) s5 else s5)"
  have run: "free_slot rc s = Some s'" by (simp add: free_slot_def r4 s'_def sys_def s5_def Let_def)
  have e4: "note_view s4 = note_view s" using note_view_sched [OF v4] by simp
  have sys: "sys \<longleftrightarrow> has_any (s_flags (priv_of s rc)) SYS_PROC"
    by (simp add: sys_def s5_def priv_of_def g4 upd_proc_def)
  let ?i = "p_priv (procs s rc)"
  have g': "p_nr (procs s' m) = p_nr (procs s m)" "p_priv (procs s' m) = p_priv (procs s m)"
    "syscall_0x80 (procs s' m) = syscall_0x80 (procs s m)" "proc_ptr s' = proc_ptr s"
    "intr_off s' = intr_off s" "locklevel s' = locklevel s" "umsg s' = umsg s"
    "p_rts_flags (procs s' m) = (if m = rc then RTS_SLOT_FREE else p_rts_flags (procs s m))" for m
    by (auto simp: s'_def s5_def upd_priv_of_def upd_priv_def upd_proc_def g4 fl)
  have pm: "p_misc_flags (procs s' PM_PROC_NR) = p_misc_flags (procs s PM_PROC_NR)"
    using n(1) by (auto simp: s'_def s5_def upd_priv_of_def upd_priv_def upd_proc_def g4)
  have pv: "privs s' j = (if sys \<and> j = ?i then (privs s j)\<lparr>s_proc_nr := ENDPT_NONE\<rparr> else privs s j)" for j
    by (auto simp: s'_def s5_def upd_priv_of_def upd_priv_def upd_proc_def g4)
  have lv: "live s' m \<longleftrightarrow> live s m \<and> m \<noteq> rc" for m by (auto simp: g')
  have id: "0 \<le> ?i" "?i < NR_SYS_PROCS" "s_id (privs s ?i) = ?i" using t l by (auto simp: tables_ok_def)
  have po: "priv_of s' m = priv_of s m" if "live s' m" for m
  proof -
    have "live s m" "m \<noteq> rc" using that lv by blast+
    then have "\<not> (sys \<and> p_priv (procs s m) = ?i)" using x [of m] sys by blast
    then show ?thesis unfolding priv_of_def g'(2) pv by auto
  qed
  have "tables_ok s'"
    unfolding tables_ok_def
  proof (intro conjI allI impI)
    fix m assume m: "live s' m"
    then have ls: "live s m" using lv by blast
    note tm = t [unfolded tables_ok_def, THEN conjunct2, THEN conjunct1, rule_format, OF ls]
    show "0 \<le> p_priv (procs s' m)" "p_priv (procs s' m) < NR_SYS_PROCS" "valid_nr (s_proc_nr (priv_of s' m))"
      "\<not> get_sys_bit (s_ipc_to (priv_of s' m)) (s_id (priv_of s' m))" unfolding po [OF m] g' using tm by auto
    fix j assume j: "0 \<le> j \<and> j < NR_SYS_PROCS" "get_sys_bit (s_notify_pending (priv_of s' m)) j"
    then have vj: "valid_nr (s_proc_nr (privs s j))" unfolding po [OF m] using tm by blast
    have "j \<noteq> ?i" using p [OF ls] j(2) id(3) unfolding po [OF m] by (auto simp: pend_def priv_of_def)
    then show "valid_nr (s_proc_nr (privs s' j))" using vj by (simp add: pv)
  next
    fix m assume "valid_nr m" then show "p_nr (procs s' m) = m" unfolding g' using t by (simp add: tables_ok_def)
  next
    fix j :: int assume "0 \<le> j \<and> j < NR_SYS_PROCS"
    then have "s_id (privs s j) = j" "s_proc_nr (privs s j) = ENDPT_NONE \<or> valid_nr (s_proc_nr (privs s j))"
      using t by (auto simp: tables_ok_def)
    then show "s_id (privs s' j) = j" "s_proc_nr (privs s' j) = ENDPT_NONE \<or> valid_nr (s_proc_nr (privs s' j))"
      by (auto simp: pv)
  qed
  moreover have "free_ok s'" using ks unfolding free_ok_def ksane_def g' by auto
  moreover have "pm_ok s'" using ks n(1,2) unfolding pm_ok_def ksane_def lv pm by auto
  moreover have "live s' (proc_ptr s')" using ks n(3) unfolding lv g' ksane_def by auto
  moreover have "lock_ok s'" using ks unfolding ksane_def lock_ok_def g' by blast
  ultimately have "ksane s'" by (simp add: ksane_def)
  moreover have "runq_inv s'"
  proof -
    have "runq_inv s' = runq_inv s4"
      by (rule runq_inv_cong) (auto simp: s'_def s5_def upd_priv_of_def upd_priv_def upd_proc_def)
    then show ?thesis using q4 by simp
  qed
  moreover have vw: "ipcv s' = v_free rc (ipcv s)"
  proof -
    have "ipcv s' = ipcv s4" by (simp add: s'_def s5_def)
    also have "\<dots> = v_free rc (ipcv s)" by (auto simp: ipcv_def ipcp_def v_free_def fun_eq_iff g4 fl)
    finally show ?thesis .
  qed
  ultimately have "kinv s'" using v_free_ok [OF kinvD(3) [OF k] d] by (simp add: kinv_def)
  moreover have "irq_hooks s' = irq_hooks s" "irq_handlers s' = irq_handlers s" "clock_timers s' = clock_timers s"
    "next_timeout s' = next_timeout s"
    using note_view_state [OF e4] by (auto simp: s'_def s5_def upd_priv_of_def upd_priv_def upd_proc_def)
  moreover have "sys \<longrightarrow> s_proc_nr (privs s' ?i) = ENDPT_NONE" by (simp add: pv)
  ultimately show ?thesis using run vw sys by blast
qed

section \<open>Exit\<close>

lemma clear_proc_free_slot:
  "\<not> isemptyp (procs s rc) \<Longrightarrow> clear_proc rc s =
    do { s1 \<leftarrow> release_hooks rc [0..NR_IRQ_HOOKS - 1] s; s2 \<leftarrow> clear_endpoint rc s1;
         s3 \<leftarrow> reset_timer (Alarm (p_priv (procs s2 rc))) s2; free_slot rc s3 }"
  by (simp only: clear_proc_def free_slot_def if_False)

text \<open>What may exit: a live process other than the servers the kernel itself depends on and the
  caller, whose privilege structure, if it is a system process, belongs to no other process.\<close>

definition may_exit :: "kstate \<Rightarrow> int \<Rightarrow> bool" where
  "may_exit s rc \<longleftrightarrow> live s rc \<and> rc \<noteq> PM_PROC_NR \<and> rc \<noteq> SYSTEM \<and> rc \<noteq> proc_ptr s \<and>
     p_endpoint (procs s rc) \<notin> {PM_PROC_NR, VFS_PROC_NR, VM_PROC_NR, ENDPT_NONE} \<and>
     (has_any (s_flags (priv_of s rc)) SYS_PROC \<longrightarrow>
       (\<forall>n. live s n \<and> n \<noteq> rc \<longrightarrow> p_priv (procs s n) \<noteq> p_priv (procs s rc)))"

lemma clear_proc_spec:
  assumes k: "kinv s" and x: "may_exit s rc" and L: "on_lines s L (p_endpoint (procs s rc))"
    and t: "timer_queue (clock_timers s) xs"
  shows "\<exists>s' L'. clear_proc rc s = Some s' \<and> kinv s' \<and> timers_ok s' \<and> irq_lines s' L' \<and> i_empty (ipcv s' rc) \<and>
    (\<forall>h. owner s' h = p_endpoint (procs s rc) \<longrightarrow> h \<notin> {0..<NR_IRQ_HOOKS}) \<and>
    timer_queue (clock_timers s') (remove1 (Alarm (p_priv (procs s rc))) xs) \<and>
    (has_any (s_flags (priv_of s rc)) SYS_PROC \<longrightarrow> s_proc_nr (privs s' (p_priv (procs s rc))) = ENDPT_NONE) \<and>
    (\<forall>n. valid_nr n \<and> n \<noteq> rc \<longrightarrow> i_empty (ipcv s' n) = i_empty (ipcv s n) \<and> i_ep (ipcv s' n) = i_ep (ipcv s n) \<and>
      (i_send (ipcv s' n) \<longleftrightarrow> i_send (ipcv s n) \<and> i_sendto (ipcv s n) \<noteq> i_ep (ipcv s rc)) \<and>
      (i_recv (ipcv s' n) \<longleftrightarrow> i_recv (ipcv s n) \<and> i_getfrom (ipcv s n) \<noteq> i_ep (ipcv s rc)))"
proof -
  let ?e = "p_endpoint (procs s rc)" and ?a = "Alarm (p_priv (procs s rc))"
  have l: "live s rc" and n: "rc \<noteq> PM_PROC_NR" "rc \<noteq> SYSTEM" "rc \<noteq> proc_ptr s"
    and e: "?e \<notin> {PM_PROC_NR, VFS_PROC_NR, VM_PROC_NR}" "?e \<noteq> ENDPT_NONE"
    and ex: "\<And>m. has_any (s_flags (priv_of s rc)) SYS_PROC \<Longrightarrow> live s m \<Longrightarrow> m \<noteq> rc \<Longrightarrow> p_priv (procs s m) \<noteq> p_priv (procs s rc)"
    using x unfolding may_exit_def by auto
  have ne: "\<not> isemptyp (procs s rc)"
    using isemptyp_view [OF kinvD(1) [OF k], of rc] l unfolding live_view by blast
  obtain s1 L1 where r1: "release_hooks rc [0..NR_IRQ_HOOKS - 1] s = Some s1" and v1: "irq_view s1 = irq_view s"
    and L1: "irq_lines s1 L1" and o1: "\<forall>h. owner s1 h = ?e \<longrightarrow> h \<notin> set [0..NR_IRQ_HOOKS - 1]"
    using release_hooks_spec [OF L e(2), of "[0..NR_IRQ_HOOKS - 1]"] by blast
  note f1 = irq_view_kinv [OF v1]
  have k1: "kinv s1" and l1: "live s1 rc" using k l unfolding f1 by blast+
  obtain s2 where r2: "clear_endpoint rc s1 = Some s2" and k2: "kinv s2"
    and d2: "i_dead (ipcv s2 rc)" "\<not> i_send (ipcv s2 rc)" "\<not> i_recv (ipcv s2 rc)"
    and i2: "\<forall>m. i_empty (ipcv s2 m) = i_empty (ipcv s m) \<and> i_ep (ipcv s2 m) = i_ep (ipcv s m)"
    and w2: "\<forall>m. valid_nr m \<and> m \<noteq> rc \<longrightarrow>
      (i_send (ipcv s2 m) \<longleftrightarrow> i_send (ipcv s m) \<and> i_sendto (ipcv s m) \<noteq> i_ep (ipcv s rc)) \<and>
      (i_recv (ipcv s2 m) \<longleftrightarrow> i_recv (ipcv s m) \<and> i_getfrom (ipcv s m) \<noteq> i_ep (ipcv s rc))"
    and c2: "ce_view s2 = ce_view s1" and p2: "\<forall>m. live s m \<longrightarrow> \<not> pend s2 (p_priv (procs s m)) (s_id (priv_of s rc))"
    using clear_endpoint_spec [OF k1 l1] e(1) unfolding f1 priv_of_def by blast
  note f2 = ce_view_fields [OF c2, unfolded f1]
  have t2: "timer_queue (clock_timers s2) xs" using t unfolding f2 .
  obtain s3 where r3: "reset_timer ?a s2 = Some s3" and t3: "timers_ok s3" and v3: "timer_view s3 = timer_view s2"
    and q3: "timer_queue (clock_timers s3) (remove1 ?a xs)"
    using reset_timer_spec [OF t2, of ?a] by blast
  have g3: "procs s3 = procs s2" "privs s3 = privs s2" "proc_ptr s3 = proc_ptr s2" "irq_hooks s3 = irq_hooks s2" "irq_handlers s3 = irq_handlers s2"
    using arg_cong [OF v3, of procs] arg_cong [OF v3, of privs] arg_cong [OF v3, of proc_ptr] arg_cong [OF v3, of irq_hooks]
      arg_cong [OF v3, of irq_handlers] by (simp_all add: timer_view_def)
  have i3: "ipcv s3 = ipcv s2" by (rule kinv_timer_view(2) [OF v3])
  have k3: "kinv s3" using k2 kinv_timer_view [OF v3] by (simp add: kinv_alt)
  have l3: "live s3 m \<longleftrightarrow> live s m" for m unfolding live_view i3 using i2 by blast
  have pr3: "s_flags (priv_of s3 m) = s_flags (priv_of s m)" "s_id (priv_of s3 m) = s_id (priv_of s m)"
    "p_priv (procs s3 m) = p_priv (procs s m)" "proc_ptr s3 = proc_ptr s" for m
    by (simp_all add: priv_of_def g3 f2)
  have "\<exists>s'. free_slot rc s3 = Some s' \<and> kinv s' \<and> ipcv s' = v_free rc (ipcv s3) \<and>
    irq_hooks s' = irq_hooks s3 \<and> irq_handlers s' = irq_handlers s3 \<and> clock_timers s' = clock_timers s3 \<and> next_timeout s' = next_timeout s3 \<and>
    (has_any (s_flags (priv_of s3 rc)) SYS_PROC \<longrightarrow> s_proc_nr (privs s' (p_priv (procs s3 rc))) = ENDPT_NONE)"
  proof (rule free_slot_spec [OF k3])
    show "live s3 rc" using l l3 by blast
    show "i_dead (ipcv s3 rc)" "\<not> i_send (ipcv s3 rc)" "\<not> i_recv (ipcv s3 rc)" using d2 unfolding i3 by blast+
    show "rc \<noteq> PM_PROC_NR" "rc \<noteq> SYSTEM" "rc \<noteq> proc_ptr s3" using n unfolding pr3 by blast+
    show "p_priv (procs s3 m) \<noteq> p_priv (procs s3 rc)"
      if "has_any (s_flags (priv_of s3 rc)) SYS_PROC" "live s3 m" "m \<noteq> rc" for m
      unfolding pr3(3) by (rule ex [OF that(1) [unfolded pr3(1)] iffD1 [OF l3 that(2)] that(3)])
    show "\<not> pend s3 (p_priv (procs s3 m)) (s_id (priv_of s3 rc))" if "live s3 m" for m
      using p2 [rule_format, OF iffD1 [OF l3 that]] by (simp add: pr3 pend_def g3(2))
  qed
  then obtain s' where r: "free_slot rc s3 = Some s'" and k': "kinv s'" and i': "ipcv s' = v_free rc (ipcv s3)"
    and f': "irq_hooks s' = irq_hooks s3" "irq_handlers s' = irq_handlers s3" "clock_timers s' = clock_timers s3" "next_timeout s' = next_timeout s3"
    and sy: "has_any (s_flags (priv_of s rc)) SYS_PROC \<longrightarrow> s_proc_nr (privs s' (p_priv (procs s rc))) = ENDPT_NONE"
    unfolding pr3 by blast
  have irq: "irq_hooks s' = irq_hooks s1" "irq_handlers s' = irq_handlers s1" using ce_view_fields(7,8) [OF c2] by (simp_all add: f' g3)
  show ?thesis
  proof (intro exI [of _ s'] exI [of _ L1] conjI allI impI)
    show "clear_proc rc s = Some s'"
      unfolding clear_proc_free_slot [OF ne] r1 using r3 r by (simp add: r2 f2)
    show "kinv s'" by (rule k')
    show "timers_ok s'" using t3 unfolding timers_ok_def f' .
    show "irq_lines s' L1" using L1 unfolding irq_lines_def irq_line_def irq .
    show "i_empty (ipcv s' rc)" by (simp add: i' v_free_def)
    show "timer_queue (clock_timers s') (remove1 ?a xs)" using q3 by (simp add: f')
    show "h \<notin> {0..<NR_IRQ_HOOKS}" if "owner s' h = ?e" for h using o1 that by (fastforce simp: irq)
    show "s_proc_nr (privs s' (p_priv (procs s rc))) = ENDPT_NONE" if "has_any (s_flags (priv_of s rc)) SYS_PROC"
      using sy that by blast
    fix m assume "valid_nr m \<and> m \<noteq> rc"
    then show "i_empty (ipcv s' m) = i_empty (ipcv s m)" "i_ep (ipcv s' m) = i_ep (ipcv s m)"
      "i_send (ipcv s' m) \<longleftrightarrow> i_send (ipcv s m) \<and> i_sendto (ipcv s m) \<noteq> i_ep (ipcv s rc)"
      "i_recv (ipcv s' m) \<longleftrightarrow> i_recv (ipcv s m) \<and> i_getfrom (ipcv s m) \<noteq> i_ep (ipcv s rc)"
      using i2 w2 by (auto simp: i' v_free_def i3)
  qed
qed

text \<open>
  C4. Exit gives back everything. When the process manager asks for the exit of a process, the call
  returns with the kernel invariant kept, the slot is free and the endpoint is no longer valid, no
  interrupt hook is owned by the endpoint any more and the remaining hooks are still properly
  chained, the alarm of the process is off the timer queue, a private privilege structure is free
  for others, and every process that was blocked on the endpoint, and no other, has been released.
\<close>

theorem exit_frees:
  assumes "kinv s" and "who_p s = PM_PROC_NR" and "e \<noteq> ENDPT_SELF" and "isokendpt s e = Some rc" and "may_exit s rc"
    and "on_lines s L e" and "timer_queue (clock_timers s) xs" and "m_data1 m = e"
  shows "\<exists>s' L'. do_exit m s = Some (0, m, s') \<and> kinv s' \<and> timers_ok s' \<and> isokendpt s' e = None \<and>
    irq_lines s' L' \<and> (\<forall>h. 0 \<le> h \<and> h < NR_IRQ_HOOKS \<longrightarrow> owner s' h \<noteq> e) \<and>
    timer_queue (clock_timers s') (remove1 (Alarm (p_priv (procs s rc))) xs) \<and>
    (has_any (s_flags (priv_of s rc)) SYS_PROC \<longrightarrow> s_proc_nr (privs s' (p_priv (procs s rc))) = ENDPT_NONE) \<and>
    (\<forall>n. valid_nr n \<and> n \<noteq> rc \<longrightarrow> i_empty (ipcv s' n) = i_empty (ipcv s n) \<and>
      (i_send (ipcv s' n) \<longleftrightarrow> i_send (ipcv s n) \<and> i_sendto (ipcv s n) \<noteq> e) \<and>
      (i_recv (ipcv s' n) \<longleftrightarrow> i_recv (ipcv s n) \<and> i_getfrom (ipcv s n) \<noteq> e))"
proof -
  note d = isokendptD [OF kinvD(1) [OF assms(1)] assms(4)]
  have e: "p_endpoint (procs s rc) = e" using d(3) by (simp add: ipcv_sel)
  obtain s' L' where r: "clear_proc rc s = Some s'" and k': "kinv s'" and x: "timers_ok s'" "irq_lines s' L'" "i_empty (ipcv s' rc)"
    "\<forall>h. owner s' h = e \<longrightarrow> h \<notin> {0..<NR_IRQ_HOOKS}"
    "timer_queue (clock_timers s') (remove1 (Alarm (p_priv (procs s rc))) xs)"
    "has_any (s_flags (priv_of s rc)) SYS_PROC \<longrightarrow> s_proc_nr (privs s' (p_priv (procs s rc))) = ENDPT_NONE"
    "\<forall>n. valid_nr n \<and> n \<noteq> rc \<longrightarrow> i_empty (ipcv s' n) = i_empty (ipcv s n) \<and> i_ep (ipcv s' n) = i_ep (ipcv s n) \<and>
      (i_send (ipcv s' n) \<longleftrightarrow> i_send (ipcv s n) \<and> i_sendto (ipcv s n) \<noteq> e) \<and>
      (i_recv (ipcv s' n) \<longleftrightarrow> i_recv (ipcv s n) \<and> i_getfrom (ipcv s n) \<noteq> e)"
    using clear_proc_spec [OF assms(1,5) _ assms(7), of L] assms(6) unfolding e d(3) by blast
  have "do_exit m s = Some (0, m, s')" using assms(2,3,4,8) r by (simp add: do_exit_def)
  moreover have "isokendpt s' e = None"
    using isokendpt_view [OF kinvD(1) [OF k'], of e] x(3) d(1) by simp
  moreover have "\<forall>h. 0 \<le> h \<and> h < NR_IRQ_HOOKS \<longrightarrow> owner s' h \<noteq> e" using x(4) atLeastLessThan_iff by blast
  ultimately show ?thesis using k' x by (intro exI [of _ s'] exI [of _ L']) blast
qed

theorem exit_frees_witness:
  "may_exit sample_irq 11 \<and> (\<exists>s'. do_exit (msg0\<lparr>m_data1 := 11\<rparr>) sample_irq = Some (0, msg0\<lparr>m_data1 := 11\<rparr>, s') \<and>
     kinv s' \<and> isokendpt s' 11 = None)"
proof -
  have x: "may_exit sample_irq 11"
    unfolding may_exit_def by (simp add: sample_irq_sel sample_irq_def sample_def sample_proc_def sample_priv_def valid_nr_def priv_of_def)
  have "ipcv sample_irq = ipcv sample" by (simp add: sample_irq_def)
  then have ok: "isokendpt sample_irq 11 = Some 11"
    using isokendpt_view [OF kinvD(1) [OF sample_irq_kinv], of 11] by (simp add: sample_ipcv ENDPOINT_P_small valid_nr_def)
  have l: "on_lines sample_irq sample_lines 11"
    using sample_irq_lines by (auto simp: on_lines_def sample_irq_sel sample_hook_def)
  have t: "timer_queue (clock_timers sample_irq) []" by (simp add: timer_queue_def sample_irq_def sample_def)
  show ?thesis using x exit_frees [OF sample_irq_kinv _ _ ok x l t, of "msg0\<lparr>m_data1 := 11\<rparr>"] by (auto simp: sample_irq_sel)
qed

end
