(* ===== verification/Kernel_Fork.thy ===== *)
theory Kernel_Fork
  imports Kernel_Exit
begin

text \<open>
  \<^verbatim>\<open>do_fork\<close> makes a process that waits where its parent waits, under an endpoint that differs
  from the one the slot had before.
\<close>

section \<open>A new process that waits where an old one waits\<close>

lemma waits_live:
  assumes "blocked_ok v" and "valid_nr n" and "waits v n = Some m"
  shows "valid_nr m \<and> \<not> i_empty (v m)"
  using assms blocked_okD [OF assms(1,2)]
  by (auto simp: waits_def ep_ok_def Let_def split: if_splits)

lemma path_live:
  assumes "blocked_ok v" and "valid_nr n" and "chain (waits v) (waits v n) xs"
  shows "\<forall>x \<in> set xs. \<not> i_empty (v x)"
  using assms(2,3)
proof (induction xs arbitrary: n)
  case (Cons x xs)
  then have "waits v n = Some x" and c: "chain (waits v) (waits v x) xs" by auto
  with waits_live [OF assms(1) Cons.prems(1)] Cons.IH [of x] show ?case by auto
qed simp

lemma v_fork_ok:
  assumes i: "ipc_ok v" and p: "valid_nr p" "i_recv (v p)" "\<not> i_send (v p)" "i_callq (v p) = None"
    and c: "valid_nr c" "i_empty (v c)" "ENDPOINT_P e = c"
  shows "ipc_ok (v(c := (v p)\<lparr>i_ep := e\<rparr>))"
proof -
  let ?w = "v(c := (v p)\<lparr>i_ep := e\<rparr>)"
  have bo: "blocked_ok v" using i by (simp add: ipc_ok_def)
  note b = blocked_okD [OF bo]
  have ns: "\<not> i_send (v c)" "\<not> i_recv (v c)" using b(1,3) [OF c(1)] c(2) by blast+
  have ep: "ep_ok ?w x" if "ep_ok v x" for x using that c(2) by (auto simp: ep_ok_def Let_def)
  have "blocked_ok ?w"
    unfolding blocked_ok_def
  proof (intro allI impI)
    fix n assume n: "valid_nr n"
    show "(i_send (?w n) \<longrightarrow> \<not> i_empty (?w n) \<and> ep_ok ?w (i_sendto (?w n))) \<and>
     (i_recv (?w n) \<longrightarrow> \<not> i_empty (?w n) \<and> (i_getfrom (?w n) = ENDPT_ANY \<or> ep_ok ?w (i_getfrom (?w n)))) \<and>
     (i_send (?w n) \<longrightarrow> i_recv (?w n) \<longrightarrow> i_getfrom (?w n) = i_sendto (?w n)) \<and>
     (\<not> i_empty (?w n) \<longrightarrow> ENDPOINT_P (i_ep (?w n)) = n)"
      using b [OF n] b [OF p(1)] p c ep by (cases "n = c") auto
  qed
  moreover have "acyc (waits ?w)"
  proof -
    have w: "waits ?w = (waits v)(c := waits v p)" by (auto simp: waits_def fun_eq_iff)
    obtain xs where "chain (waits v) (Some p) xs" using i p(1) by (auto simp: ipc_ok_def acyc_def)
    then obtain zs where z: "chain (waits v) (waits v p) zs" by (auto simp: chain_Some)
    have "c \<notin> set zs" using path_live [OF bo p(1) z] c(2) by blast
    then show ?thesis using acyc_upd [OF _ z] i by (simp add: w ipc_ok_def)
  qed
  moreover have "callers_ok ?w (C(c := []))" if C: "callers_ok v C" for C
    unfolding callers_ok_def
  proof (intro allI impI)
    fix d assume d: "reachable_ep ?w d"
    have sd: "senders ?w x = senders v x" for x using ns p by (auto simp: senders_def)
    have lk: "i_links ?w y = i_links v y" if "y \<noteq> c" for y using that by simp
    show "chain (i_links ?w) (i_callq (?w d)) ((C(c := [])) d) \<and> set ((C(c := [])) d) = senders ?w d"
    proof (cases "d = c")
      case True
      have "senders v c = {}" using b(2) c(2) by (auto simp: senders_def ep_ok_def Let_def)
      then show ?thesis using True p(4) sd [of c] by simp
    next
      case False
      then have "reachable_ep v d" using d by (simp add: reachable_ep_def)
      from callers_okD [OF C this] have "chain (i_links v) (i_callq (v d)) (C d)" "set (C d) = senders v d" by auto
      moreover from this(2) have "c \<notin> set (C d)" using ns by (auto simp: senders_def)
      then have "chain (i_links ?w) (i_callq (v d)) (C d) = chain (i_links v) (i_callq (v d)) (C d)"
        by (intro chain_cong lk) auto
      ultimately show ?thesis using False sd [of d] by simp
    qed
  qed
  ultimately show ?thesis using i by (auto simp: ipc_ok_def)
qed

lemma new_entry_kinv:
  assumes k: "kinv s" and l: "live s p" and c: "valid_nr c" "i_empty (ipcv s c)"
    and r: "i_recv (ipcv s p)" "\<not> i_send (ipcv s p)" "i_callq (ipcv s p) = None"
    and x: "p_nr x = c" "ENDPOINT_P (p_endpoint x) = c" "ipcp x = (ipcv s p)\<lparr>i_ep := p_endpoint x\<rparr>"
      "p_priority x = p_priority (procs s p)" "p_max_priority x = p_max_priority (procs s p)"
      "syscall_0x80 x = syscall_0x80 (procs s p)"
    and pr: "\<exists>n. live s n \<and> p_priv x = p_priv (procs s n)"
  shows "kinv (upd_proc c (\<lambda>_. x) s)"
proof -
  let ?s = "upd_proc c (\<lambda>_. x) s"
  have ks: "ksane s" and rq: "runq_inv s" using k by (simp_all add: kinv_def)
  have v: "valid_nr p" and ne: "\<not> i_empty (ipcv s p)" using l unfolding live_view by blast+
  have ps: "procs ?s = (procs s)(c := x)" by (simp add: upd_proc_def)
  have g: "rdy_head ?s = rdy_head s" "rdy_tail ?s = rdy_tail s" "proc_ptr ?s = proc_ptr s" "privs ?s = privs s"
    "intr_off ?s = intr_off s" "locklevel ?s = locklevel s" "umsg ?s = umsg s"
    by (simp_all add: upd_proc_def)
  have iv: "ipcv ?s = (ipcv s)(c := (ipcv s p)\<lparr>i_ep := p_endpoint x\<rparr>)"
    unfolding x(3) [symmetric] by (auto simp: ipcv_def ps)
  have fx: "\<not> has_any (p_rts_flags x) RTS_SLOT_FREE" "has_any (p_rts_flags x) RTS_RECEIVING"
    using arg_cong [OF x(3), of i_empty] arg_cong [OF x(3), of i_recv] ne r(1) by (simp_all add: ipcp_def)
  have fc: "p_rts_flags (procs s c) = RTS_SLOT_FREE"
    using ks c by (auto simp: ksane_def free_ok_def ipcv_def ipcp_def)
  have cl: "\<not> live s c" unfolding live_view using c(2) by blast
  have lv: "live ?s n \<longleftrightarrow> n = c \<or> live s n" for n using c(1) fx(1) by (auto simp: ps)
  have "runq_inv ?s"
  proof -
    have nr: "c \<notin> runnables s" using fc by (simp add: runnables_def proc_is_runnable_def)
    have "\<not> proc_is_runnable x" using fx(2) by (auto simp: proc_is_runnable_def)
    then have rn: "runnables ?s = runnables s" using nr by (auto simp: runnables_def ps)
    obtain Q where Q: "queues s (runnables s) Q" using rq by (auto simp: runq_inv_def)
    have "queues ?s (runnables ?s) Q"
      unfolding queues_def rn
    proof (intro allI impI conjI)
      fix q assume q: "valid_q q"
      note d = queuesD [OF Q q]
      have "c \<notin> set (Q q)" using d(3) nr by auto
      then have "chain (nextreadys ?s) (rdy_head s q) (Q q) = chain (nextreadys s) (rdy_head s q) (Q q)"
        by (intro chain_cong) (auto simp: ps)
      then show "chain (nextreadys ?s) (rdy_head ?s q) (Q q)" using d(1) by (simp add: g)
      show "rdy_tail ?s q = Some (last (Q q))" if "Q q \<noteq> []" using d(2) that by (simp add: g)
      show "set (Q q) = {n \<in> runnables s. p_priority (procs ?s n) = q}" using d(3) nr by (auto simp: ps)
    qed
    moreover have "prio_ok ?s" using rq v by (auto simp: runq_inv_def prio_ok_def ps x(4,5))
    ultimately show ?thesis using rq by (auto simp: runq_inv_def g)
  qed
  moreover have "tables_ok ?s"
  proof -
    have t: "tables_ok s" using ks by (simp add: ksane_def)
    obtain n where n: "live s n" "p_priv x = p_priv (procs s n)" using pr by blast
    have po: "priv_of ?s m = priv_of s (if m = c then n else m)" for m by (simp add: priv_of_def ps g n(2))
    have lm: "live s (if m = c then n else m)" if "live ?s m" for m using that n(1) cl unfolding lv by (cases "m = c") simp_all
    have pp: "p_priv (procs ?s m) = p_priv (procs s (if m = c then n else m))" for m by (simp add: ps n(2))
    have "p_nr (procs ?s m) = m" if "valid_nr m" for m using t that x(1) by (auto simp: tables_ok_def ps)
    then show ?thesis using t lm unfolding tables_ok_def po pp g by meson
  qed
  moreover have "free_ok ?s" using ks fx(1) by (auto simp: ksane_def free_ok_def ps)
  moreover have "pm_ok ?s"
  proof -
    have "pm_ok s" using ks by (simp add: ksane_def)
    then have "PM_PROC_NR \<noteq> c" "live s PM_PROC_NR" "live s SYSTEM" "\<not> has_any (p_misc_flags (procs s PM_PROC_NR)) PM_NEVER"
      using cl unfolding pm_ok_def by blast+
    then show ?thesis unfolding pm_ok_def lv by (simp add: ps)
  qed
  moreover have "live ?s (proc_ptr ?s)" using ks unfolding lv g ksane_def by blast
  moreover have "lock_ok ?s" using ks by (simp add: ksane_def lock_ok_def g)
  moreover have "ipc_ok (ipcv ?s)"
    unfolding iv by (rule v_fork_ok [OF kinvD(3) [OF k] v r c x(2)])
  ultimately show ?thesis by (simp add: kinv_def ksane_def)
qed

section \<open>What fork computes\<close>

lemma RTS_quiet:
  assumes "lock_ok s" and "p_rts_flags (procs s n) \<noteq> 0"
  shows "RTS_LOCK_SET n f s = Some (set_rts n (p_rts_flags (procs s n) OR f) s)"
    "p_rts_flags (procs s n) AND NOT f \<noteq> 0 \<Longrightarrow> RTS_LOCK_UNSET n f s = Some (set_rts n (p_rts_flags (procs s n) AND NOT f) s)"
  using assms(2) unfolding RTS_LOCK_SET_eq [OF assms(1)] RTS_LOCK_UNSET_eq [OF assms(1)]
  by (simp_all add: RTS_SET_def RTS_UNSET_def proc_is_runnable_def set_rts_def Let_def)

text \<open>The state in which the parent \<open>p\<close> has entry \<open>y\<close> and the child \<open>c\<close> has entry \<open>x\<close>.\<close>

definition forked :: "int \<Rightarrow> proc \<Rightarrow> int \<Rightarrow> proc \<Rightarrow> kstate \<Rightarrow> kstate" where
  "forked p y c x s = upd_proc c (\<lambda>_. x) (upd_proc p (\<lambda>_. y) s)"

lemma forked_upd:
  assumes "p \<noteq> c"
  shows "upd_proc c f (forked p y c x s) = forked p y c (f x) s" "procs (forked p y c x s) c = x"
    "procs (forked p y c x s) p = y" "set_rts c fl (forked p y c x s) = forked p y c (x\<lparr>p_rts_flags := fl\<rparr>) s"
    "lock_ok (forked p y c x s) = lock_ok s" "who_e (forked p y c x s) = who_e s"
  using assms by (simp_all add: forked_def upd_proc_def set_rts_def lock_ok_def)

abbreviation (input) FORK_CLEARS :: "16 word" where "FORK_CLEARS \<equiv> RTS_SIGNALED OR RTS_SIG_PENDING OR RTS_P_STOP"

lemma recv_not_clears: "has_any w RTS_RECEIVING \<Longrightarrow> w AND NOT FORK_CLEARS \<noteq> 0" for w :: "16 word"
proof
  assume h: "has_any w RTS_RECEIVING" and z: "w AND NOT FORK_CLEARS = 0"
  have "w AND RTS_RECEIVING = (w AND NOT FORK_CLEARS) AND RTS_RECEIVING"
    by (subst and_not_disjoint) simp_all
  then show False using h z by (metis and_zero_eq and.commute)
qed

lemma do_fork_run:
  assumes ok: "isokendpt s (m_data1 m) = Some p" and c: "valid_nr c" "m_data2 m = c" "p \<noteq> c"
    and e: "\<not> isemptyp (procs s p)" "isemptyp (procs s c)" and r: "RTS_ISSET (procs s p) RTS_RECEIVING"
    and a: "\<not> s_asynsize (priv_of s p) > 0" and lo: "lock_ok s"
  defines "ep \<equiv> ENDPOINT (fork_generation (ENDPOINT_G (p_endpoint (procs s c)))) c"
    and "sys \<equiv> has_any (s_flags (priv_of s p)) SYS_PROC"
  defines "y \<equiv> (procs s p)\<lparr>p_ticks_left := wrap8 (c_div (p_ticks_left (procs s p)) 2)\<rparr>"
    and "x \<equiv> fork_child (procs s p) c ep sys"
  shows "\<exists>rc mm lin fl. do_fork um m s = Some (rc, m\<lparr>m_data1 := ep, m_data4 := p_delivermsg_vir (procs s p)\<rparr>,
      forked p y c (x\<lparr>p_memmap := mm, p_delivermsg_lin := lin, p_rts_flags := fl, p_pending := 0\<rparr>) s) \<and>
    (fl = p_rts_flags x AND NOT FORK_CLEARS \<or> fl = (p_rts_flags x OR RTS_VMINHIBIT) AND NOT FORK_CLEARS)"
proof -
  have pa: "proc_addr (m_data2 m) = Some c" using c(1,2) by (simp add: proc_addr_def)
  have s2: "upd_proc p (\<lambda>p. p\<lparr>p_ticks_left := wrap8 (c_div (p_ticks_left p) 2)\<rparr>) (upd_proc c (\<lambda>_. x) s) = forked p y c x s"
    using c(3) by (simp add: forked_def y_def upd_proc_def fun_upd_twist)
  note u = forked_upd [OF c(3)]
  obtain rc mm where nm: "newmap um c (m_data4 m) (forked p y c x s) = (rc, forked p y c (x\<lparr>p_memmap := mm\<rparr>) s)"
  proof (cases "um_map um (who_e s) (m_data4 m)")
    case (Inl z)
    then have "newmap um c (m_data4 m) (forked p y c x s) = (z, forked p y c (x\<lparr>p_memmap := p_memmap x\<rparr>) s)"
      by (simp add: newmap_def u)
    then show ?thesis by (rule that)
  qed (auto simp: newmap_def u intro: that)
  obtain lin where fx: "FIXLINMSG um c (forked p y c (x\<lparr>p_memmap := mm\<rparr>) s) =
      Some (forked p y c (x\<lparr>p_memmap := mm, p_delivermsg_lin := lin\<rparr>) s)"
    using umap_local_D [of "x\<lparr>p_memmap := mm\<rparr>" "p_delivermsg_vir x" MSG_SIZE]
    by (cases "syscall_0x80 x") (auto simp: FIXLINMSG_def u)
  have rx: "has_any (p_rts_flags x) RTS_RECEIVING"
    using r by (auto simp: x_def fork_child_def Let_def RTS_ISSET_def or_and_dist)
  define fl where "fl = (if m_data3 m mod 2 = 1 then p_rts_flags x OR RTS_VMINHIBIT else p_rts_flags x)"
  have rf: "has_any fl RTS_RECEIVING" using rx by (simp add: fl_def or_and_dist)
  have nz: "p_rts_flags x \<noteq> 0" "fl \<noteq> 0" using rx rf by auto
  let ?x = "x\<lparr>p_memmap := mm, p_delivermsg_lin := lin\<rparr>"
  have s5: "(if m_data3 m mod 2 = 1 then RTS_LOCK_SET c RTS_VMINHIBIT (forked p y c ?x s) else Some (forked p y c ?x s)) =
      Some (forked p y c (?x\<lparr>p_rts_flags := fl\<rparr>) s)"
    using RTS_quiet(1) [of "forked p y c ?x s" c RTS_VMINHIBIT] lo nz(1) by (simp add: u fl_def)
  have s6: "RTS_LOCK_UNSET c FORK_CLEARS (forked p y c (?x\<lparr>p_rts_flags := fl\<rparr>) s) =
      Some (forked p y c (?x\<lparr>p_rts_flags := fl AND NOT FORK_CLEARS\<rparr>) s)"
    using RTS_quiet(2) [of "forked p y c (?x\<lparr>p_rts_flags := fl\<rparr>) s" c FORK_CLEARS] lo nz(2) recv_not_clears [OF rf]
    by (simp add: u)
  have dv: "p_delivermsg_vir y = p_delivermsg_vir (procs s p)" by (simp add: y_def)
  have "do_fork um m s = Some (rc, m\<lparr>m_data1 := ep, m_data4 := p_delivermsg_vir (procs s p)\<rparr>,
      forked p y c (?x\<lparr>p_rts_flags := fl AND NOT FORK_CLEARS, p_pending := 0\<rparr>) s)"
    unfolding do_fork_def ok option.case pa
    using e r a by (simp add: c(2) Let_def ep_def [symmetric] sys_def [symmetric] x_def [symmetric] s2 nm fx s5 s6 [simplified] u dv c(3))
  then show ?thesis by (intro exI [of _ rc] exI [of _ mm] exI [of _ lin] exI [of _ "fl AND NOT FORK_CLEARS"]) (auto simp: fl_def)
qed

lemma fork_generation_ok:
  "0 \<le> g \<Longrightarrow> 1 \<le> fork_generation g \<and> fork_generation g \<le> ENDPOINT_MAX_GENERATION \<and> fork_generation g \<noteq> g"
  by (simp add: fork_generation_def ENDPOINT_MAX_GENERATION_def)

lemma share_ticks: "0 \<le> t \<Longrightarrow> t \<le> 127 \<Longrightarrow> wrap8 (c_div (t + 1) 2) + wrap8 (c_div t 2) = t"
  by (simp add: c_div_nonneg wrap8_def)

lemma ipcp_fork_child:
  "ipcp ((fork_child p c ep sys)\<lparr>p_memmap := mm, p_delivermsg_lin := lin, p_rts_flags := fl, p_pending := 0\<rparr>) = (ipcp p)\<lparr>i_ep := ep\<rparr>"
  if "fl = p_rts_flags (fork_child p c ep sys) AND NOT FORK_CLEARS \<or> fl = (p_rts_flags (fork_child p c ep sys) OR RTS_VMINHIBIT) AND NOT FORK_CLEARS"
proof -
  have "fl AND g = p_rts_flags p AND g"
    if "g \<in> {RTS_SLOT_FREE, RTS_SENDING, RTS_RECEIVING, RTS_NO_ENDPOINT}" for g :: "16 word"
  proof -
    have d: "FORK_CLEARS AND g = 0" "RTS_VMINHIBIT AND g = 0" "RTS_NO_PRIV AND g = 0" using that by auto
    have "fl AND g = p_rts_flags (fork_child p c ep sys) AND g \<or> fl AND g = (p_rts_flags (fork_child p c ep sys) OR RTS_VMINHIBIT) AND g"
      using \<open>fl = _ \<or> fl = _\<close> and_not_disjoint [OF d(1)] by metis
    then have "fl AND g = p_rts_flags (fork_child p c ep sys) AND g" using d(2) by (auto simp: or_and_dist)
    then show ?thesis using d(3) by (auto simp: fork_child_def Let_def or_and_dist)
  qed
  then show ?thesis by (simp add: ipcp_def fork_child_def Let_def)
qed

text \<open>
  C5. Fork makes a proper child. If a process that waits for a reply, and for which nobody
  queues, is forked into a free slot, the call returns and keeps the kernel invariant; the child
  is found under a new endpoint, which differs from the one the slot had before, so that an
  endpoint kept from then is dead, while all endpoints in use stay valid. The child waits where
  its parent waits, sees zero as its return value, starts with no CPU time and no pending signals,
  shares the quantum with its parent without loss, and has no privileges if its parent is a system process.
\<close>

theorem fork_makes_child:
  assumes k: "kinv s" and ok: "isokendpt s (m_data1 m) = Some p" and c: "valid_nr c" "m_data2 m = c" "i_empty (ipcv s c)"
    and r: "i_recv (ipcv s p)" "\<not> i_send (ipcv s p)" "i_callq (ipcv s p) = None" and a: "s_asynsize (priv_of s p) = 0"
    and g: "0 \<le> ENDPOINT_G (p_endpoint (procs s c))" "ENDPOINT_P (p_endpoint (procs s c)) = c" and t: "0 \<le> p_ticks_left (procs s p)" "p_ticks_left (procs s p) \<le> 127"
    and u: "\<exists>n. live s n \<and> p_priv (procs s n) = USER_PRIV_ID"
  shows "\<exists>rc m' s'. do_fork um m s = Some (rc, m', s') \<and> kinv s' \<and>
    m_data1 m' \<noteq> p_endpoint (procs s c) \<and> isokendpt s' (m_data1 m') = Some c \<and> isokendpt s' (p_endpoint (procs s c)) = None \<and>
    (\<forall>e n. isokendpt s e = Some n \<longrightarrow> isokendpt s' e = Some n) \<and>
    i_recv (ipcv s' c) \<and> i_getfrom (ipcv s' c) = i_getfrom (ipcv s p) \<and>
    p_retreg (procs s' c) = 0 \<and> p_user_time (procs s' c) = 0 \<and> p_sys_time (procs s' c) = 0 \<and> p_pending (procs s' c) = 0 \<and>
    p_ticks_left (procs s' c) + p_ticks_left (procs s' p) = p_ticks_left (procs s p) \<and>
    (if has_any (s_flags (priv_of s p)) SYS_PROC
     then p_priv (procs s' c) = USER_PRIV_ID \<and> has_any (p_rts_flags (procs s' c)) RTS_NO_PRIV
     else p_priv (procs s' c) = p_priv (procs s p))"
proof -
  have ks: "ksane s" by (rule kinvD(1) [OF k])
  note d = isokendptD [OF ks ok]
  have pc: "p \<noteq> c" using d(4) c(3) by blast
  define ep where "ep = ENDPOINT (fork_generation (ENDPOINT_G (p_endpoint (procs s c)))) c"
  define sys where "sys = has_any (s_flags (priv_of s p)) SYS_PROC"
  define y where "y = (procs s p)\<lparr>p_ticks_left := wrap8 (c_div (p_ticks_left (procs s p)) 2)\<rparr>"
  define x0 where "x0 = fork_child (procs s p) c ep sys"
  have em: "\<not> isemptyp (procs s p)" "isemptyp (procs s c)"
    using isemptyp_view [OF ks d(5)] isemptyp_view [OF ks c(1)] d(4) c(3) by blast+
  have rs: "RTS_ISSET (procs s p) RTS_RECEIVING" using r(1) by simp
  have lo: "lock_ok s" using ks by (simp add: ksane_def)
  obtain rc mm lin fl where run: "do_fork um m s = Some (rc, m\<lparr>m_data1 := ep, m_data4 := p_delivermsg_vir (procs s p)\<rparr>,
      forked p y c (x0\<lparr>p_memmap := mm, p_delivermsg_lin := lin, p_rts_flags := fl, p_pending := 0\<rparr>) s)"
    and fl: "fl = p_rts_flags x0 AND NOT FORK_CLEARS \<or> fl = (p_rts_flags x0 OR RTS_VMINHIBIT) AND NOT FORK_CLEARS"
    using do_fork_run [OF ok c(1,2) pc em rs _ lo, of um] a unfolding ep_def sys_def y_def x0_def by auto
  define x where "x = x0\<lparr>p_memmap := mm, p_delivermsg_lin := lin, p_rts_flags := fl, p_pending := 0\<rparr>"
  define s1 where "s1 = upd_proc p (\<lambda>_. y) s"
  define s' where "s' = upd_proc c (\<lambda>_. x) s1"
  have fs: "forked p y c x s = s'" by (simp add: forked_def s'_def s1_def)
  have q: "quiet (procs s p) y" "ipcp y = ipcp (procs s p)" by (simp_all add: y_def quiet_def ipcp_def)
  have k1: "kinv s1" unfolding s1_def by (rule quiet_kinv [OF k]) (use q in simp_all)
  have v1: "ipcv s1 = ipcv s" using q(2) by (auto simp: s1_def ipcv_def upd_proc_def)
  have l1: "live s1 n \<longleftrightarrow> live s n" for n unfolding live_view v1 ..
  have xi: "ipcp x = (ipcv s1 p)\<lparr>i_ep := ep\<rparr>"
    using ipcp_fork_child [OF fl [unfolded x0_def]] unfolding v1 ipcv_def by (simp add: x_def x0_def)
  have xf: "p_nr x = c" "p_endpoint x = ep" "p_priority x = p_priority (procs s p)" "p_max_priority x = p_max_priority (procs s p)"
    "syscall_0x80 x = syscall_0x80 (procs s p)" "p_priv x = (if sys then USER_PRIV_ID else p_priv (procs s p))"
    "p_retreg x = 0" "p_user_time x = 0" "p_sys_time x = 0" "p_pending x = 0"
    "p_ticks_left x = wrap8 (c_div (p_ticks_left (procs s p) + 1) 2)"
    by (simp_all add: x_def x0_def fork_child_def Let_def)
  have y1: "procs s1 p = y" "n \<noteq> p \<Longrightarrow> procs s1 n = procs s n" for n by (simp_all add: s1_def)
  note gk = fork_generation_ok [OF g(1)]
  have epp: "ENDPOINT_P ep = c" "ENDPOINT_G ep \<noteq> ENDPOINT_G (p_endpoint (procs s c))"
    using ENDPOINT_parts [of "fork_generation (ENDPOINT_G (p_endpoint (procs s c)))" c] gk c(1)
    by (simp_all add: ep_def valid_nr_def)
  have lp: "live s p" by (rule d(2))
  have k': "kinv s'"
    unfolding s'_def
  proof (rule new_entry_kinv [OF k1, of p])
    show "live s1 p" using lp l1 by blast
    show "valid_nr c" "i_empty (ipcv s1 c)" "i_recv (ipcv s1 p)" "\<not> i_send (ipcv s1 p)" "i_callq (ipcv s1 p) = None"
      using c r unfolding v1 by blast+
    show "p_nr x = c" "ENDPOINT_P (p_endpoint x) = c" "ipcp x = (ipcv s1 p)\<lparr>i_ep := p_endpoint x\<rparr>"
      "p_priority x = p_priority (procs s1 p)" "p_max_priority x = p_max_priority (procs s1 p)"
      "syscall_0x80 x = syscall_0x80 (procs s1 p)"
      using xf xi epp by (simp_all add: y1 y_def)
    have pp: "p_priv (procs s1 n) = p_priv (procs s n)" for n by (cases "n = p") (simp_all add: y1 y_def)
    show "\<exists>n. live s1 n \<and> p_priv x = p_priv (procs s1 n)"
      unfolding pp l1 xf(6) using u lp by (cases sys) auto
  qed
  have v': "ipcv s' = (ipcv s)(c := (ipcv s p)\<lparr>i_ep := ep\<rparr>)"
    unfolding v1 [symmetric] xi [symmetric] by (auto simp: s'_def ipcv_def)
  note iv = isokendpt_view [OF kinvD(1) [OF k']]
  have "isokendpt s' ep = Some c" using iv [of ep] epp(1) c(1) d(4) by (simp add: v')
  moreover have "ep \<noteq> p_endpoint (procs s c)" using epp(2) by blast
  moreover have "isokendpt s' (p_endpoint (procs s c)) = None"
    using iv [of "p_endpoint (procs s c)"] g(2) epp(2) by (auto simp: v')
  moreover have "isokendpt s' e = Some n" if e: "isokendpt s e = Some n" for e n
    using isokendptD [OF ks e] iv [of e] c(3) by (auto simp: v')
  moreover have "i_recv (ipcv s' c)" "i_getfrom (ipcv s' c) = i_getfrom (ipcv s p)" using r by (simp_all add: v')
  moreover have p': "procs s' c = x" "procs s' p = y" using pc by (simp_all add: s'_def y1)
  moreover have "has_any fl RTS_NO_PRIV" if sys
    using fl that by (auto simp: x0_def fork_child_def Let_def or_and_dist and_not_disjoint)
  then have "sys \<longrightarrow> has_any (p_rts_flags x) RTS_NO_PRIV" by (simp add: x_def)
  ultimately show ?thesis
    using run k' share_ticks [OF t] unfolding x_def [symmetric] fs sys_def [symmetric]
    by (intro exI [of _ rc] exI [of _ "m\<lparr>m_data1 := ep, m_data4 := p_delivermsg_vir (procs s p)\<rparr>"] exI [of _ s'])
      (auto simp: xf y_def)
qed

theorem fork_makes_child_witness:
  "i_recv (ipcv sample 1) \<and> (\<forall>um. \<exists>rc m' s'. do_fork um (msg0\<lparr>m_data1 := 1, m_data2 := 12\<rparr>) sample = Some (rc, m', s') \<and> kinv s' \<and>
     isokendpt s' (m_data1 m') = Some 12 \<and> p_priv (procs s' 12) = USER_PRIV_ID)"
proof -
  let ?m = "msg0\<lparr>m_data1 := 1, m_data2 := 12\<rparr>"
  have ok: "isokendpt sample (m_data1 ?m) = Some 1"
    using isokendpt_view [OF kinvD(1) [OF sample_kinv], of 1] by (simp add: sample_ipcv ENDPOINT_P_small valid_nr_def)
  have p: "p_endpoint (procs sample 12) = 12" "p_ticks_left (procs sample 1) = 8" "s_asynsize (priv_of sample 1) = 0"
    "has_any (s_flags (priv_of sample 1)) SYS_PROC" "p_priv (procs sample 11) = USER_PRIV_ID"
    by (simp_all add: sample_def sample_proc_def sample_priv_def priv_of_def)
  have "live sample 11" unfolding live_view by (simp add: sample_ipcv valid_nr_def)
  then have u: "\<exists>n. live sample n \<and> p_priv (procs sample n) = USER_PRIV_ID" using p(5) by blast
  have e: "ENDPOINT_G 12 = 0" "ENDPOINT_P 12 = 12" by (simp_all add: ENDPOINT_G_def ENDPOINT_P_def wrap32_id c_div_nonneg c_rem_nonneg)
  have i: "i_empty (ipcv sample 12)" "i_recv (ipcv sample 1)" "\<not> i_send (ipcv sample 1)" "i_callq (ipcv sample 1) = None" "valid_nr 12"
    by (simp_all add: sample_ipcv valid_nr_def)
  show ?thesis
    using fork_makes_child [OF sample_kinv ok i(5) _ i(1-4) p(3) _ _ _ _ u] p e i(2) by fastforce
qed

end
