(* ===== verification/Kernel_Calls_Safe.thy ===== *)
theory Kernel_Calls_Safe
  imports Kernel_Fork
begin

text \<open>
  What the system task guarantees for requests: calls that are not allowed have no effect, the
  others keep the kernel invariant, and what single calls do for their callers.
\<close>

section \<open>The remaining calls keep the invariant\<close>

lemma do_newmap_keeps:
  assumes "kinv s" shows "keeps (do_newmap um m s)"
proof -
  have "kinv (upd_proc n (\<lambda>p. p\<lparr>p_memmap := mm\<rparr>) s)" for n mm
    by (rule quiet_kinv [OF assms]) (simp_all add: quiet_def ipcp_def)
  then show ?thesis using assms by (auto simp: do_newmap_def newmap_def split: option.splits sum.splits)
qed

text \<open>Changes of a privilege structure that do not concern the invariant.\<close>

lemma kinv_upd_priv:
  assumes k: "kinv s" and q: "\<And>p. s_id (f p) = s_id p" "\<And>p. s_proc_nr (f p) = s_proc_nr p" "\<And>p. s_ipc_to (f p) = s_ipc_to p"
    "\<And>p. s_notify_pending (f p) = s_notify_pending p"
  shows "kinv (upd_priv_of n f s)"
  using kcore_upd_priv [OF kinvD(2) [OF k], of f n] q kinvD(3) [OF k] by (simp add: kinv_alt)

lemma do_setgrant_keeps: "kinv s \<Longrightarrow> kinv (snd (do_setgrant m s))"
  by (simp add: do_setgrant_def kinv_upd_priv)

definition trace_control :: "int \<Rightarrow> bool" where
  "trace_control r \<longleftrightarrow> r \<in> {T_STOP, T_RESUME, T_STEP, T_SYSCALL, T_DETACH}"

lemma kinv_trace:
  assumes k: "kinv s" and n: "n \<noteq> PM_PROC_NR"
  shows "kinv (upd_proc n (\<lambda>p. p\<lparr>p_psw := g p, p_misc_flags := f p\<rparr>) s)"
proof -
  have "kinv (upd_proc n (\<lambda>p. p\<lparr>p_psw := g p\<rparr>) s)"
    by (rule quiet_kinv [OF k]) (simp_all add: quiet_def ipcp_def)
  from kinv_misc [OF this n, of "\<lambda>_. f (procs s n)"] show ?thesis by (simp add: upd_proc_def)
qed

lemma do_trace_keeps:
  assumes k: "kinv s" and pm: "isokendpt s (m_data1 m) \<noteq> Some PM_PROC_NR" and c: "trace_control (m_data2 m)"
  shows "keeps (do_trace peek m s)"
proof (cases "isokendpt s (m_data1 m)")
  case (Some n)
  have n: "n \<noteq> PM_PROC_NR" using pm Some by simp
  have l: "live s n" by (rule isokendptD(2) [OF kinvD(1) [OF k] Some])
  obtain s1 where r1: "RTS_LOCK_SET n RTS_P_STOP s = Some s1" "kinv s1" using plain_set [OF k l] plain_flags(5) by metis
  define s2 where "s2 = upd_proc n (\<lambda>p. if m_data2 m = T_DETACH then p\<lparr>p_misc_flags := p_misc_flags p AND NOT MF_SC_ACTIVE\<rparr>
      else if m_data2 m = T_STEP then p\<lparr>p_psw := p_psw p OR TRACEBIT\<rparr>
      else if m_data2 m = T_SYSCALL then p\<lparr>p_misc_flags := p_misc_flags p OR MF_SC_TRACE\<rparr> else p) s"
  have "s2 = upd_proc n (\<lambda>p. p\<lparr>p_psw := (if m_data2 m = T_STEP then p_psw p OR TRACEBIT else p_psw p),
      p_misc_flags := (if m_data2 m = T_DETACH then p_misc_flags p AND NOT MF_SC_ACTIVE
         else if m_data2 m = T_SYSCALL then p_misc_flags p OR MF_SC_TRACE else p_misc_flags p)\<rparr>) s"
    by (auto simp: s2_def upd_proc_def)
  then have k2: "kinv s2" using kinv_trace [OF k n] by simp
  have "p_rts_flags (procs s2 n) = p_rts_flags (procs s n)" by (simp add: s2_def)
  then have l2: "live s2 n" using l by simp
  obtain s3 where r3: "RTS_LOCK_UNSET n RTS_P_STOP s2 = Some s3" "kinv s3" using plain_unset [OF k2 l2] plain_flags(5) by metis
  show ?thesis
    using c k r1 kinv_trace [OF r1(2) n] r3 unfolding trace_control_def
    by (auto simp: do_trace_def Some s2_def [symmetric] Let_def)
qed (use k in \<open>simp add: do_trace_def\<close>)

section \<open>Privileges\<close>

text \<open>
  Filling the send mask changes send masks only, never lets a structure send to itself, and ends the
  right of the process to send to its own structure.
\<close>

lemma target_step:
  assumes "s_id (priv_of s rp) = p_priv (procs s rp)"
  shows "\<exists>V. (if b then set_sendto_bit rp k s else unset_sendto_bit rp k s) = s\<lparr>privs := V\<rparr> \<and>
    (\<forall>j. \<exists>mk. V j = (privs s j)\<lparr>s_ipc_to := mk\<rparr> \<and>
      (get_sys_bit mk j \<longrightarrow> get_sys_bit (s_ipc_to (privs s j)) j \<and> \<not> (j = p_priv (procs s rp) \<and> k = j)))"
proof -
  let ?i = "p_priv (procs s rp)"
  define s' where "s' = (if b then set_sendto_bit rp k s else unset_sendto_bit rp k s)"
  have e: "s' = s\<lparr>privs := privs s'\<rparr>"
    by (simp add: s'_def set_sendto_bit_def unset_sendto_bit_def upd_priv_of_def upd_priv_def Let_def)
  have "\<exists>mk. privs s' j = (privs s j)\<lparr>s_ipc_to := mk\<rparr> \<and>
      (get_sys_bit mk j \<longrightarrow> get_sys_bit (s_ipc_to (privs s j)) j \<and> \<not> (j = ?i \<and> k = j))" for j
  proof (intro exI [of _ "s_ipc_to (privs s' j)"] conjI)
    show "privs s' j = (privs s j)\<lparr>s_ipc_to := s_ipc_to (privs s' j)\<rparr>"
      by (simp add: s'_def set_sendto_bit_def unset_sendto_bit_def upd_priv_of_def upd_priv_def Let_def)
    show "get_sys_bit (s_ipc_to (privs s' j)) j \<longrightarrow> get_sys_bit (s_ipc_to (privs s j)) j \<and> \<not> (j = ?i \<and> k = j)"
      using assms by (auto simp: s'_def set_sendto_bit_def unset_sendto_bit_def upd_priv_of_def upd_priv_def Let_def
          get_set_sys_bit get_unset_sys_bit priv_of_def split: if_splits)
  qed
  then show ?thesis using e unfolding s'_def by blast
qed

lemma fill_targets_spec:
  assumes "s_id (priv_of s rp) = p_priv (procs s rp)"
  shows "\<exists>V. fill_targets rp f is s = s\<lparr>privs := V\<rparr> \<and>
    (\<forall>j. \<exists>mk. V j = (privs s j)\<lparr>s_ipc_to := mk\<rparr> \<and>
      (get_sys_bit mk j \<longrightarrow> get_sys_bit (s_ipc_to (privs s j)) j \<and> \<not> (j = p_priv (procs s rp) \<and> j \<in> set is)))"
  using assms
proof (induction "is" arbitrary: s)
  case Nil
  have "\<exists>mk. privs s j = (privs s j)\<lparr>s_ipc_to := mk\<rparr> \<and> (get_sys_bit mk j \<longrightarrow> get_sys_bit (s_ipc_to (privs s j)) j)" for j
    by (rule exI [of _ "s_ipc_to (privs s j)"]) simp
  then show ?case by (intro exI [of _ "privs s"]) simp
next
  case (Cons k "is")
  let ?s = "if f k then set_sendto_bit rp k s else unset_sendto_bit rp k s"
  obtain V where V: "?s = s\<lparr>privs := V\<rparr>" and v: "\<forall>j. \<exists>mk. V j = (privs s j)\<lparr>s_ipc_to := mk\<rparr> \<and>
      (get_sys_bit mk j \<longrightarrow> get_sys_bit (s_ipc_to (privs s j)) j \<and> \<not> (j = p_priv (procs s rp) \<and> k = j))"
    using target_step [OF Cons.prems, of "f k" k] by blast
  have "s_id (V j) = s_id (privs s j)" for j using v [rule_format, of j] by auto
  then have "s_id (priv_of ?s rp) = p_priv (procs ?s rp)" using Cons.prems unfolding V by (simp add: priv_of_def)
  from Cons.IH [OF this] obtain W where W: "fill_targets rp f is ?s = s\<lparr>privs := W\<rparr>"
    and w: "\<forall>j. \<exists>mk. W j = (V j)\<lparr>s_ipc_to := mk\<rparr> \<and>
      (get_sys_bit mk j \<longrightarrow> get_sys_bit (s_ipc_to (V j)) j \<and> \<not> (j = p_priv (procs s rp) \<and> j \<in> set is))"
    unfolding V by auto
  have "\<exists>mk. W j = (privs s j)\<lparr>s_ipc_to := mk\<rparr> \<and>
      (get_sys_bit mk j \<longrightarrow> get_sys_bit (s_ipc_to (privs s j)) j \<and> \<not> (j = p_priv (procs s rp) \<and> j \<in> set (k # is)))" for j
    using v [rule_format, of j] w [rule_format, of j] by force
  then show ?case using W by (intro exI [of _ W]) simp
qed

text \<open>A new privilege structure for a process, which no other process has.\<close>

lemma kinv_set_priv:
  assumes k: "kinv s" and l: "live s rp" and i: "0 \<le> i" "i < NR_SYS_PROCS" "s_proc_nr (privs s i) = ENDPT_NONE"
    and v: "\<And>j. j \<noteq> i \<Longrightarrow> \<exists>mk. V j = (privs s j)\<lparr>s_ipc_to := mk\<rparr> \<and> (get_sys_bit mk j \<longrightarrow> get_sys_bit (s_ipc_to (privs s j)) j)"
    and w: "s_id (V i) = i" "s_proc_nr (V i) = rp" "\<not> get_sys_bit (s_ipc_to (V i)) i"
      "\<And>j. 0 \<le> j \<Longrightarrow> j < NR_SYS_PROCS \<Longrightarrow> \<not> get_sys_bit (s_notify_pending (V i)) j"
  shows "kinv ((upd_proc rp (\<lambda>p. p\<lparr>p_priv := i\<rparr>) s)\<lparr>privs := V, clock_timers := q\<rparr>)" (is "kinv ?s")
proof -
  have f: "nextreadys ?s m = nextreadys s m" "p_rts_flags (procs ?s m) = p_rts_flags (procs s m)"
    "p_priority (procs ?s m) = p_priority (procs s m)" "p_max_priority (procs ?s m) = p_max_priority (procs s m)"
    "p_nr (procs ?s m) = p_nr (procs s m)" "p_misc_flags (procs ?s m) = p_misc_flags (procs s m)"
    "syscall_0x80 (procs ?s m) = syscall_0x80 (procs s m)"
    "p_priv (procs ?s m) = (if m = rp then i else p_priv (procs s m))" for m by (simp_all add: upd_proc_def)
  have g: "rdy_head ?s = rdy_head s" "rdy_tail ?s = rdy_tail s" "proc_ptr ?s = proc_ptr s"
    "intr_off ?s = intr_off s" "locklevel ?s = locklevel s" "umsg ?s = umsg s" "privs ?s = V"
    by (simp_all add: upd_proc_def)
  have t: "tables_ok s" using kinvD(1) [OF k] by (simp add: ksane_def)
  have vr: "valid_nr rp" using l by simp
  have "tables_ok ?s"
    unfolding tables_ok_def
  proof (intro conjI allI impI)
    fix m assume "valid_nr m" then show "p_nr (procs ?s m) = m" unfolding f using t by (simp add: tables_ok_def)
  next
    fix m assume "live ?s m"
    then have m: "live s m" unfolding f .
    note tm = t [unfolded tables_ok_def, THEN conjunct2, THEN conjunct1, rule_format, OF m]
    show "0 \<le> p_priv (procs ?s m)" "p_priv (procs ?s m) < NR_SYS_PROCS" unfolding f using tm i by simp_all
    let ?j = "p_priv (procs s m)"
    have nj: "?j \<noteq> i" using tm i(3) by (auto simp: priv_of_def valid_nr_def)
    have po: "priv_of ?s m = V (if m = rp then i else ?j)" unfolding priv_of_def g f ..
    obtain mk where mk: "V ?j = (privs s ?j)\<lparr>s_ipc_to := mk\<rparr>" "get_sys_bit mk ?j \<longrightarrow> get_sys_bit (s_ipc_to (privs s ?j)) ?j"
      using v [OF nj] by blast
    have idj: "s_id (privs s ?j) = ?j" using t tm by (auto simp: tables_ok_def)
    show "valid_nr (s_proc_nr (priv_of ?s m))" unfolding po using tm vr w(2) mk(1) by (simp add: priv_of_def)
    show "\<not> get_sys_bit (s_ipc_to (priv_of ?s m)) (s_id (priv_of ?s m))"
      unfolding po using tm w(1,3) mk idj by (auto simp: priv_of_def)
    fix b assume b: "0 \<le> b \<and> b < NR_SYS_PROCS" "get_sys_bit (s_notify_pending (priv_of ?s m)) b"
    then have n: "m \<noteq> rp" using w(4) [of b] unfolding po by auto
    then have "valid_nr (s_proc_nr (privs s b))" using b tm mk(1) unfolding po by (auto simp: priv_of_def)
    then have "b \<noteq> i" using i(3) by (auto simp: valid_nr_def)
    from v [OF this] show "valid_nr (s_proc_nr (privs ?s b))" using \<open>valid_nr (s_proc_nr (privs s b))\<close> unfolding g by auto
  next
    fix b :: int assume b: "0 \<le> b \<and> b < NR_SYS_PROCS"
    have "s_id (privs s b) = b" "s_proc_nr (privs s b) = ENDPT_NONE \<or> valid_nr (s_proc_nr (privs s b))"
      using t b by (auto simp: tables_ok_def)
    then show "s_id (privs ?s b) = b" "s_proc_nr (privs ?s b) = ENDPT_NONE \<or> valid_nr (s_proc_nr (privs ?s b))"
      using v [of b] w(1,2) vr unfolding g by (cases "b = i"; auto)+
  qed
  moreover have "runq_inv ?s = runq_inv s" by (rule runq_inv_cong) (simp_all add: f g)
  moreover have "ipcv ?s = ipcv s" by (auto simp: ipcv_def ipcp_def upd_proc_def)
  ultimately show ?thesis
    using k unfolding kinv_def ksane_def free_ok_def pm_ok_def lock_ok_def f g by simp
qed

text \<open>The tables of a privilege structure are filled within their sizes.\<close>

definition counts_ok :: "priv \<Rightarrow> bool" where
  "counts_ok p \<longleftrightarrow> 0 \<le> s_nr_irq p \<and> s_nr_irq p \<le> NR_IRQ \<and> 0 \<le> s_nr_io_range p \<and> s_nr_io_range p \<le> NR_IO_RANGE \<and>
     0 \<le> s_nr_mem_range p \<and> s_nr_mem_range p \<le> NR_MEM_RANGE"

definition same_core :: "priv \<Rightarrow> priv \<Rightarrow> bool" where
  "same_core p q \<longleftrightarrow> s_id q = s_id p \<and> s_proc_nr q = s_proc_nr p \<and> s_ipc_to q = s_ipc_to p \<and>
     s_notify_pending q = s_notify_pending p \<and> s_asyntab q = s_asyntab p \<and> s_asynsize q = s_asynsize p"

definition priv_step :: "int \<Rightarrow> kstate \<Rightarrow> kstate \<Rightarrow> bool" where
  "priv_step rp s s' \<longleftrightarrow> (\<exists>p. s' = upd_priv_of rp (\<lambda>_. p) s \<and> same_core (priv_of s rp) p \<and> (counts_ok (priv_of s rp) \<longrightarrow> counts_ok p))"

lemma priv_step_refl: "priv_step rp s s"
  unfolding priv_step_def by (rule exI [of _ "priv_of s rp"]) (simp add: upd_priv_of_def upd_priv_def priv_of_def same_core_def)

lemma priv_step_upd:
  assumes "priv_step rp s s1" and "\<And>p. same_core p (f p)" and "\<And>p. counts_ok p \<Longrightarrow> counts_ok (f p)"
  shows "priv_step rp s (upd_priv_of rp f s1)"
proof -
  obtain p where p: "s1 = upd_priv_of rp (\<lambda>_. p) s" "same_core (priv_of s rp) p" "counts_ok (priv_of s rp) \<longrightarrow> counts_ok p"
    using assms(1) by (auto simp: priv_step_def)
  have "same_core (priv_of s rp) (f p)" using p(2) assms(2) [of p] by (simp add: same_core_def)
  then show ?thesis
    unfolding priv_step_def using p(1,3) assms(3) by (intro exI [of _ "f p"]) (simp add: upd_priv_of_def upd_priv_def)
qed

lemma priv_override_step: "priv_step rp s (snd (priv_override rp a s))"
proof -
  define s1 where "s1 = upd_priv_of rp (\<lambda>p. p\<lparr>s_flags := s_flags a\<rparr>) s"
  define s2 where "s2 = (if has_any (s_flags a) CHECK_IRQ
      then upd_priv_of rp (\<lambda>p. p\<lparr>s_nr_irq := s_nr_irq a, s_irq_tab := copy_tab (s_nr_irq a) (s_irq_tab a) (s_irq_tab p)\<rparr>) s1 else s1)"
  define s3 where "s3 = (if has_any (s_flags a) CHECK_IO_PORT
      then upd_priv_of rp (\<lambda>p. p\<lparr>s_nr_io_range := s_nr_io_range a, s_io_tab := copy_tab (s_nr_io_range a) (s_io_tab a) (s_io_tab p)\<rparr>) s2 else s2)"
  define s4 where "s4 = (if has_any (s_flags a) CHECK_MEM
      then upd_priv_of rp (\<lambda>p. p\<lparr>s_nr_mem_range := s_nr_mem_range a, s_mem_tab := copy_tab (s_nr_mem_range a) (s_mem_tab a) (s_mem_tab p)\<rparr>) s3 else s3)"
  define s5 where "s5 = upd_priv_of rp (\<lambda>p. p\<lparr>s_trap_mask := s_trap_mask a, s_k_call_mask := s_k_call_mask a\<rparr>) s4"
  define b where "b = (\<lambda>f n k. has_any (s_flags a) f \<and> (n < (0::int) \<or> n > k))"
  have r: "priv_override rp a s =
     (if b CHECK_IRQ (s_nr_irq a) NR_IRQ then (- EINVAL, s1)
      else if b CHECK_IO_PORT (s_nr_io_range a) NR_IO_RANGE then (- EINVAL, s2)
      else if b CHECK_MEM (s_nr_mem_range a) NR_MEM_RANGE then (- EINVAL, s3) else (0, s5))"
    unfolding priv_override_def Let_def b_def s5_def s4_def s3_def s2_def s1_def by (rule refl)
  note c = same_core_def counts_ok_def
  have g1: "priv_step rp s s1" unfolding s1_def by (rule priv_step_upd [OF priv_step_refl]) (simp_all add: c)
  have g2: "priv_step rp s s2" if "\<not> b CHECK_IRQ (s_nr_irq a) NR_IRQ"
    using g1 that by (cases "has_any (s_flags a) CHECK_IRQ") (auto simp: s2_def b_def c intro!: priv_step_upd)
  have g3: "priv_step rp s s3" if "\<not> b CHECK_IRQ (s_nr_irq a) NR_IRQ" "\<not> b CHECK_IO_PORT (s_nr_io_range a) NR_IO_RANGE"
    using g2 that by (cases "has_any (s_flags a) CHECK_IO_PORT") (auto simp: s3_def b_def c intro!: priv_step_upd)
  have g4: "priv_step rp s s4" if "\<not> b CHECK_IRQ (s_nr_irq a) NR_IRQ" "\<not> b CHECK_IO_PORT (s_nr_io_range a) NR_IO_RANGE"
      "\<not> b CHECK_MEM (s_nr_mem_range a) NR_MEM_RANGE"
    using g3 that by (cases "has_any (s_flags a) CHECK_MEM") (auto simp: s4_def b_def c intro!: priv_step_upd)
  have g5: "priv_step rp s s5" if "priv_step rp s s4"
    unfolding s5_def by (rule priv_step_upd [OF that]) (simp_all add: c)
  show ?thesis using g1 g2 g3 g4 g5 unfolding r by simp
qed

lemma get_priv_ok:
  assumes "get_priv rp pid s = (0, s1)"
  shows "\<exists>i. 0 \<le> i \<and> i < NR_SYS_PROCS \<and> s_proc_nr (privs s i) = ENDPT_NONE \<and>
    s1 = (upd_proc rp (\<lambda>p. p\<lparr>p_priv := i\<rparr>) s)\<lparr>privs := (privs s)(i := (privs s i)\<lparr>s_proc_nr := p_nr (procs s rp),
      s_asyntab := uwrap32 (-1), s_asynsize := 0\<rparr>)\<rparr>"
proof -
  define S where "S = (if pid = NULL_PRIV_ID then
          (case find (\<lambda>i. s_proc_nr (privs s i) = ENDPT_NONE) [NR_STATIC_PRIV_IDS..NR_SYS_PROCS - 1] of
             None \<Rightarrow> Inl (- ENOSPC) | Some i \<Rightarrow> Inr i)
        else if \<not> is_static_priv_id pid then Inl (- EINVAL)
        else if s_proc_nr (privs s pid) \<noteq> ENDPT_NONE then Inl (- EBUSY)
        else (Inr pid :: int + int))"
  have g: "get_priv rp pid s = (case S of Inl e \<Rightarrow> (e, s) | Inr i \<Rightarrow>
      (0, upd_priv i (\<lambda>pr. pr\<lparr>s_proc_nr := p_nr (procs s rp), s_asyntab := uwrap32 (-1), s_asynsize := 0\<rparr>)
            (upd_proc rp (\<lambda>p. p\<lparr>p_priv := i\<rparr>) s)))"
    unfolding get_priv_def Let_def S_def by (rule refl)
  have z: "e \<noteq> 0" if "S = Inl e" for e
    using that unfolding S_def by (cases "pid = NULL_PRIV_ID") (auto split: if_splits option.splits)
  obtain i where i: "S = Inr i"
  proof (cases S)
    case (Inl e)
    then show ?thesis using z [OF Inl] assms unfolding g by simp
  qed (rule that)
  have s1: "s1 = upd_priv i (\<lambda>pr. pr\<lparr>s_proc_nr := p_nr (procs s rp), s_asyntab := uwrap32 (-1), s_asynsize := 0\<rparr>)
                   (upd_proc rp (\<lambda>p. p\<lparr>p_priv := i\<rparr>) s)"
    using assms unfolding g i by simp
  from i have "0 \<le> i \<and> i < NR_SYS_PROCS \<and> s_proc_nr (privs s i) = ENDPT_NONE"
    unfolding S_def by (cases "pid = NULL_PRIV_ID") (auto simp: is_static_priv_id_def find_Some_iff split: if_splits option.splits)
  then show ?thesis using s1 by (intro exI [of _ i]) (simp add: upd_priv_def upd_proc_def)
qed

lemma priv_default_sel:
  "s_id (priv_default rp c p) = s_id p" "s_proc_nr (priv_default rp c p) = rp" "counts_ok (priv_default rp c p)"
  "s_asyntab (priv_default rp c p) = s_asyntab c" "s_asynsize (priv_default rp c p) = s_asynsize c"
  "0 \<le> j \<Longrightarrow> j < NR_SYS_PROCS \<Longrightarrow> \<not> get_sys_bit (s_notify_pending (priv_default rp c p)) j"
proof -
  show "\<not> get_sys_bit (s_notify_pending (priv_default rp c p)) j" if "0 \<le> j" "j < NR_SYS_PROCS"
  proof -
    have "0 \<le> j div 16" "j div 16 < 2" using that by auto
    then show ?thesis by (simp add: priv_default_def get_sys_bit_def)
  qed
qed (simp_all add: priv_default_def counts_ok_def)

text \<open>The state after the structure has been allocated and set to its defaults.\<close>

definition set_sys_start :: "int \<Rightarrow> kstate \<Rightarrow> kstate \<Rightarrow> kstate" where
  "set_sys_start rp s s1 =
     (let s2 = upd_priv_of rp (\<lambda>p. priv_default rp (priv_of s1 (who_p s)) p) s1
      in upd_ktmr (Alarm (p_priv (procs s2 rp))) (\<lambda>_. tmr (clock_timers s2) (Alarm (p_priv (procs s2 (who_p s))))) s2)"

lemma set_sys_start_spec:
  assumes k: "kinv s" and l: "live s rp" and g: "get_priv rp pid s = (0, s1)"
  shows "\<exists>i V q. 0 \<le> i \<and> i < NR_SYS_PROCS \<and> s_proc_nr (privs s i) = ENDPT_NONE \<and>
    set_sys_start rp s s1 = (upd_proc rp (\<lambda>p. p\<lparr>p_priv := i\<rparr>) s)\<lparr>privs := V, clock_timers := q\<rparr> \<and>
    (\<forall>j. j \<noteq> i \<longrightarrow> V j = privs s j) \<and> s_id (V i) = i \<and> s_proc_nr (V i) = rp \<and> counts_ok (V i) \<and>
    (\<forall>j. 0 \<le> j \<and> j < NR_SYS_PROCS \<longrightarrow> \<not> get_sys_bit (s_notify_pending (V i)) j) \<and>
    (live s (who_p s) \<and> who_p s \<noteq> rp \<longrightarrow>
      s_asyntab (V i) = s_asyntab (priv_of s (who_p s)) \<and> s_asynsize (V i) = s_asynsize (priv_of s (who_p s)))"
proof -
  obtain i where i: "0 \<le> i" "i < NR_SYS_PROCS" "s_proc_nr (privs s i) = ENDPT_NONE"
    and s1: "s1 = (upd_proc rp (\<lambda>p. p\<lparr>p_priv := i\<rparr>) s)\<lparr>privs := (privs s)(i := (privs s i)\<lparr>s_proc_nr := p_nr (procs s rp),
      s_asyntab := uwrap32 (-1), s_asynsize := 0\<rparr>)\<rparr>"
    using get_priv_ok [OF g] by blast
  have t: "tables_ok s" using kinvD(1) [OF k] by (simp add: ksane_def)
  define x where "x = priv_default rp (priv_of s1 (who_p s)) (privs s1 i)"
  define V where "V = (privs s1)(i := x)"
  have p1: "p_priv (procs s1 rp) = i" by (simp add: s1)
  have e: "set_sys_start rp s s1 = s1\<lparr>privs := V, clock_timers := clock_timers (set_sys_start rp s s1)\<rparr>"
    by (simp add: set_sys_start_def Let_def upd_ktmr_def upd_priv_of_def upd_priv_def V_def x_def p1)
  have "s_id (privs s i) = i" using t i by (simp add: tables_ok_def)
  then have x: "s_id x = i" "s_proc_nr x = rp" "counts_ok x"
    "s_asyntab x = s_asyntab (priv_of s1 (who_p s))" "s_asynsize x = s_asynsize (priv_of s1 (who_p s))"
    "0 \<le> j \<Longrightarrow> j < NR_SYS_PROCS \<Longrightarrow> \<not> get_sys_bit (s_notify_pending x) j" for j
    by (simp_all add: x_def priv_default_sel del: ) (simp_all add: s1)
  have c: "priv_of s1 (who_p s) = priv_of s (who_p s)" if "live s (who_p s)" "who_p s \<noteq> rp"
  proof -
    have "valid_nr (s_proc_nr (priv_of s (who_p s)))" using t that(1) by (simp add: tables_ok_def)
    then have "p_priv (procs s (who_p s)) \<noteq> i" using i(3) by (auto simp: priv_of_def valid_nr_def)
    then show ?thesis using that(2) by (simp add: s1 priv_of_def)
  qed
  show ?thesis
  proof (intro exI [of _ i] exI [of _ V] exI [of _ "clock_timers (set_sys_start rp s s1)"] conjI allI impI)
    show "set_sys_start rp s s1 = (upd_proc rp (\<lambda>p. p\<lparr>p_priv := i\<rparr>) s)\<lparr>privs := V, clock_timers := clock_timers (set_sys_start rp s s1)\<rparr>"
      using e by (simp add: s1)
    show "V j = privs s j" if "j \<noteq> i" for j using that by (simp add: V_def s1)
  qed (use i x c in \<open>auto simp: V_def\<close>)
qed

lemma priv_set_sys_success:
  assumes "priv_set_sys um m rp s = (0, s')" and "um_priv um (who_e s) (m_data6 m) \<noteq> Inl 0"
  obtains pid s1 s4 f where "get_priv rp pid s = (0, s1)"
    and "s' = fill_targets rp f [0..NR_SYS_PROCS - 1] s4" and "priv_step rp (set_sys_start rp s s1) s4"
proof -
  define A where "A = (if m_data6 m \<noteq> 0 then map_sum id Some (um_priv um (who_e s) (m_data6 m)) else Inr None)"
  define pid where "pid = (\<lambda>arg :: priv option. case arg of None \<Rightarrow> NULL_PRIV_ID
      | Some a \<Rightarrow> if \<not> has_any (s_flags a) DYN_PRIV_ID then s_id a else NULL_PRIV_ID)"
  have u: "priv_set_sys um m rp s =
     (if \<not> RTS_ISSET (procs s rp) RTS_NO_PRIV then (- EPERM, s)
      else (case A of
              Inl r \<Rightarrow> (r, s)
            | Inr arg \<Rightarrow>
                (case get_priv rp (pid arg) s of
                   (r, s1) \<Rightarrow>
                     if r \<noteq> 0 then (r, s1)
                     else (case arg of
                             None \<Rightarrow> (0, fill_targets rp (\<lambda>i. i \<noteq> USER_PRIV_ID) [0..NR_SYS_PROCS - 1] (set_sys_start rp s s1))
                           | Some a \<Rightarrow>
                               (case priv_override rp a (set_sys_start rp s s1) of
                                  (r1, s4) \<Rightarrow> if r1 \<noteq> 0 then (r1, s4)
                                              else (0, fill_targets rp (get_sys_bit (s_ipc_to a)) [0..NR_SYS_PROCS - 1] s4)))))) "
    unfolding priv_set_sys_def set_sys_start_def A_def pid_def Let_def by (rule refl)
  obtain arg where a: "A = Inr arg"
  proof (cases A)
    case (Inl e)
    then have "e \<noteq> 0" using assms(2) by (cases "um_priv um (who_e s) (m_data6 m)") (auto simp: A_def split: if_splits)
    then show ?thesis using assms(1) Inl unfolding u by (simp split: if_splits)
  qed (rule that)
  obtain r s1 where g: "get_priv rp (pid arg) s = (r, s1)" by (cases "get_priv rp (pid arg) s")
  have r: "r = 0" using assms(1) unfolding u a by (auto simp: g split: if_splits)
  show ?thesis
  proof (cases arg)
    case None
    have "s' = fill_targets rp (\<lambda>i. i \<noteq> USER_PRIV_ID) [0..NR_SYS_PROCS - 1] (set_sys_start rp s s1)"
      using assms(1) unfolding u a None by (simp add: g [unfolded None] r split: if_splits)
    then show ?thesis using g r priv_step_refl that by blast
  next
    case (Some x)
    obtain r1 s4 where o: "priv_override rp x (set_sys_start rp s s1) = (r1, s4)" by (cases "priv_override rp x (set_sys_start rp s s1)")
    have "s' = fill_targets rp (get_sys_bit (s_ipc_to x)) [0..NR_SYS_PROCS - 1] s4"
      using assms(1) unfolding u a Some by (auto simp: g [unfolded Some] r o split: if_splits)
    moreover have "priv_step rp (set_sys_start rp s s1) s4" using priv_override_step [of rp "set_sys_start rp s s1" x] o by simp
    ultimately show ?thesis using g r that by blast
  qed
qed

lemma priv_set_sys_spec:
  assumes k: "kinv s" and l: "live s rp" and r: "priv_set_sys um m rp s = (0, s')" and u: "um_priv um (who_e s) (m_data6 m) \<noteq> Inl 0"
  shows "kinv s' \<and> (\<exists>i. p_priv (procs s' rp) = i \<and> 0 \<le> i \<and> i < NR_SYS_PROCS \<and> s_proc_nr (privs s i) = ENDPT_NONE \<and>
    s_id (privs s' i) = i \<and> s_proc_nr (privs s' i) = rp \<and> counts_ok (privs s' i) \<and>
    (\<forall>j. 0 \<le> j \<and> j < NR_SYS_PROCS \<longrightarrow> \<not> get_sys_bit (s_notify_pending (privs s' i)) j) \<and>
    \<not> get_sys_bit (s_ipc_to (privs s' i)) i \<and> (\<forall>j. j \<noteq> i \<longrightarrow> (\<exists>mk. privs s' j = (privs s j)\<lparr>s_ipc_to := mk\<rparr>)) \<and>
    (live s (who_p s) \<and> who_p s \<noteq> rp \<longrightarrow>
      s_asyntab (privs s' i) = s_asyntab (priv_of s (who_p s)) \<and> s_asynsize (privs s' i) = s_asynsize (priv_of s (who_p s))))"
proof -
  obtain pid s1 s4 f where g: "get_priv rp pid s = (0, s1)" and s': "s' = fill_targets rp f [0..NR_SYS_PROCS - 1] s4"
    and p4: "priv_step rp (set_sys_start rp s s1) s4"
    using priv_set_sys_success [OF r u] .
  define S where "S = set_sys_start rp s s1"
  obtain i V q where i: "0 \<le> i" "i < NR_SYS_PROCS" "s_proc_nr (privs s i) = ENDPT_NONE"
    and S: "S = (upd_proc rp (\<lambda>p. p\<lparr>p_priv := i\<rparr>) s)\<lparr>privs := V, clock_timers := q\<rparr>"
    and V: "\<forall>j. j \<noteq> i \<longrightarrow> V j = privs s j" "s_id (V i) = i" "s_proc_nr (V i) = rp" "counts_ok (V i)"
      "\<forall>j. 0 \<le> j \<and> j < NR_SYS_PROCS \<longrightarrow> \<not> get_sys_bit (s_notify_pending (V i)) j"
      "live s (who_p s) \<and> who_p s \<noteq> rp \<longrightarrow>
        s_asyntab (V i) = s_asyntab (priv_of s (who_p s)) \<and> s_asynsize (V i) = s_asynsize (priv_of s (who_p s))"
    using set_sys_start_spec [OF k l g] unfolding S_def by blast
  have pS: "p_priv (procs S rp) = i" "privs S = V" "priv_of S rp = V i" by (simp_all add: S priv_of_def)
  obtain x where s4: "s4 = upd_priv_of rp (\<lambda>_. x) S" and x: "same_core (V i) x" "counts_ok x"
    using p4 V(4) unfolding priv_step_def S_def [symmetric] pS by blast
  have p4: "privs s4 = V(i := x)" "p_priv (procs s4 rp) = i" "priv_of s4 rp = x"
    by (simp_all add: s4 upd_priv_of_def upd_priv_def pS priv_of_def)
  have xi: "s_id x = i" "s_proc_nr x = rp" "s_notify_pending x = s_notify_pending (V i)" "s_asyntab x = s_asyntab (V i)" "s_asynsize x = s_asynsize (V i)"
    using x(1) V by (simp_all add: same_core_def)
  obtain W where W: "s' = s4\<lparr>privs := W\<rparr>" and w: "\<forall>j. \<exists>mk. W j = (privs s4 j)\<lparr>s_ipc_to := mk\<rparr> \<and>
      (get_sys_bit mk j \<longrightarrow> get_sys_bit (s_ipc_to (privs s4 j)) j \<and> \<not> (j = i \<and> j \<in> set [0..NR_SYS_PROCS - 1]))"
    using fill_targets_spec [of s4 rp f "[0..NR_SYS_PROCS - 1]"] xi(1) unfolding s' p4 by blast
  obtain mk where mk: "W i = x\<lparr>s_ipc_to := mk\<rparr>" "\<not> get_sys_bit mk i" using w [rule_format, of i] i by (auto simp: p4)
  have wj: "\<exists>mk. W j = (privs s j)\<lparr>s_ipc_to := mk\<rparr> \<and> (get_sys_bit mk j \<longrightarrow> get_sys_bit (s_ipc_to (privs s j)) j)" if "j \<noteq> i" for j
    using w [rule_format, of j] V(1) that by (auto simp: p4)
  have e: "s' = (upd_proc rp (\<lambda>p. p\<lparr>p_priv := i\<rparr>) s)\<lparr>privs := W, clock_timers := q\<rparr>"
    by (simp add: W s4 S upd_priv_of_def upd_priv_def)
  have "kinv s'"
    unfolding e by (rule kinv_set_priv [OF k l i wj]) (use mk xi V(5) in simp_all)
  moreover have p': "privs s' = W" "p_priv (procs s' rp) = i" by (simp_all add: e)
  have "counts_ok (W i)" using x(2) by (simp add: mk counts_ok_def)
  moreover have "\<forall>j. j \<noteq> i \<longrightarrow> (\<exists>mk. W j = (privs s j)\<lparr>s_ipc_to := mk\<rparr>)" using wj by blast
  ultimately show ?thesis using i mk xi V(5,6) unfolding p' by (intro conjI exI [of _ i]) simp_all
qed

text \<open>
  C19. A new system process gets a well-formed privilege structure. If SYS_PRIV_SET_SYS succeeds, the
  kernel invariant is kept, and the process has a structure that nobody had before, that names
  it, whose tables are filled within their sizes, with no notification pending and no right to
  send to itself; the other structures keep everything but their send masks. The structure
  does, however, still hold the table of asynchronous messages of the process that made the call.
\<close>

theorem set_sys_wellformed:
  assumes k: "kinv s" and l: "live s rp" and r: "priv_set_sys um m rp s = (0, s')" and u: "um_priv um (who_e s) (m_data6 m) \<noteq> Inl 0"
  shows "kinv s' \<and> (\<exists>i. p_priv (procs s' rp) = i \<and> 0 \<le> i \<and> i < NR_SYS_PROCS \<and> s_proc_nr (privs s i) = ENDPT_NONE \<and>
    s_id (privs s' i) = i \<and> s_proc_nr (privs s' i) = rp \<and> counts_ok (privs s' i) \<and>
    (\<forall>j. 0 \<le> j \<and> j < NR_SYS_PROCS \<longrightarrow> \<not> get_sys_bit (s_notify_pending (privs s' i)) j) \<and>
    \<not> get_sys_bit (s_ipc_to (privs s' i)) i \<and> (\<forall>j. j \<noteq> i \<longrightarrow> (\<exists>mk. privs s' j = (privs s j)\<lparr>s_ipc_to := mk\<rparr>)) \<and>
    (live s (who_p s) \<and> who_p s \<noteq> rp \<longrightarrow>
      s_asyntab (privs s' i) = s_asyntab (priv_of s (who_p s)) \<and> s_asynsize (privs s' i) = s_asynsize (priv_of s (who_p s))))"
  using priv_set_sys_spec [OF assms] .

text \<open>The sample system, in which process 1 has lost its privileges and structure 31 is free.\<close>

definition sample_np :: kstate where
  "sample_np = upd_priv 31 (\<lambda>p. p\<lparr>s_proc_nr := ENDPT_NONE\<rparr>) (set_rts 1 (RTS_RECEIVING OR RTS_NO_PRIV) sample)"

lemma kinv_free_priv:
  assumes k: "kinv s" and n: "\<And>n. live s n \<Longrightarrow> p_priv (procs s n) \<noteq> i \<and> \<not> get_sys_bit (s_notify_pending (priv_of s n)) i"
  shows "kinv (upd_priv i (\<lambda>p. p\<lparr>s_proc_nr := ENDPT_NONE\<rparr>) s)" (is "kinv ?s")
proof -
  have g: "procs ?s = procs s" "rdy_head ?s = rdy_head s" "rdy_tail ?s = rdy_tail s" "proc_ptr ?s = proc_ptr s"
    "intr_off ?s = intr_off s" "locklevel ?s = locklevel s" "umsg ?s = umsg s" by (simp_all add: upd_priv_def)
  have t: "tables_ok s" using kinvD(1) [OF k] by (simp add: ksane_def)
  have v: "privs ?s j = (if j = i then (privs s j)\<lparr>s_proc_nr := ENDPT_NONE\<rparr> else privs s j)" for j by (simp add: upd_priv_def)
  have po: "priv_of ?s m = priv_of s m" if "live s m" for m using n [OF that] unfolding priv_of_def v g by simp
  have "tables_ok ?s" using t po n unfolding tables_ok_def g v by (auto split: if_splits)
  moreover have "runq_inv ?s = runq_inv s" by (rule runq_inv_cong) (simp_all add: g)
  moreover have "ipcv ?s = ipcv s" by (auto simp: ipcv_def g)
  ultimately show ?thesis using k unfolding kinv_def ksane_def free_ok_def pm_ok_def lock_ok_def g by simp
qed

lemma sample_np_kinv: "kinv sample_np"
proof -
  have l: "live sample 1" unfolding live_view by (simp add: sample_ipcv valid_nr_def)
  have f: "p_rts_flags (procs sample 1) = RTS_RECEIVING" by (simp add: sample_def sample_proc_def)
  obtain s where "RTS_LOCK_SET 1 RTS_NO_PRIV sample = Some s" "kinv s"
    using plain_set [OF sample_kinv l] plain_flags(6) by metis
  moreover have "RTS_LOCK_SET 1 RTS_NO_PRIV sample = Some (set_rts 1 (RTS_RECEIVING OR RTS_NO_PRIV) sample)"
    using RTS_quiet(1) [OF sample_lock_ok(1), of 1 RTS_NO_PRIV] by (simp add: f)
  ultimately have k: "kinv (set_rts 1 (RTS_RECEIVING OR RTS_NO_PRIV) sample)" by simp
  show ?thesis
    unfolding sample_np_def
    by (rule kinv_free_priv [OF k]) (auto simp: set_rts_def sample_def sample_proc_def sample_priv_def priv_of_def get_sys_bit_def valid_nr_def)
qed

theorem set_sys_wellformed_witness:
  "\<forall>um. \<exists>s'. priv_set_sys um msg0 1 sample_np = (0, s') \<and> kinv s' \<and> s_proc_nr (privs s' (p_priv (procs s' 1))) = 1"
proof
  fix um
  have pr: "privs sample_np j = (if j = 31 then (sample_priv j)\<lparr>s_proc_nr := ENDPT_NONE\<rparr> else sample_priv j)" for j
    by (simp add: sample_np_def upd_priv_def set_rts_def upd_proc_def sample_def)
  have "find (\<lambda>i. s_proc_nr (privs sample_np i) = ENDPT_NONE) [NR_STATIC_PRIV_IDS..NR_SYS_PROCS - 1] = Some 31"
    by (simp add: pr sample_priv_def upto.simps)
  then obtain s1 where g: "get_priv 1 NULL_PRIV_ID sample_np = (0, s1)"
    unfolding get_priv_def Let_def by simp
  have f: "RTS_ISSET (procs sample_np 1) RTS_NO_PRIV" "m_data6 msg0 = 0"
    by (simp_all add: RTS_ISSET_def sample_np_def upd_priv_def set_rts_def msg0_def)
  obtain s' where r: "priv_set_sys um msg0 1 sample_np = (0, s')"
    using g f unfolding priv_set_sys_def Let_def by simp
  have l: "live sample_np 1" by (simp add: sample_np_def upd_priv_def set_rts_def valid_nr_def)
  let ?um = "um\<lparr>um_priv := \<lambda>_ _. Inl 1\<rparr>"
  have "priv_set_sys ?um msg0 1 sample_np = priv_set_sys um msg0 1 sample_np" using f(2) unfolding priv_set_sys_def by simp
  with set_sys_wellformed [OF sample_np_kinv l, of ?um msg0 s'] r
  show "\<exists>s'. priv_set_sys um msg0 1 sample_np = (0, s') \<and> kinv s' \<and> s_proc_nr (privs s' (p_priv (procs s' 1))) = 1" by auto
qed

section \<open>The system task\<close>

definition user_priv :: "kstate \<Rightarrow> bool" where
  "user_priv s \<longleftrightarrow> (\<exists>n. live s n \<and> p_priv (procs s n) = USER_PRIV_ID)"

lemma kinv_share_priv:
  assumes k: "kinv s" and l: "live s n"
  shows "kinv (upd_proc rp (\<lambda>p. p\<lparr>p_priv := p_priv (procs s n)\<rparr>) s)" (is "kinv ?s")
proof -
  have f: "nextreadys ?s m = nextreadys s m" "p_rts_flags (procs ?s m) = p_rts_flags (procs s m)"
    "p_priority (procs ?s m) = p_priority (procs s m)" "p_max_priority (procs ?s m) = p_max_priority (procs s m)"
    "p_nr (procs ?s m) = p_nr (procs s m)" "p_misc_flags (procs ?s m) = p_misc_flags (procs s m)"
    "syscall_0x80 (procs ?s m) = syscall_0x80 (procs s m)"
    "p_priv (procs ?s m) = p_priv (procs s (if m = rp then n else m))" for m by simp_all
  have g: "rdy_head ?s = rdy_head s" "rdy_tail ?s = rdy_tail s" "proc_ptr ?s = proc_ptr s" "privs ?s = privs s"
    "intr_off ?s = intr_off s" "locklevel ?s = locklevel s" "umsg ?s = umsg s"
    by (simp_all add: upd_proc_def)
  have t: "tables_ok s" using kinvD(1) [OF k] by (simp add: ksane_def)
  have po: "priv_of ?s m = priv_of s (if m = rp then n else m)" for m unfolding priv_of_def g f ..
  have lm: "live s (if m = rp then n else m)" if "live s m" for m using that l by (cases "m = rp") simp_all
  have "tables_ok ?s" using t lm unfolding tables_ok_def po f g by meson
  moreover have "runq_inv ?s = runq_inv s" by (rule runq_inv_cong) (simp_all add: f g)
  moreover have "ipcv ?s = ipcv s" by (auto simp: ipcv_def ipcp_def upd_proc_def)
  ultimately show ?thesis
    using k unfolding kinv_def ksane_def free_ok_def pm_ok_def lock_ok_def f g by simp
qed

lemma do_privctl_keeps:
  assumes k: "kinv s" and w: "live s (who_p s)" and u: "user_priv s"
    and g: "m_data2 m = SYS_PRIV_SET_SYS \<Longrightarrow> um_priv um (who_e s) (m_data6 m) \<noteq> Inl 0 \<and>
      (\<forall>rp. fst (priv_set_sys um m rp s) \<noteq> 0 \<longrightarrow> snd (priv_set_sys um m rp s) = s)"
  shows "keeps (do_privctl um m s)"
proof (cases "has_any (s_flags (priv_of s (who_p s))) SYS_PROC")
  case sysp: True
  show ?thesis
  proof (cases "if m_data1 m = ENDPT_SELF then Some (who_p s) else isokendpt s (m_data1 m)")
    case None
    then show ?thesis using k sysp by (simp add: do_privctl_def)
  next
    case (Some rp)
    have l: "live s rp" using Some w isokendptD(2) [OF kinvD(1) [OF k]] by (auto split: if_splits)
    obtain s1 where r1: "RTS_LOCK_SET rp RTS_NO_PRIV s = Some s1" "kinv s1" using plain_set [OF k l] plain_flags(6) by metis
    obtain s2 where r2: "RTS_LOCK_UNSET rp RTS_NO_PRIV s = Some s2" "kinv s2" using plain_unset [OF k l] plain_flags(6) by metis
    obtain n where n: "live s n" "p_priv (procs s n) = USER_PRIV_ID" using u by (auto simp: user_priv_def)
    have k3: "kinv (upd_proc rp (\<lambda>p. p\<lparr>p_priv := USER_PRIV_ID\<rparr>) s)" using kinv_share_priv [OF k n(1)] n(2) by simp
    have k4: "kinv (snd (priv_add_io x rp s))" for x by (simp add: priv_add_io_def Let_def kinv_upd_priv k)
    have k5: "kinv (snd (priv_add_mem x rp s))" for x by (simp add: priv_add_mem_def Let_def kinv_upd_priv k)
    have k6: "kinv (snd (priv_add_irq x rp s))" for x by (simp add: priv_add_irq_def Let_def kinv_upd_priv k)
    have k7: "kinv (snd (priv_set_sys um m rp s))" if "m_data2 m = SYS_PRIV_SET_SYS"
    proof (cases "fst (priv_set_sys um m rp s) = 0")
      case True
      then obtain s7 where s7: "priv_set_sys um m rp s = (0, s7)" by (cases "priv_set_sys um m rp s") simp
      from priv_set_sys_spec [OF k l s7] g [OF that] show ?thesis by (simp add: s7)
    qed (use g [OF that] k in simp)
    have d: "keeps (case x of (r, s') \<Rightarrow> ret r m s')" if "kinv (snd x)" for x :: "int \<times> kstate" using that by (cases x) simp
    show ?thesis
      unfolding do_privctl_def Some option.case Let_def if_P [OF sysp] not_not
      using k k3 k4 k5 k6 k7 r1 r2 d by (auto split: sum.splits)
  qed
qed (use k in \<open>simp add: do_privctl_def\<close>)

text \<open>
  The requests covered: signals, tracing and stopping must not be aimed at the process manager, and
  a failing SYS_PRIV_SET_SYS must fail before it allocates a structure.
\<close>

definition safe_request :: "umem \<Rightarrow> kipc_msg \<Rightarrow> kstate \<Rightarrow> int \<Rightarrow> bool" where
  "safe_request um m s call \<longleftrightarrow>
     call \<in> {3, 7, 8, 11, 24, 25, 34, 39, 45} \<or>
     isokendpt s (m_data1 m) \<noteq> Some PM_PROC_NR \<and>
       (call = 46 \<or> call = 5 \<and> trace_control (m_data2 m) \<or>
        call = 6 \<and> (m_data2 m = SIGKILL \<longrightarrow> m_data1 m \<notin> {PM_PROC_NR, VFS_PROC_NR, VM_PROC_NR})) \<or>
     call = 4 \<and> (m_data2 m = SYS_PRIV_SET_SYS \<longrightarrow> um_priv um (who_e s) (m_data6 m) \<noteq> Inl 0 \<and>
       (\<forall>rp. fst (priv_set_sys um m rp s) \<noteq> 0 \<longrightarrow> snd (priv_set_sys um m rp s) = s))"

lemma do_setalarm_keeps:
  assumes k: "kinv s" and t: "timers_ok s"
  shows "keeps (do_setalarm m s)"
proof (cases "has_any (s_flags (priv_of s (who_p s))) SYS_PROC")
  case True
  obtain xs where "timer_queue (clock_timers s) xs" using t by (auto simp: timers_ok_def)
  from do_setalarm_spec [OF k this True, of m] show ?thesis by (auto simp: keeps_def)
qed (use k in \<open>simp add: do_setalarm_def\<close>)

lemma call_vec_keeps:
  assumes k: "kinv s" and t: "timers_ok s" and w: "live s (who_p s)" and u: "user_priv s" and r: "safe_request um m s call"
  shows "keeps (call_vec um other call m s)"
proof -
  consider "call = 3" | "call = 7" | "call = 8" | "call = 11" | "call = 24" | "call = 25" | "call = 34" | "call = 39" | "call = 45"
    | "isokendpt s (m_data1 m) \<noteq> Some PM_PROC_NR" "call = 46"
    | "isokendpt s (m_data1 m) \<noteq> Some PM_PROC_NR" "call = 5" "trace_control (m_data2 m)"
    | "isokendpt s (m_data1 m) \<noteq> Some PM_PROC_NR" "call = 6" "m_data2 m = SIGKILL \<longrightarrow> m_data1 m \<notin> {PM_PROC_NR, VFS_PROC_NR, VM_PROC_NR}"
    | "call = 4" "m_data2 m = SYS_PRIV_SET_SYS \<longrightarrow> um_priv um (who_e s) (m_data6 m) \<noteq> Inl 0 \<and>
       (\<forall>rp. fst (priv_set_sys um m rp s) \<noteq> 0 \<longrightarrow> snd (priv_set_sys um m rp s) = s)"
    using r unfolding safe_request_def by blast
  then show ?thesis
  proof cases
    case 1 then show ?thesis using do_nice_keeps [OF k] by (simp add: call_vec_def)
  next
    case 2 then show ?thesis using do_getksig_keeps [OF k] by (simp add: call_vec_def)
  next
    case 3 then show ?thesis using do_endksig_keeps [OF k] by (simp add: call_vec_def)
  next
    case 4 then show ?thesis using do_newmap_keeps [OF k] by (simp add: call_vec_def)
  next
    case 5 then show ?thesis using do_setalarm_keeps [OF k t] by (simp add: call_vec_def)
  next
    case 6 then show ?thesis using do_times_keeps [OF k] by (simp add: call_vec_def)
  next
    case 7 then show ?thesis using do_setgrant_keeps [OF k, of m] by (cases "do_setgrant m s") (simp add: call_vec_def)
  next
    case 8 then show ?thesis using do_stime_keeps [OF k] by (simp add: call_vec_def)
  next
    case 9 then show ?thesis using do_vtimer_keeps [OF k] by (simp add: call_vec_def)
  next
    case 10 then show ?thesis using do_runctl_keeps [OF k] by (simp add: call_vec_def)
  next
    case 11 then show ?thesis using do_trace_keeps [OF k] by (simp add: call_vec_def)
  next
    case 12
    then have "keeps (do_kill m s)" using do_kill_keeps [OF k 12(1)] by blast
    then show ?thesis using 12 by (simp add: call_vec_def)
  next
    case 13
    then have "keeps (do_privctl um m s)" using do_privctl_keeps [OF k w u] by blast
    then show ?thesis using 13 by (simp add: call_vec_def)
  qed
qed



text \<open>
  C21. Calls that are not allowed have no effect. A request with a number outside of the table of calls,
  or one that the call mask of its sender does not contain, is answered with an error; so are
  requests to set alarms, virtual timers and privileges from a process that is not a system process. In
  all these cases the message is left as it is and the state changes only in the note of who asked.
\<close>

theorem denied_calls_inert:
  assumes "isokendpt s (m_source m) = Some p"
    and "call = wrap32 (m_type m - KERNEL_CALL)"
    and "call < 0 \<or> NR_SYS_CALLS \<le> call \<or> \<not> get_sys_bit (s_k_call_mask (priv_of s p)) call \<or>
      call \<in> {4, 24, 45} \<and> \<not> has_any (s_flags (priv_of s p)) SYS_PROC"
  shows "\<exists>r < 0. sys_dispatch um other m s = Some (r, m, s\<lparr>who_e := m_source m, who_p := p\<rparr>)"
proof -
  let ?s = "s\<lparr>who_e := m_source m, who_p := p\<rparr>"
  have ok: "okendpt (s\<lparr>who_e := m_source m\<rparr>) (m_source m) = Some p"
    using assms(1) by (simp add: okendpt_def isokendpt_def Let_def split: if_splits)
  have po: "priv_of ?s p = priv_of s p" by (simp add: priv_of_def)
  have d: "sys_dispatch um other m s =
    (if call < 0 \<or> call \<ge> NR_SYS_CALLS then ret (- EBADREQUEST) m ?s
     else if \<not> get_sys_bit (s_k_call_mask (priv_of s p)) call then ret (- ECALLDENIED) m ?s
     else call_vec um other call m ?s)"
    unfolding sys_dispatch_def Let_def ok by (simp add: assms(2) po)
  have "\<exists>r < 0. call_vec um other call m ?s = ret r m ?s" if "call \<in> {4, 24, 45}" "\<not> has_any (s_flags (priv_of s p)) SYS_PROC"
  proof -
    have "call = 4 \<or> call = 24 \<or> call = 45" using that(1) by simp
    then show ?thesis using that(2) po
      by (elim disjE) (auto simp: call_vec_def do_privctl_def do_setalarm_def do_vtimer_def Let_def)
  qed
  then show ?thesis using assms(3) unfolding d by auto
qed

theorem denied_calls_inert_witness:
  "\<forall>um other. \<exists>r < 0. sys_dispatch um other (msg0\<lparr>m_type := 0x604, m_source := 11\<rparr>) sample =
     Some (r, msg0\<lparr>m_type := 0x604, m_source := 11\<rparr>, sample\<lparr>who_e := 11, who_p := 11\<rparr>)"
proof (intro allI)
  fix um other
  let ?m = "msg0\<lparr>m_type := 0x604, m_source := 11\<rparr>"
  have ok: "isokendpt sample (m_source ?m) = Some 11"
    using isokendpt_view [OF kinvD(1) [OF sample_kinv], of 11] by (simp add: sample_ipcv ENDPOINT_P_small valid_nr_def)
  have "\<not> has_any (s_flags (priv_of sample 11)) SYS_PROC" by (simp add: priv_of_def sample_def sample_proc_def sample_priv_def)
  with denied_calls_inert [OF ok refl, of um other]
  show "\<exists>r < 0. sys_dispatch um other ?m sample = Some (r, ?m, sample\<lparr>who_e := 11, who_p := 11\<rparr>)" by (simp add: wrap32_id)
qed

end
