(* ===== verification/Kernel_Calls_Facts.thy ===== *)
theory Kernel_Calls_Facts
  imports Kernel_Calls_Safe
begin

text \<open>
  What single kernel calls do for their callers: priorities, alarms, the hand-over of signals to
  the process manager, and how setting privileges fails.
\<close>

section \<open>Signals\<close>

lemma sched_view_signals:
  assumes "sched_view s' = sched_view s"
  shows "p_pending (procs s' n) = p_pending (procs s n)"
    "RTS_ISSET (procs s' n) RTS_SIGNALED = RTS_ISSET (procs s n) RTS_SIGNALED"
proof -
  have e: "procs (sched_view s') n = procs (sched_view s) n" using assms by simp
  show "p_pending (procs s' n) = p_pending (procs s n)"
    using arg_cong [OF e, of p_pending] by (simp add: sched_view_def)
  have f: "p_rts_flags (procs s' n) AND NOT RTS_PREEMPTED = p_rts_flags (procs s n) AND NOT RTS_PREEMPTED"
    using arg_cong [OF e, of p_rts_flags] by (simp add: sched_view_def)
  have d: "RTS_PREEMPTED AND RTS_SIGNALED = 0" by simp
  have "p_rts_flags (procs s' n) AND RTS_SIGNALED = p_rts_flags (procs s n) AND RTS_SIGNALED"
    by (rule box_equals [OF arg_cong [OF f, of "\<lambda>w. w AND RTS_SIGNALED"] and_not_disjoint [OF d] and_not_disjoint [OF d]])
  then show "RTS_ISSET (procs s' n) RTS_SIGNALED = RTS_ISSET (procs s n) RTS_SIGNALED" by (simp add: RTS_ISSET_def)
qed

text \<open>
  C38. Signals are handed over completely and one process at a time. If a process has signals
  pending, the call of the process manager returns the first such process with its whole
  set of pending signals, clears exactly that set and its mark, and leaves the signals and marks of
  all others alone; the reply names no process only if there is none. The invariant is kept.
\<close>

theorem getksig_hands_over:
  assumes k: "kinv s"
  shows "\<exists>m' s'. do_getksig m s = Some (0, m', s') \<and> kinv s' \<and>
    ((\<exists>n. 0 \<le> n \<and> n < NR_PROCS \<and> RTS_ISSET (procs s n) RTS_SIGNALED \<and> (\<forall>j. 0 \<le> j \<and> j < n \<longrightarrow> \<not> RTS_ISSET (procs s j) RTS_SIGNALED) \<and>
        m_data1 m' = p_endpoint (procs s n) \<and> m_data4 m' = sint (p_pending (procs s n)) \<and>
        p_pending (procs s' n) = 0 \<and> \<not> RTS_ISSET (procs s' n) RTS_SIGNALED \<and>
        (\<forall>j. j \<noteq> n \<longrightarrow> p_pending (procs s' j) = p_pending (procs s j) \<and>
          RTS_ISSET (procs s' j) RTS_SIGNALED = RTS_ISSET (procs s j) RTS_SIGNALED)) \<or>
     m_data1 m' = ENDPT_NONE \<and> s' = s \<and> (\<forall>j. 0 \<le> j \<and> j < NR_PROCS \<longrightarrow> \<not> RTS_ISSET (procs s j) RTS_SIGNALED))"
proof (cases "find (\<lambda>rp. RTS_ISSET (procs s rp) RTS_SIGNALED) [0..NR_PROCS - 1]")
  case None
  then have "\<not> RTS_ISSET (procs s j) RTS_SIGNALED" if "0 \<le> j \<and> j < NR_PROCS" for j
    using that by (auto simp: find_None_iff)
  moreover have "do_getksig m s = Some (0, m\<lparr>m_data1 := ENDPT_NONE\<rparr>, s)" unfolding do_getksig_def None by simp
  ultimately show ?thesis using k by (intro exI [of _ "m\<lparr>m_data1 := ENDPT_NONE\<rparr>"] exI [of _ s] conjI disjI2) auto
next
  case (Some n)
  then obtain i where i: "i < nat NR_PROCS" "n = int i" and f: "RTS_ISSET (procs s n) RTS_SIGNALED"
    and b: "\<And>j. j < i \<Longrightarrow> \<not> RTS_ISSET (procs s (int j)) RTS_SIGNALED"
    by (auto simp: find_Some_iff simp del: RTS_ISSET_view)
  have r: "0 \<le> n" "n < NR_PROCS" using i by auto
  have b': "\<not> RTS_ISSET (procs s j) RTS_SIGNALED" if "0 \<le> j \<and> j < n" for j using b [of "nat j"] that i(2) by (simp add: nat_less_iff)
  let ?s = "upd_proc n (\<lambda>p. p\<lparr>p_pending := 0\<rparr>) s"
  have k1: "kinv ?s" by (rule kinv_pending [OF k])
  have v: "valid_nr n" using r by (simp add: valid_nr_def)
  have l: "live ?s n" using signaled_live [OF kinvD(1) [OF k] v f] by simp
  obtain s' where r': "RTS_LOCK_UNSET n RTS_SIGNALED ?s = Some s'" and k': "kinv s'" using plain_unset [OF k1 l] plain_flags(3) by metis
  have "lock_ok ?s" using kinvD(1) [OF k1] by (simp add: ksane_def)
  then have "RTS_UNSET n RTS_SIGNALED ?s = Some s'" using r' by (simp add: RTS_LOCK_UNSET_eq)
  note w = sched_view_signals [OF RTS_UNSET_sched_view [OF this]]
  let ?m = "m\<lparr>m_data1 := p_endpoint (procs s n), m_data4 := sint (p_pending (procs s n))\<rparr>"
  have run: "do_getksig m s = Some (0, ?m, s')" unfolding do_getksig_def Some option.case Let_def using r' by simp
  have g: "p_pending (procs s' j) = (if j = n then 0 else p_pending (procs s j))" for j
    unfolding w(1) by (simp add: set_rts_def)
  have h: "RTS_ISSET (procs s' j) RTS_SIGNALED \<longleftrightarrow> j \<noteq> n \<and> RTS_ISSET (procs s j) RTS_SIGNALED" for j
    unfolding w(2) unfolding RTS_ISSET_def by (auto simp: set_rts_def and.assoc)
  show ?thesis
    by (intro exI [of _ ?m] exI [of _ s'] conjI disjI1 exI [of _ n] run k' r f) (use b' in \<open>simp_all add: g h\<close>)
qed

theorem getksig_hands_over_witness:
  "\<exists>m' s'. do_getksig msg0 sample = Some (0, m', s') \<and> kinv s' \<and> m_data1 m' = ENDPT_NONE"
proof -
  have "\<not> RTS_ISSET (procs sample n) RTS_SIGNALED" for n
    by (simp add: RTS_ISSET_def sample_def sample_proc_def)
  then show ?thesis using getksig_hands_over [OF sample_kinv, of msg0] by fastforce
qed

section \<open>Priorities\<close>

text \<open>
  Nice values map onto the scheduling queues. For every nice value between -20 and 20
  the call sets the best queue of a user process to the matching fraction of the 16 queues, which is a
  queue that exists, and keeps the invariant; every other value is refused without effect.
\<close>

lemma nice_sets_queue:
  assumes "kinv s" and "isokendpt s (m_data1 m) = Some n" and "\<not> iskerneln n"
  shows "if PRIO_MIN \<le> m_data2 m \<and> m_data2 m \<le> PRIO_MAX
    then \<exists>s'. do_nice m s = Some (0, m, s') \<and> kinv s' \<and> p_max_priority (procs s' n) = (m_data2 m + 20) * 16 div 41 \<and>
      0 \<le> p_max_priority (procs s' n) \<and> p_max_priority (procs s' n) < NR_SCHED_QUEUES
    else do_nice m s = Some (- EINVAL, m, s)"
proof (cases "PRIO_MIN \<le> m_data2 m \<and> m_data2 m \<le> PRIO_MAX")
  case True
  obtain s' where "do_nice m s = ret 0 m s'" "kinv s'" "p_max_priority (procs s' n) = nice_queue (m_data2 m)"
    using do_nice_spec [OF assms] True by blast
  moreover have "nice_queue (m_data2 m) = (m_data2 m + 20) * 16 div 41" using nice_queue_exact True by blast
  ultimately show ?thesis using True nice_queue_range [of "m_data2 m"] by auto
next
  case False
  then have "do_nice m s = Some (- EINVAL, m, s)" using assms(2,3) by (auto simp: do_nice_def)
  then show ?thesis using False by (simp only: if_False)
qed

lemma nice_sets_queue_witness:
  "\<exists>s'. do_nice (msg0\<lparr>m_data1 := 11, m_data2 := 5\<rparr>) sample = Some (0, msg0\<lparr>m_data1 := 11, m_data2 := 5\<rparr>, s') \<and>
     p_max_priority (procs s' 11) = 9"
proof -
  have "isokendpt sample 11 = Some 11"
    using isokendpt_view [OF kinvD(1) [OF sample_kinv], of 11] by (simp add: sample_ipcv ENDPOINT_P_small valid_nr_def)
  then show ?thesis using nice_sets_queue [OF sample_kinv, of "msg0\<lparr>m_data1 := 11, m_data2 := 5\<rparr>" 11] by (auto simp: iskerneln_def)
qed

section \<open>Alarms\<close>

text \<open>
  C39. Setting an alarm arms exactly the caller's timer. A system process that asks for an alarm
  gets back the time its previous alarm still had to go; its timer is taken from the queue and, unless the
  time is zero, put back in order of expiry, at the absolute time or that many ticks from now, to
  notify the caller; other timers and everything else stay as they are.
\<close>

theorem setalarm_arms:
  assumes "kinv s" and "timer_queue (clock_timers s) xs" and "has_any (s_flags (priv_of s (who_p s))) SYS_PROC"
    and "tp = Alarm (p_priv (procs s (who_p s)))" and "\<And>x. old x = tmr_exp_time (tmr (clock_timers s) x)"
    and "t = (if m_data2 m \<noteq> 0 then m_data4 m else wrap32 (m_data4 m + realtime s))"
  shows "\<exists>s'. do_setalarm m s =
      Some (0, m\<lparr>m_data4 := (if old tp \<noteq> TMR_NEVER \<and> realtime s < old tp then old tp - realtime s else 0)\<rparr>, s') \<and>
    kinv s' \<and> timers_ok s' \<and> timer_view s' = timer_view s \<and>
    (if m_data4 m = 0 then timer_queue (clock_timers s') (remove1 tp xs)
     else timer_queue (clock_timers s') (timer_insert old tp t (remove1 tp xs)) \<and>
       tmr_exp_time (tmr (clock_timers s') tp) = t \<and>
       tmr_func (tmr (clock_timers s') tp) = WD_cause_alarm \<and> tmr_arg (tmr (clock_timers s') tp) = m_source m)"
proof -
  have "old = (\<lambda>x. tmr_exp_time (tmr (clock_timers s) x))" using assms(5) by blast
  then show ?thesis unfolding assms(4,6) by (simp only: do_setalarm_spec [OF assms(1-3)])
qed

theorem setalarm_arms_witness:
  "\<exists>s'. do_setalarm (msg0\<lparr>m_data4 := 60\<rparr>) sample = Some (0, msg0, s') \<and> kinv s' \<and>
     timer_queue (clock_timers s') [Alarm 4] \<and> tmr_exp_time (tmr (clock_timers s') (Alarm 4)) = 60"
proof -
  have q: "timer_queue (clock_timers sample) []" by (simp add: timer_queue_def sample_def)
  have p: "has_any (s_flags (priv_of sample (who_p sample))) SYS_PROC"
    by (simp add: priv_of_def sample_def sample_proc_def sample_priv_def)
  have f: "p_priv (procs sample (who_p sample)) = 4" "realtime sample = 0" "tmr_exp_time (tmr (clock_timers sample) x) = TMR_NEVER" for x
    by (simp_all add: sample_def sample_proc_def)
  have "msg0\<lparr>m_data4 := 60, m_data4 := 0\<rparr> = msg0" by (simp add: msg0_def)
  then show ?thesis
    using setalarm_arms [OF sample_kinv q p refl refl refl, of "msg0\<lparr>m_data4 := 60\<rparr>"]
    by (auto simp: f wrap32_id timer_insert_def)
qed

section \<open>Refused privileges\<close>

text \<open>
  C40. A refused request for privileges fails open. If the privileges a process is to get are
  refused because their interrupt table is too long, the process is nevertheless left with a
  structure of its own that allows all traps and all kernel calls, and a request to let the
  process run is then granted.
\<close>

theorem set_sys_fails_open:
  assumes k: "kinv s" and l: "live s rp" and np: "RTS_ISSET (procs s rp) RTS_NO_PRIV" and w: "who_p s \<noteq> rp" "live s (who_p s)"
    and a: "um_priv um (who_e s) (m_data6 m) = Inr a" "m_data6 m \<noteq> 0" "has_any (s_flags a) CHECK_IRQ" "NR_IRQ < s_nr_irq a" "has_any (s_flags a) DYN_PRIV_ID"
    and g: "get_priv rp NULL_PRIV_ID s = (0, s1)" and c: "has_any (s_flags (priv_of s (who_p s))) SYS_PROC"
    and e: "p_endpoint (procs s rp) \<noteq> ENDPT_SELF"
  shows "\<exists>s'. priv_set_sys um m rp s = (- EINVAL, s') \<and> s_trap_mask (priv_of s' rp) = 0xffff \<and>
    s_k_call_mask (priv_of s' rp) = (\<lambda>_. 0xffff) \<and>
    (\<forall>m2. m_data1 m2 = p_endpoint (procs s rp) \<and> m_data2 m2 = SYS_PRIV_ALLOW \<longrightarrow> (\<exists>s''. do_privctl um m2 s' = Some (0, m2, s'')))"
proof -
  define S where "S = set_sys_start rp s s1"
  define s' where "s' = upd_priv_of rp (\<lambda>p. p\<lparr>s_flags := s_flags a\<rparr>) S"
  have run: "priv_set_sys um m rp s = (- EINVAL, s')"
    using np a g unfolding priv_set_sys_def set_sys_start_def [symmetric] Let_def
    by (simp add: priv_override_def S_def s'_def set_sys_start_def Let_def)
  obtain i V q where i: "s_proc_nr (privs s i) = ENDPT_NONE"
    and S: "S = (upd_proc rp (\<lambda>p. p\<lparr>p_priv := i\<rparr>) s)\<lparr>privs := V, clock_timers := q\<rparr>"
    and V: "\<forall>j. j \<noteq> i \<longrightarrow> V j = privs s j" "s_proc_nr (V i) = rp"
    using set_sys_start_spec [OF k l g] unfolding S_def by blast
  have x: "priv_of S rp = priv_default rp (priv_of s1 (who_p s)) (priv_of s1 rp)"
    by (simp add: S_def set_sys_start_def Let_def upd_ktmr_def upd_priv_of_def upd_priv_def priv_of_def)
  have pS: "p_priv (procs S rp) = i" "privs S = V" by (simp_all add: S)
  have p': "priv_of s' rp = (priv_of S rp)\<lparr>s_flags := s_flags a\<rparr>" "s_proc_nr (priv_of s' rp) = rp"
    using V(2) by (simp_all add: s'_def upd_priv_of_def upd_priv_def priv_of_def pS)
  have t: "s_trap_mask (priv_of s' rp) = 0xffff" "s_k_call_mask (priv_of s' rp) = (\<lambda>_. 0xffff)"
    by (simp_all add: p' x priv_default_def)
  have tb: "tables_ok s" using kinvD(1) [OF k] by (simp add: ksane_def)
  then have "valid_nr (s_proc_nr (priv_of s (who_p s)))" using w(2) by (simp add: tables_ok_def)
  then have ni: "p_priv (procs s (who_p s)) \<noteq> i" using i by (auto simp: priv_of_def valid_nr_def)
  have f: "procs s' = (procs s)(rp := (procs s rp)\<lparr>p_priv := i\<rparr>)" "who_p s' = who_p s" "intr_off s' = intr_off s" "locklevel s' = locklevel s"
    "rdy_head s' = rdy_head s" "rdy_tail s' = rdy_tail s" "proc_ptr s' = proc_ptr s"
    by (simp_all add: s'_def upd_priv_of_def upd_priv_def S upd_proc_def)
  have c': "has_any (s_flags (priv_of s' (who_p s'))) SYS_PROC"
    using c w(1) ni V(1) by (simp add: priv_of_def f) (simp add: s'_def upd_priv_of_def upd_priv_def pS)
  have ok: "isokendpt s' (p_endpoint (procs s rp)) = Some rp"
  proof -
    have "ENDPOINT_P (p_endpoint (procs s rp)) = rp" "valid_nr rp" "\<not> i_empty (ipcv s rp)"
      using l blocked_okD(6) [OF kinvD(4) [OF k], of rp] unfolding live_view by (simp_all add: ipcv_sel)
    then have "isokendpt s (p_endpoint (procs s rp)) = Some rp"
      using isokendpt_view [OF kinvD(1) [OF k], of "p_endpoint (procs s rp)"] by (simp add: ipcv_sel)
    moreover have "isokendpt s' x = isokendpt s x" for x by (simp add: isokendpt_def f isemptyp_def Let_def)
    ultimately show ?thesis by simp
  qed
  have vr: "valid_nr rp" and lo: "lock_ok s'" using l kinvD(1) [OF k] by (simp_all add: ksane_def lock_ok_def f)
  have rq: "runq_inv s'" using k runq_inv_cong [of s' s] by (simp add: kinv_def f)
  obtain s'' where r: "RTS_LOCK_UNSET rp RTS_NO_PRIV s' = Some s''"
    using RTS_UNSET_inv [OF rq vr, of RTS_NO_PRIV] unfolding RTS_LOCK_UNSET_eq [OF lo] by blast
  have n': "RTS_ISSET (procs s' rp) RTS_NO_PRIV" using np by (simp add: f RTS_ISSET_def del: RTS_ISSET_view)
  have "s_proc_nr (priv_of s' rp) \<noteq> ENDPT_NONE" using p'(2) vr by (auto simp: valid_nr_def)
  then have "do_privctl um m2 s' = Some (0, m2, s'')" if "m_data1 m2 = p_endpoint (procs s rp) \<and> m_data2 m2 = SYS_PRIV_ALLOW" for m2
    using that c' ok e r n' by (simp add: do_privctl_def)
  then show ?thesis using run t by blast
qed

definition sample_um :: umem where
  "sample_um = \<lparr>um_map = (\<lambda>_ _. Inl 1),
     um_priv = (\<lambda>_ _. Inr ((sample_priv 5)\<lparr>s_flags := CHECK_IRQ OR DYN_PRIV_ID, s_nr_irq := 5\<rparr>)),
     um_io = (\<lambda>_ _. Inl 1), um_mem = (\<lambda>_ _. Inl 1), um_irq = (\<lambda>_ _. Inl 1), um_lin = (\<lambda>_. 0),
     um_junk = (\<lparr>ior_base = 0, ior_limit = 0\<rparr>, 0)\<rparr>"

theorem set_sys_fails_open_witness:
  "\<exists>s'. priv_set_sys sample_um (msg0\<lparr>m_data6 := 64\<rparr>) 1 sample_np = (- EINVAL, s') \<and> s_k_call_mask (priv_of s' 1) = (\<lambda>_. 0xffff)"
proof -
  have pr: "privs sample_np j = (if j = 31 then (sample_priv j)\<lparr>s_proc_nr := ENDPT_NONE\<rparr> else sample_priv j)" for j
    by (simp add: sample_np_def upd_priv_def set_rts_def upd_proc_def sample_def)
  have "find (\<lambda>i. s_proc_nr (privs sample_np i) = ENDPT_NONE) [NR_STATIC_PRIV_IDS..NR_SYS_PROCS - 1] = Some 31"
    by (simp add: pr sample_priv_def upto.simps)
  then obtain s1 where g: "get_priv 1 NULL_PRIV_ID sample_np = (0, s1)"
    unfolding get_priv_def Let_def by simp
  have f: "RTS_ISSET (procs sample_np 1) RTS_NO_PRIV" "live sample_np 1" "who_p sample_np \<noteq> 1" "live sample_np (who_p sample_np)"
    "p_endpoint (procs sample_np 1) \<noteq> ENDPT_SELF"
    by (simp_all add: RTS_ISSET_def sample_np_def upd_priv_def set_rts_def valid_nr_def upd_proc_def sample_def sample_proc_def
        del: RTS_ISSET_view)
  have c: "has_any (s_flags (priv_of sample_np (who_p sample_np))) SYS_PROC"
    by (simp add: priv_of_def pr) (simp add: sample_np_def upd_priv_def set_rts_def upd_proc_def sample_def sample_proc_def sample_priv_def)
  let ?a = "(sample_priv 5)\<lparr>s_flags := CHECK_IRQ OR DYN_PRIV_ID, s_nr_irq := 5\<rparr>"
  have a: "um_priv sample_um (who_e sample_np) (m_data6 (msg0\<lparr>m_data6 := 64\<rparr>)) = Inr ?a" by (simp add: sample_um_def)
  show ?thesis using set_sys_fails_open [OF sample_np_kinv f(2,1,3,4) a _ _ _ _ g c f(5)] by auto
qed

end
