(* ===== verification/Lib_String.thy ===== *)
theory Lib_String
  imports Nucleos_Prelude
begin

unbundle bit_operations_syntax

text \<open>
  The string library \<^verbatim>\<open>lib/string.c\<close> and the character classes of \<^verbatim>\<open>lib/ctype.c\<close>. Memory is a function
  from addresses to bytes, pointers are addresses, a routine that writes returns the new memory. A loop that
  only ends at a terminator is a partial function, whose value is \<^term>\<open>None\<close> if there is no
  terminator. Lengths are natural numbers of at most 32 bits.
\<close>

type_synonym mem = "int \<Rightarrow> 8 word"

section \<open>Character classes\<close>

abbreviation (input) CT_U :: "8 word" where "CT_U \<equiv> 0x01"
abbreviation (input) CT_L :: "8 word" where "CT_L \<equiv> 0x02"
abbreviation (input) CT_D :: "8 word" where "CT_D \<equiv> 0x04"
abbreviation (input) CT_C :: "8 word" where "CT_C \<equiv> 0x08"
abbreviation (input) CT_P :: "8 word" where "CT_P \<equiv> 0x10"
abbreviation (input) CT_S :: "8 word" where "CT_S \<equiv> 0x20"
abbreviation (input) CT_X :: "8 word" where "CT_X \<equiv> 0x40"
abbreviation (input) CT_SP :: "8 word" where "CT_SP \<equiv> 0x80"

text \<open>The table \<^verbatim>\<open>__ctype\<close>, row by row.\<close>

definition ctype_tab :: "8 word list" where
  "ctype_tab =
     replicate 8 CT_C @
     [CT_C, CT_C OR CT_S, CT_C OR CT_S, CT_C OR CT_S, CT_C OR CT_S, CT_C OR CT_S, CT_C, CT_C] @
     replicate 8 CT_C @
     replicate 8 CT_C @
     (CT_S OR CT_SP) # replicate 7 CT_P @
     replicate 8 CT_P @
     replicate 8 CT_D @
     [CT_D, CT_D] @ replicate 6 CT_P @
     CT_P # replicate 6 (CT_U OR CT_X) @ [CT_U] @
     replicate 8 CT_U @
     replicate 8 CT_U @
     replicate 3 CT_U @ replicate 5 CT_P @
     CT_P # replicate 6 (CT_L OR CT_X) @ [CT_L] @
     replicate 8 CT_L @
     replicate 8 CT_L @
     replicate 3 CT_L @ replicate 4 CT_P @ [CT_C] @
     replicate 16 0 @
     replicate 16 0 @
     (CT_S OR CT_SP) # replicate 15 CT_P @
     replicate 16 CT_P @
     replicate 16 CT_U @
     replicate 7 CT_U @ [CT_P] @ replicate 7 CT_U @ [CT_L] @
     replicate 16 CT_L @
     replicate 7 CT_L @ [CT_P] @ replicate 8 CT_L"

definition ismask :: "8 word \<Rightarrow> 8 word" where
  "ismask c = ctype_tab ! unat c"

definition isspace :: "8 word \<Rightarrow> bool" where "isspace c \<longleftrightarrow> has_any (ismask c) CT_S"
definition isupper :: "8 word \<Rightarrow> bool" where "isupper c \<longleftrightarrow> has_any (ismask c) CT_U"
definition islower :: "8 word \<Rightarrow> bool" where "islower c \<longleftrightarrow> has_any (ismask c) CT_L"
definition isxdigit :: "8 word \<Rightarrow> bool" where "isxdigit c \<longleftrightarrow> has_any (ismask c) (CT_D OR CT_X)"

definition tolower :: "8 word \<Rightarrow> 8 word" where
  "tolower c = (if isupper c then c - (0x41 - 0x61) else c)"

definition toupper :: "8 word \<Rightarrow> 8 word" where
  "toupper c = (if islower c then c - (0x61 - 0x41) else c)"

text \<open>\<^verbatim>\<open>_tolower\<close>, the fast version.\<close>

definition tolower_fast :: "8 word \<Rightarrow> 8 word" where
  "tolower_fast c = c OR 0x20"

section \<open>Comparing\<close>

definition diff :: "8 word \<Rightarrow> 8 word \<Rightarrow> int" where
  "diff c1 c2 = uint c1 - uint c2"

text \<open>
  The body of the loop of \<^verbatim>\<open>strnicmp\<close>: whether it breaks, and the difference it leaves. The loop
  takes the length after it has been decreased.
\<close>

definition strnicmp_body :: "8 word \<Rightarrow> 8 word \<Rightarrow> bool \<times> int" where
  "strnicmp_body c1 c2 =
     (if c1 = 0 \<or> c2 = 0 then (True, diff c1 c2)
      else if c1 = c2 then (False, diff c1 c2)
      else (tolower c1 \<noteq> tolower c2, diff (tolower c1) (tolower c2)))"

fun strnicmp_loop :: "mem \<Rightarrow> int \<Rightarrow> int \<Rightarrow> nat \<Rightarrow> int" where
  "strnicmp_loop m s1 s2 0 = snd (strnicmp_body (m s1) (m s2))"
| "strnicmp_loop m s1 s2 (Suc n) =
     (if fst (strnicmp_body (m s1) (m s2)) then snd (strnicmp_body (m s1) (m s2))
      else strnicmp_loop m (s1 + 1) (s2 + 1) n)"

definition strnicmp :: "mem \<Rightarrow> int \<Rightarrow> int \<Rightarrow> nat \<Rightarrow> int" where
  "strnicmp m s1 s2 len = (case len of 0 \<Rightarrow> 0 | Suc n \<Rightarrow> strnicmp_loop m s1 s2 n)"

partial_function (option) strcasecmp :: "mem \<Rightarrow> int \<Rightarrow> int \<Rightarrow> int option" where
  "strcasecmp m s1 s2 =
     (let c1 = tolower (m s1); c2 = tolower (m s2)
      in if c1 = c2 \<and> c1 \<noteq> 0 then strcasecmp m (s1 + 1) (s2 + 1) else Some (diff c1 c2))"

text \<open>\<^verbatim>\<open>--n > 0\<close> on an unsigned counter: a length of zero wraps around.\<close>

partial_function (option) strncasecmp :: "mem \<Rightarrow> int \<Rightarrow> int \<Rightarrow> 32 word \<Rightarrow> int option" where
  "strncasecmp m s1 s2 n =
     (let c1 = tolower (m s1); c2 = tolower (m s2)
      in if n - 1 > 0 \<and> c1 = c2 \<and> c1 \<noteq> 0 then strncasecmp m (s1 + 1) (s2 + 1) (n - 1) else Some (diff c1 c2))"

partial_function (option) strcmp :: "mem \<Rightarrow> int \<Rightarrow> int \<Rightarrow> int option" where
  "strcmp m cs ct =
     (let c1 = m cs; c2 = m ct
      in if c1 \<noteq> c2 then Some (if c1 < c2 then -1 else 1)
         else if c1 = 0 then Some 0 else strcmp m (cs + 1) (ct + 1))"

fun strncmp :: "mem \<Rightarrow> int \<Rightarrow> int \<Rightarrow> nat \<Rightarrow> int" where
  "strncmp m cs ct 0 = 0"
| "strncmp m cs ct (Suc count) =
     (let c1 = m cs; c2 = m ct
      in if c1 \<noteq> c2 then (if c1 < c2 then -1 else 1)
         else if c1 = 0 then 0 else strncmp m (cs + 1) (ct + 1) count)"

fun memcmp :: "mem \<Rightarrow> int \<Rightarrow> int \<Rightarrow> nat \<Rightarrow> int" where
  "memcmp m cs ct 0 = 0"
| "memcmp m cs ct (Suc count) =
     (let res = diff (m cs) (m ct) in if res \<noteq> 0 then res else memcmp m (cs + 1) (ct + 1) count)"

partial_function (option) streq_scan :: "mem \<Rightarrow> int \<Rightarrow> int \<Rightarrow> (int \<times> int) option" where
  "streq_scan m s1 s2 = (if m s1 \<noteq> 0 \<and> m s1 = m s2 then streq_scan m (s1 + 1) (s2 + 1) else Some (s1, s2))"

definition sysfs_streq :: "mem \<Rightarrow> int \<Rightarrow> int \<Rightarrow> bool option" where
  "sysfs_streq m s1 s2 = map_option (\<lambda>(p, q).
     if m p = m q then True
     else if m p = 0 \<and> m q = 0x0A \<and> m (q + 1) = 0 then True
     else if m p = 0x0A \<and> m (p + 1) = 0 \<and> m q = 0 then True
     else False) (streq_scan m s1 s2)"

definition strtobool :: "mem \<Rightarrow> int \<Rightarrow> int + bool" where
  "strtobool m s =
     (if m s = 0x79 \<or> m s = 0x59 \<or> m s = 0x31 then Inr True
      else if m s = 0x6E \<or> m s = 0x4E \<or> m s = 0x30 then Inr False
      else Inl (- 22))"

section \<open>Measuring and searching\<close>

partial_function (option) strlen_loop :: "mem \<Rightarrow> int \<Rightarrow> int option" where
  "strlen_loop m sc = (if m sc \<noteq> 0 then strlen_loop m (sc + 1) else Some sc)"

definition strlen :: "mem \<Rightarrow> int \<Rightarrow> nat option" where
  "strlen m s = map_option (\<lambda>sc. nat (sc - s)) (strlen_loop m s)"

fun strnlen :: "mem \<Rightarrow> int \<Rightarrow> nat \<Rightarrow> nat" where
  "strnlen m s 0 = 0"
| "strnlen m s (Suc count) = (if m s \<noteq> 0 then Suc (strnlen m (s + 1) count) else 0)"

partial_function (option) strchr :: "mem \<Rightarrow> int \<Rightarrow> 8 word \<Rightarrow> int option option" where
  "strchr m s c =
     (if m s \<noteq> c then (if m s = 0 then Some None else strchr m (s + 1) c) else Some (Some s))"

fun strrchr_loop :: "mem \<Rightarrow> int \<Rightarrow> 8 word \<Rightarrow> nat \<Rightarrow> int option" where
  "strrchr_loop m s c n =
     (if m (s + int n) = c then Some (s + int n)
      else (case n of 0 \<Rightarrow> None | Suc k \<Rightarrow> strrchr_loop m s c k))"

declare strrchr_loop.simps [simp del]

definition strrchr :: "mem \<Rightarrow> int \<Rightarrow> 8 word \<Rightarrow> int option option" where
  "strrchr m s c = map_option (strrchr_loop m s c) (strlen m s)"

fun strnchr :: "mem \<Rightarrow> int \<Rightarrow> nat \<Rightarrow> 8 word \<Rightarrow> int option" where
  "strnchr m s 0 c = None"
| "strnchr m s (Suc count) c =
     (if m s \<noteq> 0 then (if m s = c then Some s else strnchr m (s + 1) count c) else None)"

text \<open>\<^verbatim>\<open>memscan\<close> compares with the integer it is given, not with its low byte.\<close>

fun memscan :: "mem \<Rightarrow> int \<Rightarrow> int \<Rightarrow> nat \<Rightarrow> int" where
  "memscan m p c 0 = p"
| "memscan m p c (Suc n) = (if uint (m p) = c then p else memscan m (p + 1) c n)"

fun memchr :: "mem \<Rightarrow> int \<Rightarrow> 8 word \<Rightarrow> nat \<Rightarrow> int option" where
  "memchr m p c 0 = None"
| "memchr m p c (Suc n) = (if c = m p then Some p else memchr m (p + 1) c n)"

text \<open>The inner loops of \<^verbatim>\<open>strspn\<close>, \<^verbatim>\<open>strcspn\<close> and \<^verbatim>\<open>strpbrk\<close>: is the character in the string at \<open>a\<close>?\<close>

partial_function (option) in_str :: "mem \<Rightarrow> int \<Rightarrow> 8 word \<Rightarrow> bool option" where
  "in_str m a c = (if m a = 0 then Some False else if c = m a then Some True else in_str m (a + 1) c)"

partial_function (option) strspn :: "mem \<Rightarrow> int \<Rightarrow> int \<Rightarrow> nat \<Rightarrow> nat option" where
  "strspn m p accept count =
     (if m p = 0 then Some count
      else Option.bind (in_str m accept (m p)) (\<lambda>f. if \<not> f then Some count else strspn m (p + 1) accept (Suc count)))"

partial_function (option) strcspn :: "mem \<Rightarrow> int \<Rightarrow> int \<Rightarrow> nat \<Rightarrow> nat option" where
  "strcspn m p reject count =
     (if m p = 0 then Some count
      else Option.bind (in_str m reject (m p)) (\<lambda>f. if f then Some count else strcspn m (p + 1) reject (Suc count)))"

partial_function (option) strpbrk :: "mem \<Rightarrow> int \<Rightarrow> int \<Rightarrow> int option option" where
  "strpbrk m sc1 ct =
     (if m sc1 = 0 then Some None
      else Option.bind (in_str m ct (m sc1)) (\<lambda>f. if f then Some (Some sc1) else strpbrk m (sc1 + 1) ct))"

text \<open>\<^verbatim>\<open>strsep\<close>: the token, the rest of the string, and the memory.\<close>

definition strsep :: "mem \<Rightarrow> int option \<Rightarrow> int \<Rightarrow> (int option \<times> int option \<times> mem) option" where
  "strsep m s ct =
     (case s of
        None \<Rightarrow> Some (None, None, m)
      | Some sbegin \<Rightarrow>
          map_option (\<lambda>r. case r of
              None \<Rightarrow> (Some sbegin, None, m)
            | Some e \<Rightarrow> (Some sbegin, Some (e + 1), m(e := 0))) (strpbrk m sbegin ct))"

partial_function (option) skip_spaces :: "mem \<Rightarrow> int \<Rightarrow> int option" where
  "skip_spaces m str = (if isspace (m str) then skip_spaces m (str + 1) else Some str)"

text \<open>The loop of \<^verbatim>\<open>strim\<close> that walks back over trailing white space: the number of characters left.\<close>

fun strim_back :: "mem \<Rightarrow> int \<Rightarrow> nat \<Rightarrow> nat" where
  "strim_back m s 0 = 0"
| "strim_back m s (Suc n) = (if isspace (m (s + int n)) then strim_back m s n else Suc n)"

definition strim :: "mem \<Rightarrow> int \<Rightarrow> (int \<times> mem) option" where
  "strim m s0 = Option.bind (skip_spaces m s0) (\<lambda>s.
     Option.bind (strlen m s) (\<lambda>n.
       if n = 0 then Some (s, m) else Some (s, m(s + int (strim_back m s n) := 0))))"

text \<open>The search loops of \<^verbatim>\<open>strstr\<close> and \<^verbatim>\<open>strnstr\<close>.\<close>

fun strstr_loop :: "mem \<Rightarrow> int \<Rightarrow> int \<Rightarrow> nat \<Rightarrow> nat \<Rightarrow> int option" where
  "strstr_loop m s1 s2 l2 l1 =
     (if l1 \<ge> l2 then
        (if memcmp m s1 s2 l2 = 0 then Some s1
         else (case l1 of 0 \<Rightarrow> None | Suc k \<Rightarrow> strstr_loop m (s1 + 1) s2 l2 k))
      else None)"

declare strstr_loop.simps [simp del]

definition strstr :: "mem \<Rightarrow> int \<Rightarrow> int \<Rightarrow> int option option" where
  "strstr m s1 s2 = Option.bind (strlen m s2) (\<lambda>l2.
     if l2 = 0 then Some (Some s1)
     else map_option (strstr_loop m s1 s2 l2) (strlen m s1))"

definition strnstr :: "mem \<Rightarrow> int \<Rightarrow> int \<Rightarrow> nat \<Rightarrow> int option option" where
  "strnstr m s1 s2 len = map_option (\<lambda>l2. if l2 = 0 then Some s1 else strstr_loop m s1 s2 l2 len) (strlen m s2)"

section \<open>Copying\<close>

fun memset :: "mem \<Rightarrow> int \<Rightarrow> 8 word \<Rightarrow> nat \<Rightarrow> mem" where
  "memset m xs c 0 = m"
| "memset m xs c (Suc count) = memset (m(xs := c)) (xs + 1) c count"

fun memcpy :: "mem \<Rightarrow> int \<Rightarrow> int \<Rightarrow> nat \<Rightarrow> mem" where
  "memcpy m tmp s 0 = m"
| "memcpy m tmp s (Suc count) = memcpy (m(tmp := m s)) (tmp + 1) (s + 1) count"

text \<open>The loop of \<^verbatim>\<open>memmove\<close> that copies from the end.\<close>

fun memcpy_back :: "mem \<Rightarrow> int \<Rightarrow> int \<Rightarrow> nat \<Rightarrow> mem" where
  "memcpy_back m tmp s 0 = m"
| "memcpy_back m tmp s (Suc count) = memcpy_back (m(tmp - 1 := m (s - 1))) (tmp - 1) (s - 1) count"

definition memmove :: "mem \<Rightarrow> int \<Rightarrow> int \<Rightarrow> nat \<Rightarrow> mem" where
  "memmove m dest src count =
     (if dest \<le> src then memcpy m dest src count
      else memcpy_back m (dest + int count) (src + int count) count)"

partial_function (option) strcpy :: "mem \<Rightarrow> int \<Rightarrow> int \<Rightarrow> mem option" where
  "strcpy m dest src =
     (let m1 = m(dest := m src) in if m1 dest \<noteq> 0 then strcpy m1 (dest + 1) (src + 1) else Some m1)"

fun strncpy :: "mem \<Rightarrow> int \<Rightarrow> int \<Rightarrow> nat \<Rightarrow> mem" where
  "strncpy m tmp src 0 = m"
| "strncpy m tmp src (Suc count) =
     (let m1 = m(tmp := m src) in strncpy m1 (tmp + 1) (if m1 tmp \<noteq> 0 then src + 1 else src) count)"

definition strlcpy :: "mem \<Rightarrow> int \<Rightarrow> int \<Rightarrow> nat \<Rightarrow> (nat \<times> mem) option" where
  "strlcpy m dest src sz = map_option (\<lambda>ret.
     if sz \<noteq> 0 then
       (let len = (if ret \<ge> sz then sz - 1 else ret) in (ret, (memcpy m dest src len)(dest + int len := 0)))
     else (ret, m)) (strlen m src)"

definition strcat :: "mem \<Rightarrow> int \<Rightarrow> int \<Rightarrow> mem option" where
  "strcat m dest src = Option.bind (strlen_loop m dest) (\<lambda>d. strcpy m d src)"

text \<open>The copying loop of \<^verbatim>\<open>strncat\<close>, with the count after it has been decreased.\<close>

fun strncat_loop :: "mem \<Rightarrow> int \<Rightarrow> int \<Rightarrow> nat \<Rightarrow> mem" where
  "strncat_loop m dest src 0 =
     (let m1 = m(dest := m src) in if m1 dest \<noteq> 0 then m1(dest + 1 := 0) else m1)"
| "strncat_loop m dest src (Suc n) =
     (let m1 = m(dest := m src) in if m1 dest \<noteq> 0 then strncat_loop m1 (dest + 1) (src + 1) n else m1)"

definition strncat :: "mem \<Rightarrow> int \<Rightarrow> int \<Rightarrow> nat \<Rightarrow> mem option" where
  "strncat m dest src count =
     (case count of 0 \<Rightarrow> Some m | Suc n \<Rightarrow> map_option (\<lambda>d. strncat_loop m d src n) (strlen_loop m dest))"

text \<open>
  \<^verbatim>\<open>strlcat\<close> computes the room left as an unsigned difference; when the string does not fit into the
  buffer in the first place the difference wraps around.
\<close>

definition strlcat :: "mem \<Rightarrow> int \<Rightarrow> int \<Rightarrow> nat \<Rightarrow> (nat \<times> mem) option" where
  "strlcat m dest src count = Option.bind (strlen m dest) (\<lambda>dsize.
     map_option (\<lambda>len0.
       (let d = dest + int dsize; room = nat (uwrap32 (int count - int dsize));
            len = (if len0 \<ge> room then nat (uwrap32 (int room - 1)) else len0)
        in (nat (uwrap32 (int dsize + int len0)), (memcpy m d src len)(d + int len := 0)))) (strlen m src))"

section \<open>Strings in memory\<close>

text \<open>The bytes \<open>xs\<close>, none of them zero, lie at \<open>s\<close> and are followed by a terminator.\<close>

fun cstr :: "mem \<Rightarrow> int \<Rightarrow> 8 word list \<Rightarrow> bool" where
  "cstr m s [] \<longleftrightarrow> m s = 0"
| "cstr m s (x # xs) \<longleftrightarrow> m s = x \<and> x \<noteq> 0 \<and> cstr m (s + 1) xs"

text \<open>The bytes of \<open>n\<close> places from \<open>s\<close> on.\<close>

definition bytes :: "mem \<Rightarrow> int \<Rightarrow> nat \<Rightarrow> 8 word list" where
  "bytes m s n = map (\<lambda>i. m (s + int i)) [0..<n]"

lemma bytes_0 [simp]: "bytes m s 0 = []"
  by (simp add: bytes_def)

lemma bytes_Suc: "bytes m s (Suc n) = m s # bytes m (s + 1) n"
  unfolding bytes_def by (simp add: upt_conv_Cons map_Suc_upt [symmetric] comp_def algebra_simps del: upt_Suc)

lemma length_bytes [simp]: "length (bytes m s n) = n"
  by (simp add: bytes_def)

lemma cstr_bytes: "cstr m s xs \<Longrightarrow> bytes m s (length xs) = xs"
  by (induction xs arbitrary: s) (auto simp: bytes_Suc)

lemma cstr_nth: "cstr m s xs \<Longrightarrow> i < length xs \<Longrightarrow> m (s + int i) = xs ! i"
proof (induction xs arbitrary: s i)
  case (Cons x xs)
  show ?case
  proof (cases i)
    case (Suc k)
    then show ?thesis using Cons.IH [of "s + 1" k] Cons.prems by (simp add: algebra_simps)
  qed (use Cons.prems in simp)
qed simp

lemma cstr_end: "cstr m s xs \<Longrightarrow> m (s + int (length xs)) = 0"
proof (induction xs arbitrary: s)
  case (Cons x xs)
  then show ?case using Cons.IH [of "s + 1"] by (simp add: algebra_simps)
qed simp

lemma cstr_nonzero: "cstr m s xs \<Longrightarrow> 0 \<notin> set xs"
  by (induction xs arbitrary: s) auto

lemma cstr_drop: "cstr m s xs \<Longrightarrow> i \<le> length xs \<Longrightarrow> cstr m (s + int i) (drop i xs)"
proof (induction xs arbitrary: s i)
  case (Cons x xs)
  show ?case
  proof (cases i)
    case (Suc k)
    then show ?thesis using Cons.IH [of "s + 1" k] Cons.prems by (simp add: algebra_simps)
  qed (use Cons.prems in simp)
qed simp

lemma strlen_loop_cstr: "cstr m s xs \<Longrightarrow> strlen_loop m s = Some (s + int (length xs))"
  by (induction xs arbitrary: s) (simp_all add: strlen_loop.simps algebra_simps)

lemma strlen_cstr: "cstr m s xs \<Longrightarrow> strlen m s = Some (length xs)"
  by (simp add: strlen_def strlen_loop_cstr)

section \<open>What the routines do\<close>

lemma memcpy_below:
  assumes "d \<le> s"
  shows "memcpy m d s n a = (if d \<le> a \<and> a < d + int n then m (s + (a - d)) else m a)"
  using assms
proof (induction n arbitrary: m d s)
  case (Suc n)
  show ?case using Suc.prems by (auto simp: Suc.IH)
qed auto

lemma memcpy_back_above:
  assumes "s < d"
  shows "memcpy_back m (d + int n) (s + int n) n a = (if d \<le> a \<and> a < d + int n then m (s + (a - d)) else m a)"
proof (induction n arbitrary: m)
  case (Suc n)
  have e: "memcpy_back m (d + int (Suc n)) (s + int (Suc n)) (Suc n) a =
    memcpy_back (m(d + int n := m (s + int n))) (d + int n) (s + int n) n a"
    by (simp add: algebra_simps)
  show ?case unfolding e Suc.IH using assms by auto
qed auto

lemma memcpy_apart:
  assumes "d + int n \<le> s \<or> s + int n \<le> d"
  shows "memcpy m d s n a = (if d \<le> a \<and> a < d + int n then m (s + (a - d)) else m a)"
  using assms
proof (induction n arbitrary: m d s)
  case (Suc n)
  have "d + 1 + int n \<le> s + 1 \<or> s + 1 + int n \<le> d + 1" using Suc.prems by auto
  from Suc.IH [OF this] show ?case using Suc.prems by auto
qed auto

text \<open>
  C16. \<^verbatim>\<open>memmove\<close> copies correctly whether or not the areas overlap: afterwards every byte of the destination
  is the byte the source had before the call, and no other byte has changed.
\<close>

theorem memmove_copies:
  "memmove m dest src n a = (if dest \<le> a \<and> a < dest + int n then m (src + (a - dest)) else m a)"
  by (simp add: memmove_def memcpy_below memcpy_back_above)

text \<open>
  \<^verbatim>\<open>strcmp\<close> decides the lexicographic order. For any two terminated strings it returns, with 0 exactly for
  equal strings and otherwise the sign of their order as sequences of unsigned bytes.
\<close>

lemma strcmp_order:
  assumes "cstr m s xs" "cstr m t ys"
  shows "strcmp m s t = Some (if xs = ys then 0 else if ord_class.lexordp xs ys then -1 else 1)"
  using assms
proof (induction xs arbitrary: s t ys)
  case Nil
  then show ?case by (cases ys) (auto simp: strcmp.simps word_gt_0)
next
  case (Cons x xs)
  show ?case
  proof (cases ys)
    case Nil
    then show ?thesis using Cons.prems by (auto simp: strcmp.simps)
  next
    case (Cons y zs)
    then show ?thesis using Cons.prems Cons.IH [of "s + 1" "t + 1" zs]
      by (subst strcmp.simps) (auto simp: Let_def)
  qed
qed

lemma strcmp_order_witness:
  "strcmp (\<lambda>a. if a = 0 then 0x61 else if a = 10 then 0x61 else if a = 11 then 0xE1 else 0) 0 10 = Some (- 1)"
  using strcmp_order [of "\<lambda>a. if a = 0 then 0x61 else if a = 10 then 0x61 else if a = 11 then 0xE1 else 0" 0 "[0x61]" 10 "[0x61, 0xE1]"]
  by simp

lemma memcmp_0_iff: "memcmp m s t n = 0 \<longleftrightarrow> bytes m s n = bytes m t n"
  by (induction n arbitrary: s t) (auto simp: bytes_Suc diff_def Let_def word_uint_eq_iff)

text \<open>Does \<open>ys\<close> occur in \<open>xs\<close> at place \<open>i\<close>?\<close>

definition occurs :: "8 word list \<Rightarrow> 8 word list \<Rightarrow> nat \<Rightarrow> bool" where
  "occurs ys xs i \<longleftrightarrow> i + length ys \<le> length xs \<and> take (length ys) (drop i xs) = ys"

lemma bytes_take: "cstr m s xs \<Longrightarrow> n \<le> length xs \<Longrightarrow> bytes m s n = take n xs"
  by (rule nth_equalityI) (auto simp: bytes_def cstr_nth)

lemma occurs_0: "cstr m s xs \<Longrightarrow> cstr m t ys \<Longrightarrow> length ys \<le> length xs \<Longrightarrow> memcmp m s t (length ys) = 0 \<longleftrightarrow> occurs ys xs 0"
  by (simp add: memcmp_0_iff cstr_bytes bytes_take occurs_def)

lemma occurs_Suc: "occurs ys (x # xs) (Suc i) \<longleftrightarrow> occurs ys xs i"
  by (simp add: occurs_def)

lemma strstr_loop_find:
  assumes "cstr m s xs" "cstr m t ys" "ys \<noteq> []"
  shows "strstr_loop m s t (length ys) (length xs) =
    map_option (\<lambda>i. s + int i) (find (occurs ys xs) [0..<Suc (length xs)])"
  using assms(1)
proof (induction xs arbitrary: s)
  case Nil
  then show ?case using assms(3) by (simp add: strstr_loop.simps occurs_def)
next
  case (Cons x xs)
  note c = \<open>cstr m s (x # xs)\<close>
  have c': "cstr m (s + 1) xs" using c by simp
  have u: "[0..<Suc (length (x # xs))] = 0 # map Suc [0..<Suc (length xs)]"
    by (subst upt_conv_Cons) (simp_all add: map_Suc_upt del: upt_Suc)
  have fm: "find P (map Suc zs) = map_option Suc (find (\<lambda>i. P (Suc i)) zs)" for P zs
    by (induction zs) auto
  have fs: "find (\<lambda>i. occurs ys (x # xs) (Suc i)) zs = find (occurs ys xs) zs" for zs
    by (simp add: occurs_Suc)
  have tail: "find (occurs ys (x # xs)) (map Suc [0..<Suc (length xs)]) = map_option Suc (find (occurs ys xs) [0..<Suc (length xs)])"
    unfolding fm fs ..
  show ?case
  proof (cases "length ys \<le> length (x # xs)")
    case True
    show ?thesis
      using occurs_0 [OF c assms(2) True] True Cons.IH [OF c'] unfolding u
      by (subst strstr_loop.simps)
        (simp add: tail option.map_comp comp_def algebra_simps del: upt_Suc list.map)
  next
    case False
    then have "\<not> occurs ys (x # xs) i" for i by (auto simp: occurs_def)
    then have "find (occurs ys (x # xs)) zs = None" for zs by (induction zs) auto
    then show ?thesis using False by (subst strstr_loop.simps) simp
  qed
qed

text \<open>
  C24. \<^verbatim>\<open>strstr\<close> finds the first occurrence. For terminated strings it returns, with the address of the first
  place at which the searched string occurs, and the null pointer exactly if there is none; the empty string is found at once.
\<close>

theorem strstr_first:
  assumes "cstr m s xs" "cstr m t ys"
  shows "strstr m s t = Some (map_option (\<lambda>i. s + int i) (find (occurs ys xs) [0..<Suc (length xs)]))"
proof (cases "ys = []")
  case True
  have "[0..<Suc (length xs)] = 0 # [1..<Suc (length xs)]" by (simp only: upt_conv_Cons zero_less_Suc One_nat_def)
  moreover have "occurs [] xs 0" by (simp add: occurs_def)
  moreover have "strlen m t = Some 0" using strlen_cstr [OF assms(2)] True by simp
  ultimately show ?thesis using True by (simp add: strstr_def del: upt_Suc)
next
  case False
  then show ?thesis using assms strstr_loop_find [OF assms False]
    by (simp add: strstr_def strlen_cstr del: upt_Suc)
qed

theorem strstr_first_witness:
  "strstr (\<lambda>a. if a = 0 then 1 else if a = 1 then 2 else if a = 2 then 2 else if a = 10 then 2 else 0) 0 10 = Some (Some 1)"
  using strstr_first [of "\<lambda>a. if a = 0 then 1 else if a = 1 then 2 else if a = 2 then 2 else if a = 10 then 2 else 0" 0 "[1, 2, 2]" 10 "[2]"]
  by (simp add: occurs_def upt_rec)

lemma cstrI:
  assumes "0 \<notin> set xs" "\<And>i. i < length xs \<Longrightarrow> m (s + int i) = xs ! i" "m (s + int (length xs)) = 0"
  shows "cstr m s xs"
  using assms
proof (induction xs arbitrary: s)
  case (Cons x xs)
  have "m (s + 1 + int i) = xs ! i" if "i < length xs" for i
    using Cons.prems(2) [of "Suc i"] that by (simp add: algebra_simps)
  then have "cstr m (s + 1) xs" using Cons.prems by (intro Cons.IH) (auto simp: algebra_simps)
  then show ?case using Cons.prems(1) Cons.prems(2) [of 0] by auto
qed simp

text \<open>
  \<^verbatim>\<open>strlcpy\<close> respects the buffer. If source and buffer do not overlap it returns the length of the source,
  writes nothing outside the buffer, and leaves in a buffer of positive size a terminated string: the longest part of the source that fits.
\<close>

lemma strlcpy_fits:
  assumes c: "cstr m src xs" and a: "dest + int n \<le> src \<or> src + int (length xs) < dest"
  shows "\<exists>m'. strlcpy m dest src n = Some (length xs, m') \<and>
    (\<forall>p. p < dest \<or> dest + int n \<le> p \<longrightarrow> m' p = m p) \<and> (n \<noteq> 0 \<longrightarrow> cstr m' dest (take (n - 1) xs))"
proof (cases "n = 0")
  case True
  then show ?thesis using c by (simp add: strlcpy_def strlen_cstr)
next
  case False
  define l where "l = min (length xs) (n - 1)"
  define m' where "m' = (memcpy m dest src l)(dest + int l := 0)"
  have l: "l < n" "l \<le> length xs" "length (take (n - 1) xs) = l" using False by (auto simp: l_def)
  have e: "strlcpy m dest src n = Some (length xs, m')"
    using False c by (auto simp: strlcpy_def strlen_cstr m'_def l_def Let_def min_def)
  have "dest + int l \<le> src \<or> src + int l \<le> dest" using a l by auto
  note cp = memcpy_apart [OF this, of m]
  have "cstr m' dest (take (n - 1) xs)"
  proof (rule cstrI)
    show "0 \<notin> set (take (n - 1) xs)" using cstr_nonzero [OF c] by (auto dest: in_set_takeD)
    show "m' (dest + int i) = take (n - 1) xs ! i" if "i < length (take (n - 1) xs)" for i
      using that l cstr_nth [OF c, of i] by (auto simp: m'_def cp)
    show "m' (dest + int (length (take (n - 1) xs))) = 0" unfolding l(3) by (simp add: m'_def)
  qed
  moreover have "m' p = m p" if "p < dest \<or> dest + int n \<le> p" for p
    using that l by (auto simp: m'_def cp)
  ultimately show ?thesis using e by blast
qed

lemma strlcpy_fits_witness:
  "\<exists>m'. strlcpy (\<lambda>a. if a = 0 \<or> a = 1 then 7 else 0) 10 0 2 = Some (2, m') \<and> cstr m' 10 [7]"
  using strlcpy_fits [of "\<lambda>a. if a = 0 \<or> a = 1 then 7 else 0" 0 "[7, 7]" 10 2] by auto

end
