(* ===== verification/Lib_Kstrtox.thy ===== *)
theory Lib_Kstrtox
  imports Lib_String
begin

text \<open>
  Conversion of numerals to integers, \<^verbatim>\<open>lib/kstrtox.c\<close>. A conversion returns the negative error code or the
  number; the value \<^term>\<open>None\<close> of the loop over the digits is a numeral without end.
\<close>

abbreviation (input) EINVAL :: int where "EINVAL \<equiv> 22"
abbreviation (input) ERANGE :: int where "ERANGE \<equiv> 34"
abbreviation (input) EFAULT :: int where "EFAULT \<equiv> 14"

type_synonym 'w conv = "(int + 'w) option"

section \<open>The routines\<close>

text \<open>The radix and the start of the digits.\<close>

definition kstr_radix :: "mem \<Rightarrow> int \<Rightarrow> 32 word \<Rightarrow> 32 word" where
  "kstr_radix m s base =
     (if base = 0 then
        (if m s = 0x30 then (if tolower_fast (m (s + 1)) = 0x78 \<and> isxdigit (m (s + 2)) then 16 else 8)
         else 10)
      else base)"

definition kstr_start :: "mem \<Rightarrow> int \<Rightarrow> 32 word \<Rightarrow> int" where
  "kstr_start m s base = (if base = 16 \<and> m s = 0x30 \<and> tolower_fast (m (s + 1)) = 0x78 then s + 2 else s)"

text \<open>The value of a digit, if the character is one.\<close>

definition digit_val :: "8 word \<Rightarrow> 32 word option" where
  "digit_val c =
     (if 0x30 \<le> c \<and> c \<le> 0x39 then Some (ucast (c - 0x30))
      else if 0x61 \<le> tolower_fast c \<and> tolower_fast c \<le> 0x66 then Some (ucast (tolower_fast c - 0x61) + 10)
      else None)"

partial_function (option) kstr_loop :: "mem \<Rightarrow> int \<Rightarrow> 32 word \<Rightarrow> 64 word \<Rightarrow> bool \<Rightarrow> (64 word) conv" where
  "kstr_loop m s base acc ok =
     (if m s = 0 then Some (if ok then Inr acc else Inl (- EINVAL))
      else case digit_val (m s) of
        None \<Rightarrow> (if m s = 0x0A \<and> m (s + 1) = 0 then Some (if ok then Inr acc else Inl (- EINVAL))
                 else Some (Inl (- EINVAL)))
      | Some v \<Rightarrow>
          if v \<ge> base then Some (Inl (- EINVAL))
          else if acc > (- 1 - ucast v) div ucast base then Some (Inl (- ERANGE))
          else kstr_loop m (s + 1) base (acc * ucast base + ucast v) True)"

definition kstrtoull_raw :: "mem \<Rightarrow> int \<Rightarrow> 32 word \<Rightarrow> (64 word) conv" where
  "kstrtoull_raw m s base0 =
     (let base = kstr_radix m s base0 in kstr_loop m (kstr_start m s base) base 0 False)"

definition kstrtoull :: "mem \<Rightarrow> int \<Rightarrow> 32 word \<Rightarrow> (64 word) conv" where
  "kstrtoull m s base = kstrtoull_raw m (if m s = 0x2B then s + 1 else s) base"

text \<open>The rest of a conversion after an inner one succeeded.\<close>

definition conv_bind :: "'a conv \<Rightarrow> ('a \<Rightarrow> int + 'b) \<Rightarrow> 'b conv" where
  "conv_bind r f = map_option (\<lambda>x. case x of Inl e \<Rightarrow> Inl e | Inr v \<Rightarrow> f v) r"

definition kstrtoll :: "mem \<Rightarrow> int \<Rightarrow> 32 word \<Rightarrow> (64 word) conv" where
  "kstrtoll m s base =
     (if m s = 0x2D then
        conv_bind (kstrtoull_raw m (s + 1) base) (\<lambda>tmp. if sint (- tmp) \<ge> 0 then Inl (- ERANGE) else Inr (- tmp))
      else conv_bind (kstrtoull m s base) (\<lambda>tmp. if sint tmp < 0 then Inl (- ERANGE) else Inr tmp))"

text \<open>\<^verbatim>\<open>unsigned long\<close> and \<^verbatim>\<open>long\<close> have 32 bits.\<close>

definition kstrtoul_int :: "mem \<Rightarrow> int \<Rightarrow> 32 word \<Rightarrow> (32 word) conv" where
  "kstrtoul_int m s base = conv_bind (kstrtoull m s base) (\<lambda>tmp.
     if tmp \<noteq> ucast (ucast tmp :: 32 word) then Inl (- ERANGE) else Inr (ucast tmp))"

definition kstrtol_int :: "mem \<Rightarrow> int \<Rightarrow> 32 word \<Rightarrow> (32 word) conv" where
  "kstrtol_int m s base = conv_bind (kstrtoll m s base) (\<lambda>tmp.
     if tmp \<noteq> scast (ucast tmp :: 32 word) then Inl (- ERANGE) else Inr (ucast tmp))"

definition kstrtouint :: "mem \<Rightarrow> int \<Rightarrow> 32 word \<Rightarrow> (32 word) conv" where
  "kstrtouint m s base = conv_bind (kstrtoull m s base) (\<lambda>tmp.
     if tmp \<noteq> ucast (ucast tmp :: 32 word) then Inl (- ERANGE) else Inr (ucast tmp))"

definition kstrtoint :: "mem \<Rightarrow> int \<Rightarrow> 32 word \<Rightarrow> (32 word) conv" where
  "kstrtoint m s base = conv_bind (kstrtoll m s base) (\<lambda>tmp.
     if tmp \<noteq> scast (ucast tmp :: 32 word) then Inl (- ERANGE) else Inr (ucast tmp))"

definition kstrtou16 :: "mem \<Rightarrow> int \<Rightarrow> 32 word \<Rightarrow> (16 word) conv" where
  "kstrtou16 m s base = conv_bind (kstrtoull m s base) (\<lambda>tmp.
     if tmp \<noteq> ucast (ucast tmp :: 16 word) then Inl (- ERANGE) else Inr (ucast tmp))"

definition kstrtos16 :: "mem \<Rightarrow> int \<Rightarrow> 32 word \<Rightarrow> (16 word) conv" where
  "kstrtos16 m s base = conv_bind (kstrtoll m s base) (\<lambda>tmp.
     if tmp \<noteq> scast (ucast tmp :: 16 word) then Inl (- ERANGE) else Inr (ucast tmp))"

definition kstrtou8 :: "mem \<Rightarrow> int \<Rightarrow> 32 word \<Rightarrow> (8 word) conv" where
  "kstrtou8 m s base = conv_bind (kstrtoull m s base) (\<lambda>tmp.
     if tmp \<noteq> ucast (ucast tmp :: 8 word) then Inl (- ERANGE) else Inr (ucast tmp))"

definition kstrtos8 :: "mem \<Rightarrow> int \<Rightarrow> 32 word \<Rightarrow> (8 word) conv" where
  "kstrtos8 m s base = conv_bind (kstrtoll m s base) (\<lambda>tmp.
     if tmp \<noteq> scast (ucast tmp :: 8 word) then Inl (- ERANGE) else Inr (ucast tmp))"

text \<open>
  The macro \<^verbatim>\<open>kstrto_from_user\<close>, for a conversion \<open>g\<close> to a type of \<open>w\<close> bytes. The copy from the user is an
  argument (\<^term>\<open>None\<close> is a fault); \<open>junk\<close> is what the stack holds behind the buffer's terminator.
\<close>

definition kstrto_from_user ::
    "(mem \<Rightarrow> int \<Rightarrow> 32 word \<Rightarrow> 'w conv) \<Rightarrow> nat \<Rightarrow> (int \<Rightarrow> nat \<Rightarrow> 8 word list option) \<Rightarrow> mem \<Rightarrow> int \<Rightarrow> nat \<Rightarrow> 32 word \<Rightarrow> 'w conv" where
  "kstrto_from_user g w copy junk s count0 base =
     (let count = min count0 (1 + w * 8 + 1 + 1 - 1)
      in case copy s count of
           None \<Rightarrow> Some (Inl (- EFAULT))
         | Some bs \<Rightarrow> g (\<lambda>a. if 0 \<le> a \<and> a < int count then bs ! nat a else if a = int count then 0 else junk a) 0 base)"

section \<open>Numerals\<close>

text \<open>The digits of a numeral: a newline may follow them.\<close>

definition numeral_digits :: "8 word list \<Rightarrow> 8 word list" where
  "numeral_digits xs = (if xs \<noteq> [] \<and> last xs = 0x0A then butlast xs else xs)"

definition is_numeral :: "32 word \<Rightarrow> 8 word list \<Rightarrow> bool" where
  "is_numeral base xs \<longleftrightarrow> xs \<noteq> [] \<and> list_all (\<lambda>c. case digit_val c of None \<Rightarrow> False | Some v \<Rightarrow> v < base) xs"

fun numeral_val :: "nat \<Rightarrow> nat \<Rightarrow> 8 word list \<Rightarrow> nat" where
  "numeral_val b acc [] = acc"
| "numeral_val b acc (c # cs) = numeral_val b (acc * b + unat (the (digit_val c))) cs"

lemma unat_lt_32: "unat (x :: 32 word) < 2 ^ 32"
proof -
  have "unat x < 2 ^ LENGTH(32)" by (rule unsigned_less)
  then show ?thesis by simp
qed

lemma unat_lt_64: "unat (x :: 64 word) < 2 ^ 64"
proof -
  have "unat x < 2 ^ LENGTH(64)" by (rule unsigned_less)
  then show ?thesis by simp
qed

lemma digit_val_newline [simp]: "digit_val 0x0A = None"
  by (simp add: digit_val_def tolower_fast_def)

lemma numeral_digits_Nil [simp]: "numeral_digits [] = []"
  by (simp add: numeral_digits_def)

lemma numeral_digits_Cons:
  "numeral_digits (x # xs) = (if xs = [] \<and> x = 0x0A then [] else x # numeral_digits xs)"
  by (simp add: numeral_digits_def)

lemma numeral_val_mono: "0 < b \<Longrightarrow> acc \<le> numeral_val b acc cs"
proof (induction cs arbitrary: acc)
  case (Cons c cs)
  have "acc \<le> acc * b + unat (the (digit_val c))" using Cons.prems by (cases b) auto
  also have "\<dots> \<le> numeral_val b (acc * b + unat (the (digit_val c))) cs" by (rule Cons.IH [OF Cons.prems])
  finally show ?case by simp
qed simp

text \<open>The range check in front of a step is exact, and the step then does not wrap around.\<close>

lemma unat_ucast_32_64 [simp]: "unat (ucast (x :: 32 word) :: 64 word) = unat x"
proof -
  have "unat x < 2 ^ 64" using unat_lt_32 [of x] by simp
  then show ?thesis by (simp add: unsigned_ucast_eq take_bit_nat_eq_self)
qed

lemma digit_range_check:
  fixes acc :: "64 word" and v base :: "32 word"
  assumes "0 < base"
  shows "acc > (- 1 - ucast v) div ucast base \<longleftrightarrow> 2 ^ 64 \<le> unat acc * unat base + unat v"
proof -
  have b: "0 < unat base" using assms by (simp add: unat_gt_0)
  have v: "unat v < 2 ^ 32" by (rule unat_lt_32)
  have m1: "unat (- 1 :: 64 word) = 2 ^ 64 - 1" by (simp add: unsigned_minus_1_eq_mask mask_eq_exp_minus_1)
  have le: "(ucast v :: 64 word) \<le> - 1" by simp
  have sub: "unat (- 1 - ucast v :: 64 word) = 2 ^ 64 - 1 - unat v"
    unfolding unat_sub [OF le] m1 by simp
  have "acc > (- 1 - ucast v) div ucast base \<longleftrightarrow> (2 ^ 64 - 1 - unat v) div unat base < unat acc"
    by (simp only: word_less_nat_alt unat_div sub unat_ucast_32_64)
  also have "\<dots> \<longleftrightarrow> 2 ^ 64 - 1 - unat v < unat acc * unat base"
    by (rule div_less_iff_less_mult [OF b])
  also have "\<dots> \<longleftrightarrow> 2 ^ 64 \<le> unat acc * unat base + unat v" using v by (simp, linarith)
  finally show ?thesis .
qed

lemma step_exact:
  fixes acc :: "64 word" and v base :: "32 word"
  assumes "unat acc * unat base + unat v < 2 ^ 64"
  shows "unat (acc * ucast base + ucast v) = unat acc * unat base + unat v"
proof -
  have m: "unat acc * unat base < 2 ^ 64" using assms by linarith
  have "unat (acc * ucast base) = unat acc * unat base"
    using m by (simp add: unat_word_ariths(2))
  then show ?thesis using assms by (simp add: unat_word_ariths(1))
qed

text \<open>What the loop over the digits returns.\<close>

definition conv_ok :: "32 word \<Rightarrow> nat \<Rightarrow> bool \<Rightarrow> 8 word list \<Rightarrow> (64 word) conv \<Rightarrow> bool" where
  "conv_ok base acc ok ds r \<longleftrightarrow> (\<exists>x. r = Some x \<and> (\<forall>e. x = Inl e \<longrightarrow> e = - EINVAL \<or> e = - ERANGE) \<and>
     (\<forall>v. x = Inr v \<longleftrightarrow> (ok \<or> ds \<noteq> []) \<and> (ds = [] \<or> is_numeral base ds) \<and> numeral_val (unat base) acc ds = unat v) \<and>
     ((ok \<or> ds \<noteq> []) \<and> (ds = [] \<or> is_numeral base ds) \<longrightarrow> x \<noteq> Inl (- EINVAL)))"

lemma conv_ok_stop:
  "conv_ok base (unat acc) ok [] (Some (if ok then Inr acc else Inl (- EINVAL)))"
  by (auto simp: conv_ok_def word_unat_eq_iff)

lemma conv_ok_refuse:
  "\<not> is_numeral base ds \<Longrightarrow> ds \<noteq> [] \<Longrightarrow> conv_ok base acc ok ds (Some (Inl (- EINVAL)))"
  by (auto simp: conv_ok_def)

lemma conv_ok_range:
  assumes "2 ^ 64 \<le> numeral_val (unat base) acc ds"
  shows "conv_ok base acc ok ds (Some (Inl (- ERANGE)))"
proof -
  have "numeral_val (unat base) acc ds \<noteq> unat v" for v :: "64 word"
    using assms unat_lt_64 [of v] by linarith
  then show ?thesis by (auto simp: conv_ok_def)
qed

lemma conv_ok_Cons:
  assumes "digit_val c = Some v" "v < base" "conv_ok base (acc * unat base + unat v) True ds r"
  shows "conv_ok base acc ok (c # ds) r"
  using assms by (auto simp: conv_ok_def is_numeral_def)

lemma kstr_loop_exact:
  "cstr m s xs \<Longrightarrow> conv_ok base (unat acc) ok (numeral_digits xs) (kstr_loop m s base acc ok)"
proof (induction xs arbitrary: s acc ok)
  case Nil
  then show ?case using conv_ok_stop [of base acc ok] by (simp add: kstr_loop.simps)
next
  case (Cons x xs)
  have x: "m s = x" "x \<noteq> 0" and tl: "cstr m (s + 1) xs" using Cons.prems by auto
  have nl: "m (s + 1) = 0 \<longleftrightarrow> xs = []" using tl by (cases xs) auto
  show ?case
  proof (cases "digit_val x")
    case None
    show ?thesis
    proof (cases "x = 0x0A \<and> xs = []")
      case True
      then show ?thesis using conv_ok_stop [of base acc ok] x None nl
        by (subst kstr_loop.simps) (simp add: numeral_digits_Cons)
    next
      case False
      then have d: "numeral_digits (x # xs) = x # numeral_digits xs" by (auto simp: numeral_digits_Cons)
      have "kstr_loop m s base acc ok = Some (Inl (- EINVAL))"
        using False x None nl by (subst kstr_loop.simps) auto
      moreover have "\<not> is_numeral base (x # numeral_digits xs)" using None by (simp add: is_numeral_def)
      ultimately show ?thesis using conv_ok_refuse d by simp
    qed
  next
    case (Some v)
    have d: "numeral_digits (x # xs) = x # numeral_digits xs" using Some by (auto simp: numeral_digits_Cons)
    show ?thesis
    proof (cases "v < base")
      case False
      have "kstr_loop m s base acc ok = Some (Inl (- EINVAL))"
        using False x Some by (subst kstr_loop.simps) (simp add: not_less)
      moreover have "\<not> is_numeral base (x # numeral_digits xs)" using False Some by (simp add: is_numeral_def)
      ultimately show ?thesis using conv_ok_refuse d by simp
    next
      case True
      have b: "0 < base" using True by (rule le_less_trans [OF word_zero_le])
      have nb: "\<not> base \<le> v" using True by (simp add: not_le)
      have bn: "0 < unat base" using b by (simp add: unat_gt_0)
      have e: "kstr_loop m s base acc ok =
        (if acc > (- 1 - ucast v) div ucast base then Some (Inl (- ERANGE))
         else kstr_loop m (s + 1) base (acc * ucast base + ucast v) True)"
        using x Some nb by (subst kstr_loop.simps) simp
      show ?thesis
      proof (cases "acc > (- 1 - ucast v) div ucast base")
        case over: True
        have "2 ^ 64 \<le> unat acc * unat base + unat v" using over digit_range_check [OF b] by blast
        also have "\<dots> \<le> numeral_val (unat base) (unat acc * unat base + unat v) (numeral_digits xs)"
          by (rule numeral_val_mono [OF bn])
        finally have "2 ^ 64 \<le> numeral_val (unat base) (unat acc) (numeral_digits (x # xs))"
          unfolding d numeral_val.simps Some option.sel .
        from conv_ok_range [OF this] show ?thesis unfolding e using over by simp
      next
        case False
        have "unat acc * unat base + unat v < 2 ^ 64" using False digit_range_check [OF b, of v acc] by (simp only: not_le)
        note st = step_exact [OF this]
        have "conv_ok base (unat acc * unat base + unat v) True (numeral_digits xs) (kstr_loop m s base acc ok)"
          using Cons.IH [OF tl, of "acc * ucast base + ucast v" True] False unfolding e st by simp
        then show ?thesis unfolding d by (rule conv_ok_Cons [OF Some True])
      qed
    qed
  qed
qed

text \<open>Where the digits of a numeral without sign start.\<close>

definition digits_at :: "mem \<Rightarrow> int \<Rightarrow> 32 word \<Rightarrow> 8 word list \<Rightarrow> bool" where
  "digits_at m s base xs \<longleftrightarrow> cstr m (kstr_start m s (kstr_radix m s base)) xs"

definition numeral_of :: "mem \<Rightarrow> int \<Rightarrow> 32 word \<Rightarrow> 8 word list \<Rightarrow> nat" where
  "numeral_of m s base xs = numeral_val (unat (kstr_radix m s base)) 0 (numeral_digits xs)"

lemma kstrtoull_raw_exact:
  assumes "digits_at m s base xs"
  shows "\<exists>x. kstrtoull_raw m s base = Some x \<and> (\<forall>e. x = Inl e \<longrightarrow> e = - EINVAL \<or> e = - ERANGE) \<and>
    (\<forall>v. x = Inr v \<longleftrightarrow> is_numeral (kstr_radix m s base) (numeral_digits xs) \<and> numeral_of m s base xs = unat v) \<and>
    (is_numeral (kstr_radix m s base) (numeral_digits xs) \<longrightarrow> x \<noteq> Inl (- EINVAL))"
proof -
  have "conv_ok (kstr_radix m s base) 0 False (numeral_digits xs) (kstrtoull_raw m s base)"
    using kstr_loop_exact [OF assms [unfolded digits_at_def], of "kstr_radix m s base" 0 False]
    by (simp add: kstrtoull_raw_def Let_def)
  then show ?thesis unfolding conv_ok_def numeral_of_def by (auto simp: is_numeral_def)
qed

section \<open>What a numeral denotes\<close>

text \<open>
  The meaning of a numeral, on the characters of the string alone: the table of the digits, the radix
  from the base or from the prefix, and the value of the digits as a number of that radix.
\<close>

definition digit_chars :: "(8 word \<times> nat) list" where
  "digit_chars =
     [(0x30, 0), (0x31, 1), (0x32, 2), (0x33, 3), (0x34, 4), (0x35, 5), (0x36, 6), (0x37, 7), (0x38, 8), (0x39, 9),
      (0x61, 10), (0x62, 11), (0x63, 12), (0x64, 13), (0x65, 14), (0x66, 15),
      (0x41, 10), (0x42, 11), (0x43, 12), (0x44, 13), (0x45, 14), (0x46, 15)]"

definition hex_prefix :: "8 word list \<Rightarrow> bool" where
  "hex_prefix t \<longleftrightarrow> take 2 t \<in> {[0x30, 0x78], [0x30, 0x58]}"

definition text_radix :: "nat \<Rightarrow> 8 word list \<Rightarrow> nat" where
  "text_radix b t =
     (if b \<noteq> 0 then b
      else if hex_prefix t \<and> 2 < length t \<and> t ! 2 \<in> fst ` set digit_chars then 16
      else if take 1 t = [0x30] then 8
      else 10)"

definition text_digits :: "nat \<Rightarrow> 8 word list \<Rightarrow> 8 word list" where
  "text_digits b t = (if text_radix b t = 16 \<and> hex_prefix t then drop 2 t else t)"

definition denotes :: "nat \<Rightarrow> 8 word list \<Rightarrow> nat \<Rightarrow> bool" where
  "denotes b t n \<longleftrightarrow> (\<exists>ds vs. text_digits b t \<in> {ds, ds @ [0x0A]} \<and> ds \<noteq> [] \<and>
     list_all2 (\<lambda>c v. (c, v) \<in> set digit_chars \<and> v < text_radix b t) ds vs \<and>
     n = (\<Sum>i<length vs. rev vs ! i * text_radix b t ^ i))"

text \<open>The code's tests on a character.\<close>

lemma or_32: "c OR 0x20 = (if bit c 5 then c else c + 0x20)" for c :: "8 word"
proof -
  have b: "bit (0x20 :: 8 word) n \<longleftrightarrow> n = 5" for n
  proof -
    have "(0x20 :: 8 word) = push_bit 5 1" by simp
    moreover have "bit (push_bit 5 (1 :: 8 word)) n \<longleftrightarrow> n = 5"
      unfolding bit_push_bit_iff bit_1_iff by auto
    ultimately show ?thesis by simp
  qed
  show ?thesis
  proof (cases "bit c 5")
    case True
    have "c OR 0x20 = c"
      by (rule bit_eqI, unfold bit_or_iff b) (use True in auto)
    then show ?thesis using True by simp
  next
    case False
    have "c AND 0x20 = 0"
      by (rule bit_eqI, unfold bit_and_iff b) (use False in auto)
    then show ?thesis using False by (simp add: disjunctive_add_eq_or)
  qed
qed

lemma tolower_fast_eq:
  assumes "k = a + 0x20" "a OR 0x20 = k" "k OR 0x20 = k"
  shows "tolower_fast c = k \<longleftrightarrow> c = k \<or> c = a"
  using assms or_32 [of c] by (auto simp: tolower_fast_def split: if_splits)

lemma byte_range_digit:
  "0x30 \<le> c \<and> c \<le> 0x39 \<longleftrightarrow> c \<in> {0x30, 0x31, 0x32, 0x33, 0x34, 0x35, 0x36, 0x37, 0x38, 0x39}" for c :: "8 word"
  by (simp add: word_le_nat_alt word_unat_eq_iff) presburger

lemma byte_range_letter:
  "0x61 \<le> c \<and> c \<le> 0x66 \<longleftrightarrow> c \<in> {0x61, 0x62, 0x63, 0x64, 0x65, 0x66}" for c :: "8 word"
  by (simp add: word_le_nat_alt word_unat_eq_iff) presburger

lemmas tolower_fast_letters =
  tolower_fast_eq [of "0x61" "0x41"] tolower_fast_eq [of "0x62" "0x42"] tolower_fast_eq [of "0x63" "0x43"]
  tolower_fast_eq [of "0x64" "0x44"] tolower_fast_eq [of "0x65" "0x45"] tolower_fast_eq [of "0x66" "0x46"]

lemma tolower_fast_x: "tolower_fast c = 0x78 \<longleftrightarrow> c = 0x78 \<or> c = 0x58"
  by (rule tolower_fast_eq) simp_all

lemma digit_val_table: "digit_val c = map_option word_of_nat (map_of digit_chars c)"
proof -
  have l: "0x61 \<le> tolower_fast c \<and> tolower_fast c \<le> 0x66 \<longleftrightarrow>
      c \<in> {0x61, 0x62, 0x63, 0x64, 0x65, 0x66} \<or> c \<in> {0x41, 0x42, 0x43, 0x44, 0x45, 0x46}"
    unfolding byte_range_letter by (simp add: tolower_fast_letters) blast
  consider (d) "c \<in> {0x30, 0x31, 0x32, 0x33, 0x34, 0x35, 0x36, 0x37, 0x38, 0x39}"
    | (l) "c \<in> {0x61, 0x62, 0x63, 0x64, 0x65, 0x66} \<or> c \<in> {0x41, 0x42, 0x43, 0x44, 0x45, 0x46}"
    | (n) "c \<notin> fst ` set digit_chars"
    unfolding digit_chars_def by auto
  then show ?thesis
  proof cases
    case d
    then show ?thesis by (auto simp: digit_val_def digit_chars_def)
  next
    case l
    then show ?thesis by (auto simp: digit_val_def digit_chars_def tolower_fast_def)
  next
    case n
    then have "map_of digit_chars c = None" by (simp add: map_of_eq_None_iff)
    moreover have "digit_val c = None"
      unfolding digit_val_def byte_range_digit l using n by (auto simp: digit_chars_def)
    ultimately show ?thesis by simp
  qed
qed

lemma ctype_xdigits:
  "map (\<lambda>m. has_any m (CT_D OR CT_X)) ctype_tab =
     replicate 48 False @ replicate 10 True @ replicate 7 False @ replicate 6 True @ replicate 26 False @ replicate 6 True @ replicate 153 False"
  by code_simp

lemma isxdigit_table: "isxdigit c \<longleftrightarrow> c \<in> fst ` set digit_chars"
proof -
  have "unat c < 2 ^ LENGTH(8)" by (rule unsigned_less)
  then have u: "unat c < 256" by simp
  have len: "length ctype_tab = 256" by (simp add: ctype_tab_def)
  have "isxdigit c \<longleftrightarrow> map (\<lambda>m. has_any m (CT_D OR CT_X)) ctype_tab ! unat c"
    using u len by (simp add: isxdigit_def ismask_def)
  also have "\<dots> \<longleftrightarrow> (48 \<le> unat c \<and> unat c < 58) \<or> (65 \<le> unat c \<and> unat c < 71) \<or> (97 \<le> unat c \<and> unat c < 103)"
    unfolding ctype_xdigits using u by (simp add: nth_append) linarith
  also have "\<dots> \<longleftrightarrow> c \<in> fst ` set digit_chars"
    by (simp add: digit_chars_def word_unat_eq_iff) presburger
  finally show ?thesis .
qed

text \<open>The digits, the radix and the start of the digits in the code's terms.\<close>

lemma digit_chars_lt: "(c, v) \<in> set digit_chars \<Longrightarrow> v < 16"
  by (auto simp: digit_chars_def)

lemma digit_chars_word: "(c, v) \<in> set digit_chars \<Longrightarrow> unat (word_of_nat v :: 32 word) = v"
  using digit_chars_lt [of c v] by (simp add: unsigned_of_nat take_bit_nat_eq_self)

lemma digit_val_chars: "digit_val c = Some w \<longleftrightarrow> (c, unat w) \<in> set digit_chars"
proof -
  have "distinct (map fst digit_chars)" by (simp add: digit_chars_def)
  then have m: "map_of digit_chars c = Some v \<longleftrightarrow> (c, v) \<in> set digit_chars" for v by simp
  show ?thesis
    unfolding digit_val_table using m digit_chars_word by (auto intro!: exI [of _ "unat w"])
qed

lemma newline_no_digit: "(0x0A, v) \<notin> set digit_chars"
  by (simp add: digit_chars_def)

lemma is_numeral_chars:
  "is_numeral b ds \<longleftrightarrow> ds \<noteq> [] \<and> (\<exists>vs. list_all2 (\<lambda>c v. (c, v) \<in> set digit_chars \<and> v < unat b) ds vs)"
proof -
  have d: "(case digit_val c of None \<Rightarrow> False | Some v \<Rightarrow> v < b) \<longleftrightarrow> (\<exists>v. (c, v) \<in> set digit_chars \<and> v < unat b)" for c
  proof (cases "digit_val c")
    case None
    have "(c, v) \<notin> set digit_chars" for v
      using digit_val_chars [of c "word_of_nat v"] digit_chars_word [of c v] None by auto
    then show ?thesis using None by simp
  next
    case (Some w)
    have "v = unat w" if "(c, v) \<in> set digit_chars" for v
    proof -
      have "distinct (map fst digit_chars)" by (simp add: digit_chars_def)
      then show ?thesis using that Some [unfolded digit_val_chars] by (metis eq_key_imp_eq_value)
    qed
    then have "(\<exists>v. (c, v) \<in> set digit_chars \<and> v < unat b) \<longleftrightarrow> unat w < unat b"
      using Some [unfolded digit_val_chars] by blast
    then show ?thesis using Some by (simp add: word_less_nat_alt)
  qed
  have "list_all (\<lambda>c. \<exists>v. P c v) ds \<longleftrightarrow> (\<exists>vs. list_all2 P ds vs)" for P :: "8 word \<Rightarrow> nat \<Rightarrow> bool"
    by (induction ds) (auto simp: list_all2_Cons1)
  then show ?thesis unfolding is_numeral_def d by simp
qed

lemma numeral_val_sum:
  "list_all2 (\<lambda>c v. (c, v) \<in> set digit_chars \<and> v < r) ds vs \<Longrightarrow>
   numeral_val r acc ds = acc * r ^ length vs + (\<Sum>i<length vs. rev vs ! i * r ^ i)"
proof (induction ds vs arbitrary: acc rule: list_all2_induct)
  case (Cons c ds v vs)
  have u: "unat (word_of_nat v :: 32 word) = v" using digit_chars_word Cons.hyps(1) by blast
  then have "digit_val c = Some (word_of_nat v)" using Cons.hyps(1) digit_val_chars by simp
  with u show ?case
    using Cons.IH [of "acc * r + v"] by (simp add: nth_append algebra_simps)
qed simp

lemma digits_newline:
  assumes "list_all2 (\<lambda>c v. (c, v) \<in> set digit_chars \<and> v < r) ds vs" "ds \<noteq> []"
  shows "xs \<in> {ds, ds @ [0x0A]} \<longleftrightarrow> numeral_digits xs = ds"
proof -
  have "last ds \<noteq> 0x0A"
    using assms newline_no_digit by (cases ds rule: rev_cases) (auto simp: list_all2_append1 list_all2_Cons1)
  moreover have "xs = butlast xs @ [0x0A]" if "xs \<noteq> []" "last xs = 0x0A"
    using that append_butlast_last_id [of xs] by simp
  ultimately show ?thesis using assms(2) by (auto simp: numeral_digits_def)
qed

lemma nul_no_digit: "0 \<notin> fst ` set digit_chars"
  by (simp add: digit_chars_def)

lemma radix_text:
  assumes "cstr m s t"
  shows "unat (kstr_radix m s base) = text_radix (unat base) t"
proof (cases "base = 0")
  case True
  consider "t = []" | c where "t = [c]" | c d where "t = [c, d]" | c d e u where "t = c # d # e # u"
    by (metis list.exhaust)
  then show ?thesis
    using assms True
    by cases (simp_all add: kstr_radix_def text_radix_def hex_prefix_def tolower_fast_x isxdigit_table nul_no_digit add.commute [of 2 s])
qed (simp add: kstr_radix_def text_radix_def unat_eq_zero)

lemma start_text:
  assumes "cstr m s t"
  shows "cstr m (kstr_start m s (kstr_radix m s base)) (text_digits (unat base) t)"
proof -
  have r: "kstr_radix m s base = 16 \<longleftrightarrow> text_radix (unat base) t = 16"
    unfolding radix_text [OF assms, symmetric] by (simp add: word_unat_eq_iff)
  consider "t = []" | c where "t = [c]" | c d u where "t = c # d # u" by (metis list.exhaust)
  then show ?thesis
    using assms unfolding kstr_start_def text_digits_def r hex_prefix_def tolower_fast_x
    by cases (auto simp: add.commute [of 2 s])
qed

lemma denotes_digits:
  assumes "cstr m s t"
  shows "digits_at m s base (text_digits (unat base) t)"
    and "denotes (unat base) t n \<longleftrightarrow>
      is_numeral (kstr_radix m s base) (numeral_digits (text_digits (unat base) t)) \<and>
      numeral_of m s base (text_digits (unat base) t) = n"
proof -
  show "digits_at m s base (text_digits (unat base) t)"
    unfolding digits_at_def by (rule start_text [OF assms])
  show "denotes (unat base) t n \<longleftrightarrow>
      is_numeral (kstr_radix m s base) (numeral_digits (text_digits (unat base) t)) \<and>
      numeral_of m s base (text_digits (unat base) t) = n"
    (is "?l \<longleftrightarrow> ?r")
  proof
    assume ?l
    then obtain ds vs where d: "text_digits (unat base) t \<in> {ds, ds @ [0x0A]}" "ds \<noteq> []"
      "list_all2 (\<lambda>c v. (c, v) \<in> set digit_chars \<and> v < text_radix (unat base) t) ds vs"
      "n = (\<Sum>i<length vs. rev vs ! i * text_radix (unat base) t ^ i)" unfolding denotes_def by blast
    have "numeral_digits (text_digits (unat base) t) = ds" using digits_newline [OF d(3,2)] d(1) by blast
    then show ?r using d(2-4) numeral_val_sum [OF d(3), of 0]
      unfolding is_numeral_chars numeral_of_def radix_text [OF assms] by auto
  next
    assume r: ?r
    define ds where "ds = numeral_digits (text_digits (unat base) t)"
    obtain vs where d: "ds \<noteq> []" "list_all2 (\<lambda>c v. (c, v) \<in> set digit_chars \<and> v < text_radix (unat base) t) ds vs"
      using r unfolding is_numeral_chars radix_text [OF assms] ds_def by blast
    have "text_digits (unat base) t \<in> {ds, ds @ [0x0A]}" using digits_newline [OF d(2,1)] by (simp add: ds_def)
    moreover have "n = (\<Sum>i<length vs. rev vs ! i * text_radix (unat base) t ^ i)"
      using r numeral_val_sum [OF d(2), of 0] unfolding numeral_of_def radix_text [OF assms] ds_def by simp
    ultimately show ?l unfolding denotes_def using d by blast
  qed
qed

text \<open>The text behind a plus sign.\<close>

definition strip_plus :: "8 word list \<Rightarrow> 8 word list" where
  "strip_plus t = (if take 1 t = [0x2B] then tl t else t)"

text \<open>
  C14. \<^verbatim>\<open>kstrtoull\<close> is exact. On every terminated string it returns; it succeeds with \<open>v\<close> exactly if, after an optional
  plus sign, the text denotes \<open>v\<close>: behind the prefix of the radix there is at least one character of the table of digits, all of
  a value below the radix, with at most a newline behind them, and \<open>v\<close> is their value as a number of that radix. A text that denotes
  a number of more than 64 bits gives \<^verbatim>\<open>-ERANGE\<close>; the only other error is \<^verbatim>\<open>-EINVAL\<close>.
\<close>

theorem kstrtoull_exact:
  assumes "cstr m s t"
  shows "\<exists>x. kstrtoull m s base = Some x \<and>
    (\<forall>v. x = Inr v \<longleftrightarrow> denotes (unat base) (strip_plus t) (unat v)) \<and>
    (\<forall>n. denotes (unat base) (strip_plus t) n \<and> 2 ^ 64 \<le> n \<longrightarrow> x = Inl (- ERANGE)) \<and>
    (\<forall>e. x = Inl e \<longrightarrow> e = - EINVAL \<or> e = - ERANGE)"
proof -
  define p where "p = (if m s = 0x2B then s + 1 else s)"
  have c: "cstr m p (strip_plus t)" using assms by (cases t) (auto simp: p_def strip_plus_def)
  note d = denotes_digits [OF c, of base]
  obtain x where x: "kstrtoull_raw m p base = Some x" "\<And>e. x = Inl e \<Longrightarrow> e = - EINVAL \<or> e = - ERANGE"
    "\<And>v. x = Inr v \<longleftrightarrow> denotes (unat base) (strip_plus t) (unat v)"
    "\<And>n. denotes (unat base) (strip_plus t) n \<Longrightarrow> x \<noteq> Inl (- EINVAL)"
    using kstrtoull_raw_exact [OF d(1)] unfolding d(2) by blast
  have "x = Inl (- ERANGE)" if n: "denotes (unat base) (strip_plus t) n" "2 ^ 64 \<le> n" for n
  proof (cases x)
    case (Inl e)
    then show ?thesis using x(2) x(4) [OF n(1)] by blast
  next
    case (Inr v)
    then have "n = unat v" using x(3) n(1) unfolding d(2) by simp
    then show ?thesis using n(2) unat_lt_64 [of v] by linarith
  qed
  then show ?thesis using x unfolding kstrtoull_def p_def [symmetric] by blast
qed

theorem kstrtoull_exact_witness:
  "kstrtoull (\<lambda>a. if a = 0 then 0x2B else if a = 1 then 0x30 else if a = 2 then 0x58 else if a = 3 then 0x32 else
     if a = 4 then 0x61 else if a = 5 then 0x0A else 0) 0 0 = Some (Inr 42)"
proof -
  define m :: mem where "m = (\<lambda>a. if a = 0 then 0x2B else if a = 1 then 0x30 else if a = 2 then 0x58 else if a = 3 then 0x32 else
     if a = 4 then 0x61 else if a = 5 then 0x0A else 0)"
  have c: "cstr m 0 [0x2B, 0x30, 0x58, 0x32, 0x61, 0x0A]" by (simp add: m_def)
  have s: "strip_plus [0x2B, 0x30, 0x58, 0x32, 0x61, 0x0A] = [0x30, 0x58, 0x32, 0x61, 0x0A]" by (simp add: strip_plus_def)
  have r: "text_radix 0 [0x30, 0x58, 0x32, 0x61, 0x0A] = 16" by (simp add: text_radix_def hex_prefix_def digit_chars_def)
  then have "text_digits 0 [0x30, 0x58, 0x32, 0x61, 0x0A] = [0x32, 0x61] @ [0x0A]" by (simp add: text_digits_def hex_prefix_def)
  then have "denotes (unat (0 :: 32 word)) [0x30, 0x58, 0x32, 0x61, 0x0A] (unat (42 :: 64 word))"
    unfolding denotes_def by (intro exI [of _ "[0x32, 0x61]"] exI [of _ "[2, 10]"]) (simp add: r digit_chars_def)
  then have "kstrtoull m 0 0 = Some (Inr 42)" using kstrtoull_exact [OF c, of 0] unfolding s by metis
  then show ?thesis by (simp only: m_def)
qed

section \<open>Signed numbers\<close>

lemma uint_lt_64: "uint (x :: 64 word) < 2 ^ 64"
proof -
  have "uint x < 2 ^ LENGTH(64)" by (rule unsigned_less)
  then show ?thesis by simp
qed

lemma sint_64:
  fixes x :: "64 word"
  shows "sint x = (if uint x < 2 ^ 63 then uint x else uint x - 2 ^ 64)"
proof -
  have "sint x = (uint x + 2 ^ 63) mod 2 ^ 64 - 2 ^ 63"
    using int_word_sint [of "uint x", where 'a = 64] by simp
  moreover have "(uint x + 2 ^ 63) mod 2 ^ 64 = (if uint x < 2 ^ 63 then uint x + 2 ^ 63 else uint x - 2 ^ 63)"
  proof (cases "uint x < 2 ^ 63")
    case True
    then show ?thesis by (simp add: mod_pos_pos_trivial)
  next
    case False
    have "(uint x + 2 ^ 63) mod 2 ^ 64 = (uint x - 2 ^ 63 + 2 ^ 64) mod 2 ^ 64" by (simp add: add.commute)
    also have "\<dots> = (uint x - 2 ^ 63) mod 2 ^ 64" by (rule mod_add_self2)
    also have "\<dots> = uint x - 2 ^ 63" using False uint_lt_64 [of x] by (intro mod_pos_pos_trivial) simp_all
    finally show ?thesis using False by simp
  qed
  ultimately show ?thesis by simp
qed

lemma uint_minus_64: "uint (- x :: 64 word) = (if x = 0 then 0 else 2 ^ 64 - uint x)"
proof (cases "x = 0")
  case False
  then have "0 < uint x" by (simp add: word_neq_0_conv [symmetric] uint_0_iff order.not_eq_order_implies_strict)
  have "uint (- x) = (- uint x + 2 ^ 64) mod 2 ^ 64" by (simp add: uint_word_ariths)
  also have "\<dots> = 2 ^ 64 - uint x"
    using \<open>0 < uint x\<close> uint_lt_64 [of x] by (subst mod_pos_pos_trivial) simp_all
  finally show ?thesis using False by simp
qed simp

text \<open>A signed 64-bit number survives the cast to 32 bits and back exactly if it is in the 32-bit range.\<close>

lemma sint_ucast_32:
  fixes x :: "64 word"
  shows "sint (ucast x :: 32 word) = signed_take_bit 31 (sint x)"
proof -
  have "sint (ucast x :: 32 word) = signed_take_bit 31 (uint (ucast x :: 32 word))" by (simp add: sint_uint)
  also have "\<dots> = signed_take_bit 31 (uint x)" by (simp add: unsigned_ucast_eq signed_take_bit_take_bit)
  also have "\<dots> = signed_take_bit 31 (sint x)" by (simp add: sint_uint)
  finally show ?thesis .
qed

lemma scast_back:
  fixes x :: "64 word"
  shows "x = scast (ucast x :: 32 word) \<longleftrightarrow> - (2 ^ 31) \<le> sint x \<and> sint x < 2 ^ 31"
proof -
  have "sint (scast (ucast x :: 32 word) :: 64 word) = sint (ucast x :: 32 word)"
    using sint_greater_eq [of "ucast x :: 32 word"] sint_less [of "ucast x :: 32 word"]
    by (simp add: signed_scast_eq signed_take_bit_int_eq_self)
  then have "x = scast (ucast x :: 32 word) \<longleftrightarrow> signed_take_bit 31 (sint x) = sint x"
    unfolding sint_ucast_32 by (metis signed_word_eqI)
  then show ?thesis by (simp only: signed_take_bit_int_eq_self_iff)
qed

lemma sint_ucast_in_range:
  fixes x :: "64 word"
  assumes "- (2 ^ 31) \<le> sint x" "sint x < 2 ^ 31"
  shows "sint (ucast x :: 32 word) = sint x"
  unfolding sint_ucast_32 using assms by (simp only: signed_take_bit_int_eq_self_iff)

text \<open>The digits of a signed numeral start behind the sign.\<close>

definition sign_end :: "mem \<Rightarrow> int \<Rightarrow> int" where
  "sign_end m s = (if m s = 0x2D \<or> m s = 0x2B then s + 1 else s)"

text \<open>The number a signed numeral stands for.\<close>

definition signed_numeral :: "mem \<Rightarrow> int \<Rightarrow> 32 word \<Rightarrow> 8 word list \<Rightarrow> int" where
  "signed_numeral m s base xs =
     (if m s = 0x2D then - int (numeral_of m (sign_end m s) base xs) else int (numeral_of m (sign_end m s) base xs))"

lemma negate_exact:
  fixes t :: "64 word"
  shows "\<not> 0 \<le> sint (- t) \<longleftrightarrow> t \<noteq> 0 \<and> unat t \<le> 2 ^ 63"
    and "t \<noteq> 0 \<Longrightarrow> unat t \<le> 2 ^ 63 \<Longrightarrow> sint (- t) = - int (unat t)"
proof -
  have u: "int (unat t) = uint t" by simp
  have le: "unat t \<le> 2 ^ 63 \<longleftrightarrow> uint t \<le> 2 ^ 63"
  proof -
    have "unat t \<le> 2 ^ 63 \<longleftrightarrow> int (unat t) \<le> int (2 ^ 63)" by (simp only: of_nat_le_iff)
    then show ?thesis unfolding u by simp
  qed
  have m: "sint (- t) = (if t = 0 then 0 else if uint t \<le> 2 ^ 63 then - uint t else 2 ^ 64 - uint t)"
    unfolding sint_64 uint_minus_64 using uint_lt_64 [of t] by auto
  have pos: "0 < uint t" if "t \<noteq> 0"
    using that by (simp add: uint_0_iff order.not_eq_order_implies_strict)
  show "\<not> 0 \<le> sint (- t) \<longleftrightarrow> t \<noteq> 0 \<and> unat t \<le> 2 ^ 63"
    unfolding m le using pos uint_lt_64 [of t] by auto
  show "sint (- t) = - int (unat t)" if "t \<noteq> 0" "unat t \<le> 2 ^ 63"
    using that unfolding m le u by simp
qed

lemma keep_exact:
  fixes t :: "64 word"
  shows "\<not> sint t < 0 \<longleftrightarrow> unat t < 2 ^ 63" and "unat t < 2 ^ 63 \<Longrightarrow> sint t = int (unat t)"
proof -
  have u: "int (unat t) = uint t" by simp
  have le: "unat t < 2 ^ 63 \<longleftrightarrow> uint t < 2 ^ 63"
  proof -
    have "unat t < 2 ^ 63 \<longleftrightarrow> int (unat t) < int (2 ^ 63)" by (simp only: of_nat_less_iff)
    then show ?thesis unfolding u by simp
  qed
  show "\<not> sint t < 0 \<longleftrightarrow> unat t < 2 ^ 63" unfolding sint_64 le using uint_lt_64 [of t] by auto
  show "sint t = int (unat t)" if "unat t < 2 ^ 63" using that unfolding sint_64 le u by simp
qed

lemma conv_bind_Inr:
  "conv_bind r f = Some (Inr w) \<longleftrightarrow> (\<exists>v. r = Some (Inr v) \<and> f v = Inr w)"
proof (cases r)
  case (Some x)
  then show ?thesis by (cases x) (auto simp: conv_bind_def)
qed (simp add: conv_bind_def)

lemma kstrtoull_raw_Inr:
  assumes "digits_at m s base xs"
  shows "kstrtoull_raw m s base = Some (Inr v) \<longleftrightarrow>
    is_numeral (kstr_radix m s base) (numeral_digits xs) \<and> numeral_of m s base xs = unat v"
  using kstrtoull_raw_exact [OF assms] by (metis option.inject)

lemma unat_of_nat_64: "n < 2 ^ 64 \<Longrightarrow> unat (of_nat n :: 64 word) = n"
  by (simp add: unsigned_of_nat take_bit_nat_eq_self)

text \<open>\<^verbatim>\<open>kstrtoll\<close> succeeds exactly on numerals in range, but not on a negative zero.\<close>

lemma kstrtoll_Inr:
  assumes "digits_at m (sign_end m s) base xs"
  shows "kstrtoll m s base = Some (Inr w) \<longleftrightarrow>
    is_numeral (kstr_radix m (sign_end m s) base) (numeral_digits xs) \<and>
    (m s = 0x2D \<longrightarrow> signed_numeral m s base xs \<noteq> 0) \<and>
    - (2 ^ 63) \<le> signed_numeral m s base xs \<and> signed_numeral m s base xs < 2 ^ 63 \<and> sint w = signed_numeral m s base xs"
proof -
  define n where "n = numeral_of m (sign_end m s) base xs"
  define N where "N \<longleftrightarrow> is_numeral (kstr_radix m (sign_end m s) base) (numeral_digits xs)"
  have raw: "kstrtoull_raw m (sign_end m s) base = Some (Inr v) \<longleftrightarrow> N \<and> n = unat v" for v
    unfolding kstrtoull_raw_Inr [OF assms] N_def n_def ..
  have inj: "w = v \<longleftrightarrow> sint w = sint v" for v :: "64 word" by (metis signed_word_eqI)
  show ?thesis
  proof (cases "m s = 0x2D")
    case True
    have se: "sign_end m s = s + 1" and sn: "signed_numeral m s base xs = - int n"
      using True by (simp_all add: sign_end_def signed_numeral_def n_def)
    have "kstrtoll m s base = Some (Inr w) \<longleftrightarrow>
      (\<exists>t. (N \<and> n = unat t) \<and> \<not> 0 \<le> sint (- t) \<and> w = - t)"
      using True raw unfolding se by (auto simp: kstrtoll_def conv_bind_Inr split: if_splits)
    also have "\<dots> \<longleftrightarrow> (\<exists>t :: 64 word. (N \<and> n = unat t) \<and> n \<noteq> 0 \<and> n \<le> 2 ^ 63 \<and> sint w = - int n)"
      using negate_exact inj by (metis unat_eq_zero)
    also have "\<dots> \<longleftrightarrow> N \<and> n \<noteq> 0 \<and> n \<le> 2 ^ 63 \<and> sint w = - int n"
    proof (cases "n \<le> 2 ^ 63")
      case True
      then have "n = unat (of_nat n :: 64 word)" using unat_of_nat_64 [of n] by simp
      then show ?thesis by metis
    qed simp
    finally show ?thesis unfolding sn N_def [symmetric] using True by auto
  next
    case False
    have sn: "signed_numeral m s base xs = int n"
      using False by (simp add: signed_numeral_def n_def)
    have ku: "kstrtoull m s base = kstrtoull_raw m (sign_end m s) base"
      using False by (simp add: kstrtoull_def sign_end_def)
    have "kstrtoll m s base = Some (Inr w) \<longleftrightarrow> (N \<and> n = unat w) \<and> \<not> sint w < 0"
      using False raw by (auto simp: kstrtoll_def ku conv_bind_Inr split: if_splits)
    also have "\<dots> \<longleftrightarrow> N \<and> n < 2 ^ 63 \<and> sint w = int n"
      using keep_exact [of w] by (metis nat_int of_nat_0_le_iff linorder_not_less)
    finally show ?thesis unfolding sn N_def [symmetric] using False by auto
  qed
qed

lemma kstrtoint_Inr:
  assumes "digits_at m (sign_end m s) base xs"
  shows "kstrtoint m s base = Some (Inr w) \<longleftrightarrow>
    is_numeral (kstr_radix m (sign_end m s) base) (numeral_digits xs) \<and>
    (m s = 0x2D \<longrightarrow> signed_numeral m s base xs \<noteq> 0) \<and>
    - (2 ^ 31) \<le> signed_numeral m s base xs \<and> signed_numeral m s base xs < 2 ^ 31 \<and> sint w = signed_numeral m s base xs"
proof -
  have "kstrtoint m s base = Some (Inr w) \<longleftrightarrow>
    (\<exists>v. kstrtoll m s base = Some (Inr v) \<and> - (2 ^ 31) \<le> sint v \<and> sint v < 2 ^ 31 \<and> w = ucast v)"
    unfolding kstrtoint_def conv_bind_Inr using scast_back by (metis (no_types, lifting) sum.distinct(1) sum.inject(2))
  also have "\<dots> \<longleftrightarrow> (\<exists>v. kstrtoll m s base = Some (Inr v) \<and> - (2 ^ 31) \<le> sint v \<and> sint v < 2 ^ 31 \<and> sint w = sint v)"
    using sint_ucast_in_range by (metis signed_word_eqI)
  finally have e: "kstrtoint m s base = Some (Inr w) \<longleftrightarrow> \<dots>" .
  show ?thesis
    unfolding e kstrtoll_Inr [OF assms]
  proof (intro iffI, goal_cases)
    case 1
    then show ?case by auto
  next
    case 2
    have "sint (word_of_int (sint w) :: 64 word) = sint w"
      using 2 by (simp add: int_word_sint mod_pos_pos_trivial)
    then show ?case using 2 by (intro exI [of _ "word_of_int (sint w)"]) auto
  qed
qed

text \<open>The text behind a sign, and the sign.\<close>

definition strip_sign :: "8 word list \<Rightarrow> 8 word list" where
  "strip_sign t = (if take 1 t \<in> {[0x2B], [0x2D]} then tl t else t)"

definition with_sign :: "8 word list \<Rightarrow> nat \<Rightarrow> int" where
  "with_sign t n = (if take 1 t = [0x2D] then - int n else int n)"

text \<open>
  C22. \<^verbatim>\<open>kstrtoint\<close> is exact but for the negative zero. On a terminated string it succeeds with \<open>w\<close> exactly if the text behind
  an optional sign denotes a number that, with the sign, is in the range of a 32-bit integer, and \<open>w\<close> is that number; except
  that a numeral with a minus sign and value zero is refused.
\<close>

theorem kstrtoint_exact:
  assumes "cstr m s t"
  shows "kstrtoint m s base = Some (Inr w) \<longleftrightarrow>
    (\<exists>n. denotes (unat base) (strip_sign t) n \<and> (take 1 t = [0x2D] \<longrightarrow> n \<noteq> 0) \<and>
      - (2 ^ 31) \<le> with_sign t n \<and> with_sign t n < 2 ^ 31 \<and> sint w = with_sign t n)"
proof -
  have c: "cstr m (sign_end m s) (strip_sign t)" using assms by (cases t) (auto simp: sign_end_def strip_sign_def)
  have neg: "m s = 0x2D \<longleftrightarrow> take 1 t = [0x2D]" using assms by (cases t) auto
  note d = denotes_digits [OF c, of base]
  have "signed_numeral m s base (text_digits (unat base) (strip_sign t)) =
      with_sign t (numeral_of m (sign_end m s) base (text_digits (unat base) (strip_sign t)))"
    by (simp add: signed_numeral_def with_sign_def neg)
  then show ?thesis unfolding kstrtoint_Inr [OF d(1)] d(2) neg by (auto simp: with_sign_def)
qed

theorem kstrtoint_exact_witness:
  "kstrtoint (\<lambda>a. if a = 0 then 0x2D else if a = 1 then 0x37 else 0) 0 10 = Some (Inr (- 7)) \<and>
   kstrtoint (\<lambda>a. if a = 0 then 0x2D else if a = 1 then 0x30 else 0) 0 10 \<noteq> Some (Inr 0)"
proof
  let ?m = "\<lambda>a :: int. if a = 0 then 0x2D else if a = 1 then 0x37 else 0 :: 8 word"
  have "denotes (unat (10 :: 32 word)) (strip_sign [0x2D, 0x37]) 7"
    unfolding denotes_def
    by (intro exI [of _ "[0x37]"] exI [of _ "[7]"])
      (simp add: strip_sign_def text_digits_def text_radix_def hex_prefix_def digit_chars_def)
  then show "kstrtoint ?m 0 10 = Some (Inr (- 7))"
    using kstrtoint_exact [of ?m 0 "[0x2D, 0x37]" 10 "- 7"] by (force simp: with_sign_def)
next
  let ?m = "\<lambda>a :: int. if a = 0 then 0x2D else if a = 1 then 0x30 else 0 :: 8 word"
  show "kstrtoint ?m 0 10 \<noteq> Some (Inr 0)"
    using kstrtoint_exact [of ?m 0 "[0x2D, 0x30]" 10 0] by (auto simp: with_sign_def)
qed

end
