(* ===== verification/Ds_Store.thy ===== *)
theory Ds_Store
  imports Nucleos_Prelude
begin

unbundle bit_operations_syntax

text \<open>
  The data store server, \<^verbatim>\<open>servers/ds/store.c\<close> and the main loop of \<^verbatim>\<open>servers/ds/main.c\<close>: a table of named
  values, and subscriptions to names by regular expressions. The safe copies of the kernel, the regular expression library and the
  contents of the uninitialised stack are arguments. A string in a buffer is the list of its bytes in front of the terminator.
  The state records the copies made to clients and the notifications sent. \<^term>\<open>None\<close> is a panic or a read beyond a buffer.
\<close>

abbreviation (input) DS_IN_USE :: "32 word" where "DS_IN_USE \<equiv> 0x0001"
abbreviation (input) DS_INITIAL :: "32 word" where "DS_INITIAL \<equiv> 0x0004"
abbreviation (input) DS_TYPE_U32 :: "32 word" where "DS_TYPE_U32 \<equiv> 0x0100"
abbreviation (input) DS_TYPE_STR :: "32 word" where "DS_TYPE_STR \<equiv> 0x0200"
abbreviation (input) DS_TYPE_MASK :: "32 word" where "DS_TYPE_MASK \<equiv> 0xff00"
abbreviation (input) DS_MAX_KEYLEN :: int where "DS_MAX_KEYLEN \<equiv> 80"
abbreviation (input) DS_MAX_VALLEN :: int where "DS_MAX_VALLEN \<equiv> 100"
abbreviation (input) NR_DS_KEYS :: nat where "NR_DS_KEYS \<equiv> 64"
abbreviation (input) NR_DS_SUBS :: nat where "NR_DS_SUBS \<equiv> 128"

abbreviation (input) DS_EINVAL :: int where "DS_EINVAL \<equiv> 22"
abbreviation (input) DS_EAGAIN :: int where "DS_EAGAIN \<equiv> 11"
abbreviation (input) DS_ESRCH :: int where "DS_ESRCH \<equiv> 3"
abbreviation (input) DS_ENOSPC :: int where "DS_ENOSPC \<equiv> 28"

type_synonym str = "8 word list"

section \<open>Data\<close>

text \<open>
  A slot. Its type is set when it is taken and never changes, so the two members of the union are kept apart; the string
  member is the whole buffer of \<^verbatim>\<open>DS_MAX_VALLEN\<close> bytes. \<open>ds_old_subs\<close> are the indices of the set bits.
\<close>

record data_store =
  ds_flags :: "32 word"
  ds_key :: str
  ds_val_u32 :: "32 word"
  ds_val_str :: str
  ds_old_subs :: "nat set"

record 're subscription =
  sub_flags :: "32 word"
  sub_regex :: 're
  sub_owner :: int

record 're ds =
  ds_store :: "nat \<Rightarrow> data_store"
  ds_subs :: "nat \<Rightarrow> 're subscription"
  nr_in_use :: nat
  ds_copies :: "(int \<times> int \<times> str) list"
  ds_notes :: "int list"

text \<open>The fields of a request that the server uses.\<close>

record dsmsg =
  ds_source :: int
  m_key_grant :: int
  m_key_len :: int
  m_flags :: "32 word"
  m_val :: "32 word"
  m_val_len :: int

text \<open>
  What the server calls: copying \<open>n\<close> bytes from a grant of a process (an error code or the bytes), the result of copying
  to one, the compiler and matcher of regular expressions, and the old contents of a buffer on the stack.
\<close>

record 're dsenv =
  safecopyfrom :: "int \<Rightarrow> int \<Rightarrow> int \<Rightarrow> int + str"
  safecopyto :: "int \<Rightarrow> int \<Rightarrow> str \<Rightarrow> int"
  regcomp :: "str \<Rightarrow> 're option"
  regexec :: "'re \<Rightarrow> str \<Rightarrow> bool"
  stack :: str

section \<open>Operations\<close>

definition ds_init :: "'re ds \<Rightarrow> 're ds" where
  "ds_init s = s\<lparr>ds_store := (\<lambda>i. if i < NR_DS_KEYS then (ds_store s i)\<lparr>ds_flags := 0, ds_old_subs := {}\<rparr> else ds_store s i),
                 ds_subs := (\<lambda>i. if i < NR_DS_SUBS then (ds_subs s i)\<lparr>sub_flags := 0\<rparr> else ds_subs s i)\<rparr>"

definition in_use :: "32 word \<Rightarrow> bool" where
  "in_use f \<longleftrightarrow> f AND DS_IN_USE \<noteq> 0"

definition find_key :: "'re ds \<Rightarrow> str \<Rightarrow> 32 word \<Rightarrow> nat option" where
  "find_key s key t = find (\<lambda>i. in_use (ds_flags (ds_store s i)) \<and>
     ds_flags (ds_store s i) AND t = t \<and> ds_key (ds_store s i) = key) [0..<NR_DS_KEYS]"

text \<open>The string in a buffer of \<open>n\<close> bytes after \<open>bs\<close> was copied to its start and its last byte was cleared.\<close>

definition buf_string :: "'re dsenv \<Rightarrow> int \<Rightarrow> str \<Rightarrow> str" where
  "buf_string e n bs = takeWhile (\<lambda>c. c \<noteq> 0) (take (nat n - 1) (bs @ drop (length bs) (stack e)))"

definition upd_slot :: "nat \<Rightarrow> (data_store \<Rightarrow> data_store) \<Rightarrow> 're ds \<Rightarrow> 're ds" where
  "upd_slot i f s = s\<lparr>ds_store := (ds_store s)(i := f (ds_store s i))\<rparr>"

definition check_subscriber :: "'re dsenv \<Rightarrow> nat \<Rightarrow> nat \<Rightarrow> 're ds \<Rightarrow> 're ds" where
  "check_subscriber e d i s =
     (if in_use (sub_flags (ds_subs s i)) then
        (if regexec e (sub_regex (ds_subs s i)) (ds_key (ds_store s d))
         then (upd_slot d (\<lambda>x. x\<lparr>ds_old_subs := insert i (ds_old_subs x)\<rparr>) s)
                \<lparr>ds_notes := ds_notes s @ [sub_owner (ds_subs s i)]\<rparr>
         else upd_slot d (\<lambda>x. x\<lparr>ds_old_subs := ds_old_subs x - {i}\<rparr>) s)
      else s)"

definition check_subscribers :: "'re dsenv \<Rightarrow> nat \<Rightarrow> 're ds \<Rightarrow> 're ds" where
  "check_subscribers e d s = fold (check_subscriber e d) [0..<NR_DS_SUBS] s"

text \<open>Storing the value once there is a slot.\<close>

definition store_value :: "'re dsenv \<Rightarrow> dsmsg \<Rightarrow> 32 word \<Rightarrow> nat \<Rightarrow> 're ds \<Rightarrow> int \<times> 're ds" where
  "store_value e m t d s =
     (if t = DS_TYPE_U32 then (0, check_subscribers e d (upd_slot d (\<lambda>x. x\<lparr>ds_val_u32 := m_val m\<rparr>) s))
      else if m_val_len m < 1 \<or> m_val_len m > DS_MAX_VALLEN then (- DS_EINVAL, s)
      else case safecopyfrom e (ds_source m) (sint (m_val m)) (m_val_len m) of
             Inl r \<Rightarrow> (r, s)
           | Inr bs \<Rightarrow> (0, check_subscribers e d
               (upd_slot d (\<lambda>x. x\<lparr>ds_val_str := bs @ drop (length bs) (ds_val_str x)\<rparr>) s)))"

text \<open>The slot for a key, a new one if there is none.\<close>

definition publish_slot :: "dsmsg \<Rightarrow> str \<Rightarrow> 32 word \<Rightarrow> 're ds \<Rightarrow> (nat \<times> 're ds) option" where
  "publish_slot m key t s =
     (case find_key s key t of
        Some d \<Rightarrow> Some (d, s)
      | None \<Rightarrow>
          if nr_in_use s \<ge> NR_DS_KEYS then None
          else Some (nr_in_use s,
            (upd_slot (nr_in_use s) (\<lambda>x. x\<lparr>ds_key := key, ds_flags := DS_IN_USE OR m_flags m\<rparr>) s)
              \<lparr>nr_in_use := nr_in_use s + 1\<rparr>))"

definition do_publish :: "'re dsenv \<Rightarrow> dsmsg \<Rightarrow> 're ds \<Rightarrow> int \<times> 're ds" where
  "do_publish e m s =
     (if m_key_len m > DS_MAX_KEYLEN \<or> m_key_len m < 2 then (- DS_EINVAL, s)
      else let t = m_flags m AND DS_TYPE_MASK
        in if t \<noteq> DS_TYPE_U32 \<and> t \<noteq> DS_TYPE_STR then (- DS_EINVAL, s)
           else case safecopyfrom e (ds_source m) (m_key_grant m) (m_key_len m) of
             Inl r \<Rightarrow> (r, s)
           | Inr bs \<Rightarrow>
               (case publish_slot m (buf_string e DS_MAX_KEYLEN bs) t s of
                  None \<Rightarrow> (- DS_EAGAIN, s)
                | Some (d, s1) \<Rightarrow> store_value e m t d s1))"

text \<open>
  Copying a string with its terminator from a buffer to the client, at most \<open>lim\<close> bytes. A string that is not terminated
  inside its buffer would be read beyond it, and a negative limit asks for a copy far beyond the buffer.
\<close>

definition copy_string :: "'re dsenv \<Rightarrow> int \<Rightarrow> int \<Rightarrow> str \<Rightarrow> int \<Rightarrow> 're ds \<Rightarrow> (int \<times> 're ds) option" where
  "copy_string e who grant buf lim s =
     (if 0 \<in> set buf \<and> 0 \<le> lim then
        (let bs = take (nat lim) (takeWhile (\<lambda>c. c \<noteq> 0) buf @ [0]); r = safecopyto e who grant bs
         in Some (r, if r = 0 then s\<lparr>ds_copies := ds_copies s @ [(who, grant, bs)]\<rparr> else s))
      else None)"

text \<open>\<^verbatim>\<open>do_retrieve\<close> compares the length, an unsigned number, with the limit of the client: a negative limit is a large one.\<close>

definition do_retrieve :: "'re dsenv \<Rightarrow> dsmsg \<Rightarrow> 're ds \<Rightarrow> (int \<times> dsmsg \<times> 're ds) option" where
  "do_retrieve e m s =
     (if m_key_len m > DS_MAX_KEYLEN \<or> m_key_len m < 1 then Some (- DS_EINVAL, m, s)
      else case safecopyfrom e (ds_source m) (m_key_grant m) (m_key_len m) of
             Inl r \<Rightarrow> Some (r, m, s)
           | Inr bs \<Rightarrow>
               let t = m_flags m AND DS_TYPE_MASK
               in case find_key s (buf_string e DS_MAX_KEYLEN bs) t of
                    None \<Rightarrow> Some (- DS_ESRCH, m, s)
                  | Some d \<Rightarrow>
                      if t = DS_TYPE_U32 then Some (0, m\<lparr>m_val := ds_val_u32 (ds_store s d)\<rparr>, s)
                      else if t = DS_TYPE_STR then
                        map_option (\<lambda>(r, s1). (r, m, s1))
                          (copy_string e (ds_source m) (sint (m_val m)) (ds_val_str (ds_store s d)) (uwrap32 (m_val_len m)) s)
                      else None)"

text \<open>The first subscription of the client and the first slot flagged for it.\<close>

definition check_match :: "int \<Rightarrow> 32 word \<Rightarrow> 're ds \<Rightarrow> (nat \<times> nat) option" where
  "check_match who t s = find (\<lambda>(i, d).
     in_use (sub_flags (ds_subs s i)) \<and> who = sub_owner (ds_subs s i) \<and>
     in_use (ds_flags (ds_store s d)) \<and> i \<in> ds_old_subs (ds_store s d) \<and>
     t = ds_flags (ds_store s d) AND DS_TYPE_MASK) (List.product [0..<NR_DS_SUBS] [0..<NR_DS_KEYS])"

text \<open>Copying the value of a matching slot.\<close>

definition check_value :: "'re dsenv \<Rightarrow> dsmsg \<Rightarrow> 32 word \<Rightarrow> data_store \<Rightarrow> 're ds \<Rightarrow> (int \<times> dsmsg \<times> 're ds) option" where
  "check_value e m t x s =
     (if t = DS_TYPE_STR then
        map_option (\<lambda>(r, s1). (r, m, s1)) (copy_string e (ds_source m) (sint (m_val m)) (ds_val_str x) (m_val_len m) s)
      else if t = DS_TYPE_U32 then Some (0, m\<lparr>m_val := ds_val_u32 x\<rparr>, s)
      else None)"

definition do_check :: "'re dsenv \<Rightarrow> dsmsg \<Rightarrow> 're ds \<Rightarrow> (int \<times> dsmsg \<times> 're ds) option" where
  "do_check e m s =
     (let t = m_flags m AND DS_TYPE_MASK
      in if t = 0 then Some (- DS_EINVAL, m, s)
         else case check_match (ds_source m) t s of
                None \<Rightarrow> Some (- DS_ESRCH, m, s)
              | Some (i, d) \<Rightarrow>
                  (let s1 = upd_slot d (\<lambda>x. x\<lparr>ds_old_subs := ds_old_subs x - {i}\<rparr>) s
                   in case copy_string e (ds_source m) (m_key_grant m) (ds_key (ds_store s d) @ [0]) (m_key_len m) s1 of
                        None \<Rightarrow> None
                      | Some (r, s2) \<Rightarrow> if r \<noteq> 0 then Some (r, m, s2) else check_value e m t (ds_store s d) s2))"

text \<open>The expression of a subscription: the text of the client between anchors, cut at 79 bytes.\<close>

definition anchored :: "'re dsenv \<Rightarrow> str \<Rightarrow> str" where
  "anchored e bs = 0x5E # takeWhile (\<lambda>c. c \<noteq> 0) (take 78 (bs @ drop (length bs) (stack e))) @ [0x24]"

definition initial_list :: "'re dsenv \<Rightarrow> 're \<Rightarrow> nat \<Rightarrow> 're ds \<Rightarrow> 're ds" where
  "initial_list e re i s = s\<lparr>ds_store := (\<lambda>d.
     if d < NR_DS_KEYS \<and> in_use (ds_flags (ds_store s d)) \<and> regexec e re (ds_key (ds_store s d))
     then (ds_store s d)\<lparr>ds_old_subs := insert i (ds_old_subs (ds_store s d))\<rparr> else ds_store s d)\<rparr>"

definition do_subscribe :: "'re dsenv \<Rightarrow> dsmsg \<Rightarrow> 're ds \<Rightarrow> int \<times> 're ds" where
  "do_subscribe e m s =
     (if m_key_len m < 2 \<or> m_key_len m > DS_MAX_KEYLEN then (- DS_EINVAL, s)
      else case safecopyfrom e (ds_source m) (m_key_grant m) (m_key_len m) of
             Inl r \<Rightarrow> (r, s)
           | Inr bs \<Rightarrow>
               (case find (\<lambda>i. \<not> in_use (sub_flags (ds_subs s i))) [0..<NR_DS_SUBS] of
                  None \<Rightarrow> (- DS_ENOSPC, s)
                | Some i \<Rightarrow>
                    (case regcomp e (anchored e bs) of
                       None \<Rightarrow> (- DS_EINVAL, s)
                     | Some re \<Rightarrow>
                         let s1 = s\<lparr>ds_subs := (ds_subs s)(i := \<lparr>sub_flags = DS_IN_USE OR (m_flags m AND DS_TYPE_MASK),
                                     sub_regex = re, sub_owner = ds_source m\<rparr>)\<rparr>;
                             hit = (\<exists>d\<in>set [0..<NR_DS_KEYS]. in_use (ds_flags (ds_store s d)) \<and> regexec e re (ds_key (ds_store s d)))
                         in (0, if m_flags m AND DS_INITIAL \<noteq> 0
                                then (initial_list e re i s1)\<lparr>ds_notes := ds_notes s @ (if hit then [ds_source m] else [])\<rparr>
                                else s1))))"

text \<open>\<^verbatim>\<open>do_getsysinfo\<close>: its first parameter shares a message field with the key length; \<open>datacopy\<close> is the result of copying the table to an address of a process.\<close>

definition do_getsysinfo :: "(int \<Rightarrow> 32 word \<Rightarrow> int) \<Rightarrow> dsmsg \<Rightarrow> int" where
  "do_getsysinfo datacopy m = (if m_key_len m = 5 then datacopy (ds_source m) (m_val m) else - DS_EINVAL)"

text \<open>
  One turn of the main loop, \<^verbatim>\<open>servers/ds/main.c\<close>, for a received message: \<open>who_p\<close> is the process number of the sender, \<open>sigterm\<close> whether the process manager reports that
  signal. A notification of the process manager that is not the end of the server is then treated as a request.
\<close>

datatype ds_out = Ds_Reply int dsmsg | Ds_Silent | Ds_Exit

definition ds_send :: "int \<Rightarrow> dsmsg \<Rightarrow> ds_out" where
  "ds_send r m = (if r \<noteq> - 201 then Ds_Reply r m else Ds_Silent)"

definition ds_call :: "'re dsenv \<Rightarrow> 32 word \<Rightarrow> (int \<Rightarrow> 32 word \<Rightarrow> int) \<Rightarrow> dsmsg \<Rightarrow> 're ds \<Rightarrow> (int \<times> dsmsg \<times> 're ds) option" where
  "ds_call e callnr datacopy m s =
     (if callnr = 0x800 then (case do_publish e m s of (r, s') \<Rightarrow> Some (r, m, s'))
      else if callnr = 0x802 then do_retrieve e m s
      else if callnr = 0x801 then (case do_subscribe e m s of (r, s') \<Rightarrow> Some (r, m, s'))
      else if callnr = 0x803 then do_check e m s
      else if callnr = 88 then Some (do_getsysinfo datacopy m, m, s)
      else Some (- DS_EINVAL, m, s))"

definition ds_main_step ::
    "'re dsenv \<Rightarrow> int \<Rightarrow> bool \<Rightarrow> 32 word \<Rightarrow> (int \<Rightarrow> 32 word \<Rightarrow> int) \<Rightarrow> dsmsg \<Rightarrow> 're ds \<Rightarrow> (ds_out \<times> 're ds) option" where
  "ds_main_step e who_p sigterm callnr datacopy m s =
     (if callnr AND 0x1000 \<noteq> 0 \<and> who_p \<noteq> 0 then Some (ds_send (- DS_EINVAL) m, s)
      else if callnr AND 0x1000 \<noteq> 0 \<and> sigterm then Some (Ds_Exit, s)
      else map_option (\<lambda>(r, m', s'). (ds_send r m', s')) (ds_call e callnr datacopy m s))"

section \<open>A store is a map\<close>

text \<open>Slots are taken in order, each with exactly one type.\<close>

definition ds_wf :: "'re ds \<Rightarrow> bool" where
  "ds_wf s \<longleftrightarrow> nr_in_use s \<le> NR_DS_KEYS \<and>
     (\<forall>i < NR_DS_KEYS. in_use (ds_flags (ds_store s i)) \<longleftrightarrow> i < nr_in_use s) \<and>
     (\<forall>i < nr_in_use s. ds_flags (ds_store s i) AND DS_TYPE_MASK = DS_TYPE_U32 \<or>
                        ds_flags (ds_store s i) AND DS_TYPE_MASK = DS_TYPE_STR)"

datatype dsval = U32 "32 word" | Str str

text \<open>What the store holds under a key and a type.\<close>

definition ds_abs :: "'re ds \<Rightarrow> str \<Rightarrow> 32 word \<Rightarrow> dsval option" where
  "ds_abs s key t = map_option (\<lambda>d.
     if t = DS_TYPE_U32 then U32 (ds_val_u32 (ds_store s d)) else Str (ds_val_str (ds_store s d))) (find_key s key t)"

lemma check_subscriber_frame:
  "nr_in_use (check_subscriber e d i s) = nr_in_use s"
  "ds_subs (check_subscriber e d i s) = ds_subs s"
  "ds_flags (ds_store (check_subscriber e d i s) j) = ds_flags (ds_store s j)"
  "ds_key (ds_store (check_subscriber e d i s) j) = ds_key (ds_store s j)"
  "ds_val_u32 (ds_store (check_subscriber e d i s) j) = ds_val_u32 (ds_store s j)"
  "ds_val_str (ds_store (check_subscriber e d i s) j) = ds_val_str (ds_store s j)"
  by (simp_all add: check_subscriber_def upd_slot_def)

lemma fold_check_frame:
  "nr_in_use (fold (check_subscriber e d) is s) = nr_in_use s"
  "ds_subs (fold (check_subscriber e d) is s) = ds_subs s"
  "ds_flags (ds_store (fold (check_subscriber e d) is s) j) = ds_flags (ds_store s j)"
  "ds_key (ds_store (fold (check_subscriber e d) is s) j) = ds_key (ds_store s j)"
  "ds_val_u32 (ds_store (fold (check_subscriber e d) is s) j) = ds_val_u32 (ds_store s j)"
  "ds_val_str (ds_store (fold (check_subscriber e d) is s) j) = ds_val_str (ds_store s j)"
  by (induction "is" arbitrary: s) (simp_all add: check_subscriber_frame)

lemmas check_subscribers_frame = fold_check_frame [where ?is = "[0..<NR_DS_SUBS]", folded check_subscribers_def]

definition matches :: "'re ds \<Rightarrow> str \<Rightarrow> 32 word \<Rightarrow> nat \<Rightarrow> bool" where
  "matches s key t i \<longleftrightarrow> in_use (ds_flags (ds_store s i)) \<and> ds_flags (ds_store s i) AND t = t \<and> ds_key (ds_store s i) = key"

lemma find_key_matches: "find_key s key t = find (matches s key t) [0..<NR_DS_KEYS]"
  unfolding find_key_def matches_def ..

lemma find_is: "find (\<lambda>i. i = n) xs = (if n \<in> set xs then Some n else None)"
  by (induction xs) auto

lemma find_key_Some: "find_key s key t = Some d \<Longrightarrow> matches s key t d \<and> d < NR_DS_KEYS"
  unfolding find_key_matches find_Some_iff by (auto simp del: upt_Suc)

lemma find_key_None: "find_key s key t = None \<Longrightarrow> i < NR_DS_KEYS \<Longrightarrow> \<not> matches s key t i"
  unfolding find_key_matches find_None_iff by auto

text \<open>One of the two types of values.\<close>

definition ds_type :: "32 word \<Rightarrow> bool" where
  "ds_type t \<longleftrightarrow> t = DS_TYPE_U32 \<or> t = DS_TYPE_STR"

lemma mask_type: "ds_type u \<Longrightarrow> (f AND DS_TYPE_MASK) AND u = f AND u"
  unfolding ds_type_def by (auto simp: and.assoc)

text \<open>Flags of type \<open>t\<close> have no other type.\<close>

lemma type_exact:
  assumes "ds_type t" "ds_type u" "f AND DS_TYPE_MASK = t"
  shows "f AND u = u \<longleftrightarrow> u = t"
proof -
  have "f AND u = t AND u" using mask_type [OF assms(2), of f] assms(3) by simp
  then show ?thesis using assms(1,2) unfolding ds_type_def by auto
qed

lemma new_flags: "(DS_IN_USE OR f) AND DS_TYPE_MASK = f AND DS_TYPE_MASK" "in_use (DS_IN_USE OR f)"
proof -
  show "(DS_IN_USE OR f) AND DS_TYPE_MASK = f AND DS_TYPE_MASK" by (simp add: bit.conj_disj_distrib2)
  have "(DS_IN_USE OR f) AND DS_IN_USE = DS_IN_USE" by (simp add: and.commute)
  then show "in_use (DS_IN_USE OR f)" unfolding in_use_def by simp
qed

text \<open>The slot a publication goes to, and what it does to the other look-ups.\<close>

lemma publish_slot_new:
  assumes w: "ds_wf s" and t: "ds_type t" "m_flags m AND DS_TYPE_MASK = t"
    and p: "publish_slot m key t s = Some (d, s1)"
  shows "ds_wf s1 \<and> d < nr_in_use s1 \<and> find_key s1 key t = Some d \<and>
    (\<forall>k u. ds_type u \<longrightarrow> (k, u) \<noteq> (key, t) \<longrightarrow> find_key s1 k u = find_key s k u \<and> find_key s k u \<noteq> Some d) \<and>
    (\<forall>i. i \<noteq> d \<longrightarrow> ds_store s1 i = ds_store s i)"
proof (cases "find_key s key t")
  case (Some d')
  then have e: "d' = d" "s1 = s" using p by (simp_all add: publish_slot_def)
  have f: "matches s key t d" "d < NR_DS_KEYS" using find_key_Some Some e by blast+
  have d: "d < nr_in_use s" using f w by (simp add: ds_wf_def matches_def)
  have x: "ds_flags (ds_store s d) AND DS_TYPE_MASK = t"
  proof -
    have "ds_type (ds_flags (ds_store s d) AND DS_TYPE_MASK)" using w d by (simp add: ds_wf_def ds_type_def)
    from type_exact [OF this t(1) refl] show ?thesis using f(1) by (simp add: matches_def)
  qed
  have "find_key s k u \<noteq> Some d" if "ds_type u" "(k, u) \<noteq> (key, t)" for k u
  proof
    assume "find_key s k u = Some d"
    then have "matches s k u d" using find_key_Some by blast
    then have "k = key" "u = t" using f(1) type_exact [OF t(1) that(1) x] by (simp_all add: matches_def)
    then show False using that by simp
  qed
  then show ?thesis using w d Some e by simp
next
  case None
  define n where "n = nr_in_use s"
  have n: "n < NR_DS_KEYS" "d = n" and s1: "s1 = (upd_slot n (\<lambda>x. x\<lparr>ds_key := key, ds_flags := DS_IN_USE OR m_flags m\<rparr>) s)\<lparr>nr_in_use := n + 1\<rparr>"
    using p None by (auto simp: publish_slot_def n_def split: if_splits)
  have ex: "(DS_IN_USE OR m_flags m) AND DS_TYPE_MASK = t" using new_flags(1) t(2) by simp
  have nm: "\<not> matches s k u n" for k u using w n(1) by (simp add: ds_wf_def matches_def n_def)
  have mt: "matches s1 k u i \<longleftrightarrow> (if i = n then k = key \<and> u = t else matches s k u i)" if "ds_type u" for k u i
    using type_exact [OF t(1) that ex] new_flags(2) [of "m_flags m"] by (auto simp: matches_def s1 upd_slot_def)
  have "find_key s1 key t = find (\<lambda>i. i = n) [0..<NR_DS_KEYS]"
    unfolding find_key_matches
    by (rule find_cong) (use mt [OF t(1)] find_key_None [OF None] in auto)
  then have a: "find_key s1 key t = Some n" unfolding find_is using n(1) by simp
  have b: "find_key s1 k u = find_key s k u \<and> find_key s k u \<noteq> Some d" if "ds_type u" "(k, u) \<noteq> (key, t)" for k u
  proof
    show "find_key s1 k u = find_key s k u" unfolding find_key_matches
      by (rule find_cong) (use mt [OF that(1)] that(2) nm in auto)
    show "find_key s k u \<noteq> Some d" using find_key_Some [of s k u] nm n(2) by blast
  qed
  have "ds_wf s1" using w n(1) ex t(1) new_flags(2) [of "m_flags m"]
    by (auto simp: ds_wf_def s1 upd_slot_def ds_type_def n_def less_Suc_eq)
  then show ?thesis using a b n by (simp add: s1 upd_slot_def)
qed

text \<open>Changing a value changes no look-up of a slot.\<close>

lemma find_key_same:
  assumes "\<And>i. ds_flags (ds_store s' i) = ds_flags (ds_store s i)" "\<And>i. ds_key (ds_store s' i) = ds_key (ds_store s i)"
  shows "find_key s' k u = find_key s k u"
  by (simp add: find_key_def assms)

lemma ds_wf_same:
  assumes "\<And>i. ds_flags (ds_store s' i) = ds_flags (ds_store s i)" "nr_in_use s' = nr_in_use s"
  shows "ds_wf s' = ds_wf s"
  by (simp add: ds_wf_def assms)

text \<open>What \<^verbatim>\<open>do_publish\<close> does to the store after the slot is found.\<close>

lemma store_value_effect:
  assumes "ds_type t" "store_value e m t d s = (r, s')"
  shows "(\<forall>i. ds_flags (ds_store s' i) = ds_flags (ds_store s i) \<and> ds_key (ds_store s' i) = ds_key (ds_store s i)) \<and>
    nr_in_use s' = nr_in_use s \<and> ds_subs s' = ds_subs s \<and>
    (\<forall>i. i \<noteq> d \<longrightarrow> ds_val_u32 (ds_store s' i) = ds_val_u32 (ds_store s i) \<and> ds_val_str (ds_store s' i) = ds_val_str (ds_store s i)) \<and>
    (t = DS_TYPE_U32 \<longrightarrow> r = 0 \<and> ds_val_u32 (ds_store s' d) = m_val m)"
  using assms
  by (auto simp: store_value_def check_subscribers_frame upd_slot_def ds_type_def split: if_splits sum.splits)

text \<open>A request whose key arrives as \<open>key\<close> and that asks for type \<open>t\<close>.\<close>

definition request :: "'re dsenv \<Rightarrow> dsmsg \<Rightarrow> str \<Rightarrow> 32 word \<Rightarrow> bool" where
  "request e m key t \<longleftrightarrow> 2 \<le> m_key_len m \<and> m_key_len m \<le> DS_MAX_KEYLEN \<and> m_flags m AND DS_TYPE_MASK = t \<and> ds_type t \<and>
     (case safecopyfrom e (ds_source m) (m_key_grant m) (m_key_len m) of Inl r \<Rightarrow> False | Inr bs \<Rightarrow> buf_string e DS_MAX_KEYLEN bs = key)"

lemma do_publish_request:
  assumes "request e m key t"
  shows "do_publish e m s = (case publish_slot m key t s of None \<Rightarrow> (- DS_EAGAIN, s) | Some (d, s1) \<Rightarrow> store_value e m t d s1)"
  using assms by (auto simp: request_def do_publish_def ds_type_def Let_def split: sum.splits)

lemma do_retrieve_u32:
  assumes "request e m key DS_TYPE_U32"
  shows "do_retrieve e m s = (case find_key s key DS_TYPE_U32 of
    None \<Rightarrow> Some (- DS_ESRCH, m, s) | Some d \<Rightarrow> Some (0, m\<lparr>m_val := ds_val_u32 (ds_store s d)\<rparr>, s))"
  using assms by (auto simp: request_def do_retrieve_def Let_def split: sum.splits option.splits)

lemma publish_effect:
  assumes w: "ds_wf s" and q: "request e m key t" and p: "do_publish e m s = (r, s')"
  shows "ds_wf s' \<and> (\<forall>k u. ds_type u \<longrightarrow> (k, u) \<noteq> (key, t) \<longrightarrow> ds_abs s' k u = ds_abs s k u) \<and>
    (t = DS_TYPE_U32 \<longrightarrow> r = - DS_EAGAIN \<and> s' = s \<or> r = 0 \<and> ds_abs s' key t = Some (U32 (m_val m)))"
proof (cases "publish_slot m key t s")
  case None
  then show ?thesis using p w by (simp add: do_publish_request [OF q])
next
  case (Some x)
  obtain d s1 where x: "x = (d, s1)" by (cases x)
  have t: "ds_type t" "m_flags m AND DS_TYPE_MASK = t" using q by (simp_all add: request_def)
  note a = publish_slot_new [OF w t Some [unfolded x]]
  have sv: "store_value e m t d s1 = (r, s')" using p Some x by (simp add: do_publish_request [OF q])
  note b = store_value_effect [OF t(1) sv]
  have fk: "find_key s' k u = find_key s1 k u" for k u by (rule find_key_same) (use b in auto)
  have "ds_wf s'" using ds_wf_same [of s' s1] a b by simp
  moreover have "ds_abs s' k u = ds_abs s k u" if "ds_type u" "(k, u) \<noteq> (key, t)" for k u
  proof (cases "find_key s k u")
    case None
    then show ?thesis using a fk that by (simp add: ds_abs_def)
  next
    case (Some i)
    then have "i \<noteq> d" "find_key s' k u = Some i" using a fk that by auto
    then show ?thesis using Some a b by (simp add: ds_abs_def)
  qed
  moreover have "r = 0 \<and> ds_abs s' key t = Some (U32 (m_val m))" if "t = DS_TYPE_U32"
    using a b fk that by (simp add: ds_abs_def)
  ultimately show ?thesis by simp
qed

text \<open>
  C13. The data store is a map. Publishing keeps the table well-formed and the values under all other names and types, whatever it returns. Publishing
  an integer either reports a full store and changes nothing, or succeeds, and then every later retrieval of that name returns the integer.
\<close>

theorem publish_retrieve:
  assumes "ds_wf s" "request e m key t" "do_publish e m s = (r, s')"
  shows "ds_wf s' \<and> (\<forall>k u. ds_type u \<longrightarrow> (k, u) \<noteq> (key, t) \<longrightarrow> ds_abs s' k u = ds_abs s k u) \<and>
    (t = DS_TYPE_U32 \<longrightarrow> r = - DS_EAGAIN \<and> s' = s \<or>
       r = 0 \<and> (\<forall>q. request e q key t \<longrightarrow> do_retrieve e q s' = Some (0, q\<lparr>m_val := m_val m\<rparr>, s')))"
proof -
  note b = publish_effect [OF assms]
  have "do_retrieve e q s' = Some (0, q\<lparr>m_val := m_val m\<rparr>, s')"
    if "t = DS_TYPE_U32" "ds_abs s' key t = Some (U32 (m_val m))" "request e q key t" for q
    using that do_retrieve_u32 [of e q key s'] by (auto simp: ds_abs_def split: option.splits)
  then show ?thesis using b by (intro conjI impI) (simp_all, metis)
qed

section \<open>Subscriptions\<close>

lemma fold_check_flags:
  assumes "i \<in> set is" "in_use (sub_flags (ds_subs s i))" "regexec e (sub_regex (ds_subs s i)) (ds_key (ds_store s d))" "distinct is"
  shows "i \<in> ds_old_subs (ds_store (fold (check_subscriber e d) is s) d) \<and>
    sub_owner (ds_subs s i) \<in> set (ds_notes (fold (check_subscriber e d) is s))"
proof -
  have keep: "i \<in> ds_old_subs (ds_store (fold (check_subscriber e d) js s) d)"
    if "i \<notin> set js" "i \<in> ds_old_subs (ds_store s d)" for js s
    using that by (induction js arbitrary: s) (auto simp: check_subscriber_def upd_slot_def)
  have nts: "set (ds_notes s) \<subseteq> set (ds_notes (fold (check_subscriber e d) js s))" for js s
  proof (induction js arbitrary: s)
    case (Cons j js)
    have "set (ds_notes s) \<subseteq> set (ds_notes (check_subscriber e d j s))" by (auto simp: check_subscriber_def upd_slot_def)
    then show ?case using Cons.IH [of "check_subscriber e d j s"] by auto
  qed simp
  show ?thesis using assms
  proof (induction "is" arbitrary: s)
    case (Cons j js)
    show ?case
    proof (cases "j = i")
      case True
      define s1 where "s1 = check_subscriber e d i s"
      have "i \<in> ds_old_subs (ds_store s1 d)" "sub_owner (ds_subs s i) \<in> set (ds_notes s1)"
        using Cons.prems by (auto simp: s1_def check_subscriber_def upd_slot_def)
      then show ?thesis using True Cons.prems keep [of js s1] nts [of s1 js] by (auto simp: s1_def)
    next
      case False
      then show ?thesis using Cons.prems Cons.IH [of "check_subscriber e d j s"] by (simp add: check_subscriber_frame)
    qed
  qed simp
qed

lemma check_match_found:
  assumes "i < NR_DS_SUBS" "d < NR_DS_KEYS" "in_use (sub_flags (ds_subs s i))" "who = sub_owner (ds_subs s i)"
    "in_use (ds_flags (ds_store s d))" "i \<in> ds_old_subs (ds_store s d)" "t = ds_flags (ds_store s d) AND DS_TYPE_MASK"
  shows "check_match who t s \<noteq> None"
proof
  assume "check_match who t s = None"
  then have "(i, d) \<notin> set (List.product [0..<NR_DS_SUBS] [0..<NR_DS_KEYS])"
    unfolding check_match_def find_None_iff using assms by blast
  then show False using assms(1,2) by simp
qed

text \<open>
  C23. Subscribers learn of new values. When an integer has been published, every subscription whose expression matches the name has its owner
  notified and the slot flagged, so that a check by the owner finds an item to deliver.
\<close>

theorem publish_reaches_subscribers:
  assumes w: "ds_wf s" and q: "request e m key DS_TYPE_U32" and p: "do_publish e m s = (0, s')"
    and i: "i < NR_DS_SUBS" "in_use (sub_flags (ds_subs s i))" "regexec e (sub_regex (ds_subs s i)) key"
  shows "sub_owner (ds_subs s i) \<in> set (ds_notes s') \<and> check_match (sub_owner (ds_subs s i)) DS_TYPE_U32 s' \<noteq> None"
proof -
  have t: "ds_type DS_TYPE_U32" "m_flags m AND DS_TYPE_MASK = DS_TYPE_U32" using q by (simp_all add: request_def)
  obtain d s1 where x: "publish_slot m key DS_TYPE_U32 s = Some (d, s1)"
    using p by (auto simp: do_publish_request [OF q] split: option.splits)
  note a = publish_slot_new [OF w t x]
  define s2 where "s2 = upd_slot d (\<lambda>x. x\<lparr>ds_val_u32 := m_val m\<rparr>) s1"
  have e: "s' = check_subscribers e d s2" using p x by (simp add: do_publish_request [OF q] store_value_def s2_def)
  have subs: "ds_subs s1 = ds_subs s" using x by (auto simp: publish_slot_def upd_slot_def split: option.splits if_splits)
  have f: "matches s1 key DS_TYPE_U32 d" "d < NR_DS_KEYS" using a find_key_Some by blast+
  have x1: "ds_type (ds_flags (ds_store s1 d) AND DS_TYPE_MASK)" using a by (simp add: ds_wf_def ds_type_def)
  have ty: "ds_flags (ds_store s1 d) AND DS_TYPE_MASK = DS_TYPE_U32"
    using type_exact [OF x1 t(1) refl] f(1) by (simp add: matches_def)
  have k: "in_use (sub_flags (ds_subs s2 i))" "regexec e (sub_regex (ds_subs s2 i)) (ds_key (ds_store s2 d))"
    using i f(1) subs by (simp_all add: s2_def upd_slot_def matches_def)
  have "i \<in> ds_old_subs (ds_store s' d) \<and> sub_owner (ds_subs s2 i) \<in> set (ds_notes s')"
    unfolding e check_subscribers_def by (rule fold_check_flags [OF _ k]) (use i(1) in auto)
  moreover have "ds_subs s2 = ds_subs s" using subs by (simp add: s2_def upd_slot_def)
  moreover have "check_match (sub_owner (ds_subs s i)) DS_TYPE_U32 s' \<noteq> None"
    by (rule check_match_found [OF i(1) f(2)])
      (use i f(1) ty subs calculation in \<open>simp_all add: e check_subscribers_frame s2_def upd_slot_def matches_def\<close>)
  ultimately show ?thesis by simp
qed

section \<open>Examples\<close>

text \<open>A store with one subscription, of process 9 to everything, and an environment in which all copies succeed.\<close>

definition ds_sample :: "unit ds" where
  "ds_sample = \<lparr>ds_store = (\<lambda>_. \<lparr>ds_flags = 0, ds_key = [], ds_val_u32 = 0, ds_val_str = [], ds_old_subs = {}\<rparr>),
     ds_subs = (\<lambda>i. \<lparr>sub_flags = (if i = 0 then 0x0101 else 0), sub_regex = (), sub_owner = 9\<rparr>),
     nr_in_use = 0, ds_copies = [], ds_notes = []\<rparr>"

definition ds_sample_env :: "unit dsenv" where
  "ds_sample_env = \<lparr>safecopyfrom = (\<lambda>_ _ _. Inr [0x61, 0]), safecopyto = (\<lambda>_ _ _. 0), regcomp = (\<lambda>_. Some ()), regexec = (\<lambda>_ _. True), stack = []\<rparr>"

definition ds_sample_msg :: "32 word \<Rightarrow> dsmsg" where
  "ds_sample_msg v = \<lparr>ds_source = 5, m_key_grant = 0, m_key_len = 2, m_flags = DS_TYPE_U32, m_val = v, m_val_len = 0\<rparr>"

lemma ds_sample_wf: "ds_wf ds_sample"
  by (simp add: ds_wf_def ds_sample_def in_use_def)

lemma ds_sample_request: "request ds_sample_env (ds_sample_msg v) [0x61] DS_TYPE_U32"
  by (simp add: request_def ds_sample_env_def ds_sample_msg_def ds_type_def buf_string_def)

lemma ds_sample_publish: "\<exists>s'. do_publish ds_sample_env (ds_sample_msg 7) ds_sample = (0, s')"
proof -
  have "find_key ds_sample [0x61] DS_TYPE_U32 = None"
    unfolding find_key_def find_None_iff by (simp add: ds_sample_def in_use_def)
  moreover have "nr_in_use ds_sample = 0" by (simp add: ds_sample_def)
  ultimately show ?thesis by (simp add: do_publish_request [OF ds_sample_request] publish_slot_def store_value_def)
qed

theorem publish_retrieve_witness:
  "\<exists>s'. do_publish ds_sample_env (ds_sample_msg 7) ds_sample = (0, s') \<and>
     do_retrieve ds_sample_env (ds_sample_msg 0) s' = Some (0, ds_sample_msg 7, s')"
proof -
  obtain s' where s': "do_publish ds_sample_env (ds_sample_msg 7) ds_sample = (0, s')" using ds_sample_publish by blast
  have "do_retrieve ds_sample_env (ds_sample_msg 0) s' = Some (0, (ds_sample_msg 0)\<lparr>m_val := m_val (ds_sample_msg 7)\<rparr>, s')"
    using publish_retrieve [OF ds_sample_wf ds_sample_request s'] ds_sample_request [of 0] by simp
  then show ?thesis using s' by (simp add: ds_sample_msg_def)
qed

theorem publish_reaches_subscribers_witness:
  "\<exists>s'. do_publish ds_sample_env (ds_sample_msg 7) ds_sample = (0, s') \<and> 9 \<in> set (ds_notes s') \<and>
     check_match 9 DS_TYPE_U32 s' \<noteq> None"
proof -
  obtain s' where s': "do_publish ds_sample_env (ds_sample_msg 7) ds_sample = (0, s')" using ds_sample_publish by blast
  have "in_use (sub_flags (ds_subs ds_sample 0))" "regexec ds_sample_env (sub_regex (ds_subs ds_sample 0)) [0x61]"
    "sub_owner (ds_subs ds_sample 0) = 9"
    by (simp_all add: ds_sample_def ds_sample_env_def in_use_def)
  then show ?thesis using publish_reaches_subscribers [OF ds_sample_wf ds_sample_request s', of 0] s' by auto
qed

end
