(* ===== verification/Ipc_Sem.thy ===== *)
theory Ipc_Sem
  imports Nucleos_Prelude
begin

unbundle bit_operations_syntax

text \<open>
  The semaphores of the System V IPC server, \<^verbatim>\<open>servers/ipc/sem.c\<close>, with the permission check of \<^verbatim>\<open>servers/ipc/utility.c\<close>.
  A waiting list is an allocated array, of which the first entries (as many as the counter says) are in use; the array stays allocated,
  with stale entries, when the counter falls to zero. Replies are collected in the state in the order they are sent.
  User and group numbers, process numbers, the time and the success of allocations are arguments. \<^term>\<open>None\<close> is a wild memory access.
\<close>

abbreviation (input) SEMMNI :: nat where "SEMMNI \<equiv> 128"
abbreviation (input) SEMMSL :: int where "SEMMSL \<equiv> 250"
abbreviation (input) SEMOPM :: nat where "SEMOPM \<equiv> 32"
abbreviation (input) SEMVMX :: int where "SEMVMX \<equiv> 32767"
abbreviation (input) IPC_CREAT :: "32 word" where "IPC_CREAT \<equiv> 0x200"
abbreviation (input) IPC_EXCL :: "32 word" where "IPC_EXCL \<equiv> 0x400"
abbreviation (input) IPC_NOWAIT :: "16 word" where "IPC_NOWAIT \<equiv> 0x800"

abbreviation (input) SEM_EPERM :: int where "SEM_EPERM \<equiv> 1"
abbreviation (input) SEM_ENOENT :: int where "SEM_ENOENT \<equiv> 2"
abbreviation (input) SEM_EINTR :: int where "SEM_EINTR \<equiv> 4"
abbreviation (input) SEM_E2BIG :: int where "SEM_E2BIG \<equiv> 7"
abbreviation (input) SEM_EAGAIN :: int where "SEM_EAGAIN \<equiv> 11"
abbreviation (input) SEM_ENOMEM :: int where "SEM_ENOMEM \<equiv> 12"
abbreviation (input) SEM_EFAULT :: int where "SEM_EFAULT \<equiv> 14"
abbreviation (input) SEM_EACCES :: int where "SEM_EACCES \<equiv> 13"
abbreviation (input) SEM_EEXIST :: int where "SEM_EEXIST \<equiv> 17"
abbreviation (input) SEM_EINVAL :: int where "SEM_EINVAL \<equiv> 22"
abbreviation (input) SEM_EFBIG :: int where "SEM_EFBIG \<equiv> 27"
abbreviation (input) SEM_ENOSPC :: int where "SEM_ENOSPC \<equiv> 28"
abbreviation (input) SEM_ERANGE :: int where "SEM_ERANGE \<equiv> 34"
abbreviation (input) SEM_EIDRM :: int where "SEM_EIDRM \<equiv> 43"

section \<open>Data\<close>

record waiting =
  w_who :: int
  w_val :: int

record semaphore =
  semval :: "16 word"
  semzcnt :: "16 word"
  semncnt :: "16 word"
  zlist :: "waiting list option"
  nlist :: "waiting list option"
  sempid :: int

record ipc_perm =
  p_uid :: int
  p_gid :: int
  p_cuid :: int
  p_cgid :: int
  p_mode :: "32 word"

record sem_struct =
  sem_key :: int
  sem_id :: int
  sem_perm :: ipc_perm
  sem_nsems :: nat
  sem_ctime :: int
  sems :: "semaphore list"

record semst =
  sem_list :: "sem_struct list"
  sem_identifier :: int
  sem_replies :: "(int \<times> int) list"

record sembuf =
  sb_num :: nat
  sb_op :: int
  sb_flg :: "16 word"

text \<open>What the server asks others for: user, group and process numbers of an endpoint, the time, whether \<^verbatim>\<open>malloc\<close> and \<^verbatim>\<open>realloc\<close> succeed, and what lies in memory that was just allocated.\<close>

record semenv =
  getnuid :: "int \<Rightarrow> int"
  getngid :: "int \<Rightarrow> int"
  getnpid :: "int \<Rightarrow> int"
  now :: int
  malloc_ok :: bool
  realloc_ok :: bool
  junk :: waiting

section \<open>Operations\<close>

definition check_perm :: "semenv \<Rightarrow> ipc_perm \<Rightarrow> int \<Rightarrow> 32 word \<Rightarrow> bool" where
  "check_perm e req who mode0 =
     (let uid = getnuid e who; gid = getngid e who; mode = mode0 AND 0x1B6;
          sh = (if uid = p_uid req \<or> uid = p_cuid req then 6 else if gid = p_gid req \<or> gid = p_cgid req then 3 else 0);
          req_mode = drop_bit sh (p_mode req) AND 7; cur_mode = drop_bit sh mode AND 7
      in uid = 0 \<or> (cur_mode \<noteq> 0 \<and> cur_mode AND req_mode = cur_mode))"

definition sem_find_key :: "semst \<Rightarrow> int \<Rightarrow> nat option" where
  "sem_find_key s key = (if key = 0 then None else find (\<lambda>i. sem_key (sem_list s ! i) = key) [0..<length (sem_list s)])"

definition sem_find_id :: "semst \<Rightarrow> int \<Rightarrow> nat option" where
  "sem_find_id s n = find (\<lambda>i. sem_id (sem_list s ! i) = n) [0..<length (sem_list s)]"

definition sem_zero :: semaphore where
  "sem_zero = \<lparr>semval = 0, semzcnt = 0, semncnt = 0, zlist = None, nlist = None, sempid = 0\<rparr>"

text \<open>\<^verbatim>\<open>do_semget\<close>: the result, the identifier, the new state.\<close>

definition do_semget :: "semenv \<Rightarrow> int \<Rightarrow> int \<Rightarrow> int \<Rightarrow> 32 word \<Rightarrow> semst \<Rightarrow> int \<times> int \<times> semst" where
  "do_semget e who key nsems flag s =
     (case sem_find_key s key of
        Some i \<Rightarrow>
          if flag AND IPC_CREAT \<noteq> 0 \<and> flag AND IPC_EXCL \<noteq> 0 then (- SEM_EEXIST, 0, s)
          else if \<not> check_perm e (sem_perm (sem_list s ! i)) who flag then (- SEM_EACCES, 0, s)
          else if nsems > int (sem_nsems (sem_list s ! i)) then (- SEM_EINVAL, 0, s)
          else (0, sem_id (sem_list s ! i), s)
      | None \<Rightarrow>
          if flag AND IPC_CREAT = 0 then (- SEM_ENOENT, 0, s)
          else if nsems < 0 \<or> nsems \<ge> SEMMSL then (- SEM_EINVAL, 0, s)
          else if length (sem_list s) = SEMMNI then (- SEM_ENOSPC, 0, s)
          else (0, sem_identifier s,
            s\<lparr>sem_list := sem_list s @ [\<lparr>sem_key = key, sem_id = sem_identifier s,
                 sem_perm = \<lparr>p_uid = getnuid e who, p_gid = getngid e who, p_cuid = getnuid e who, p_cgid = getngid e who,
                             p_mode = flag AND 0x1FF\<rparr>,
                 sem_nsems = nat nsems, sem_ctime = now e, sems = replicate (nat SEMMSL) sem_zero\<rparr>],
              sem_identifier := sem_identifier s + 1\<rparr>))"

definition send_message_to_process :: "int \<Rightarrow> int \<Rightarrow> semst \<Rightarrow> semst" where
  "send_message_to_process who ret s = s\<lparr>sem_replies := sem_replies s @ [(who, ret)]\<rparr>"

text \<open>Taking entry \<open>k\<close> out of an array of which \<open>n\<close> entries are in use, by moving the later ones down.\<close>

definition take_out :: "nat \<Rightarrow> nat \<Rightarrow> waiting list \<Rightarrow> waiting list" where
  "take_out k n xs = take k xs @ take (n - k - 1) (drop (k + 1) xs) @ drop (n - 1) xs"

text \<open>
  The wake-up of a process waiting for zero: the reply to send and the semaphore. With no entry in use the length of the move is
  negative, which as an unsigned number is almost the whole address space.
\<close>

definition wake_zero :: "semaphore \<Rightarrow> (int list \<times> semaphore) option" where
  "wake_zero x =
     (case zlist x of
        None \<Rightarrow> Some ([], x)
      | Some ws \<Rightarrow>
          if semval x \<noteq> 0 then Some ([], x)
          else if semzcnt x = 0 then None
          else Some ([w_who (ws ! 0)], x\<lparr>zlist := Some (take_out 0 (unat (semzcnt x)) ws), semzcnt := semzcnt x - 1\<rparr>))"

text \<open>The wake-up of the first process whose wish can be granted.\<close>

definition wake_incr :: "semaphore \<Rightarrow> int list \<times> semaphore" where
  "wake_incr x =
     (case nlist x of
        None \<Rightarrow> ([], x)
      | Some ws \<Rightarrow>
          (case find (\<lambda>j. w_val (ws ! j) \<le> uint (semval x)) [0..<unat (semncnt x)] of
             None \<Rightarrow> ([], x)
           | Some j \<Rightarrow> ([w_who (ws ! j)],
               x\<lparr>semval := semval x - word_of_int (w_val (ws ! j)), nlist := Some (take_out j (unat (semncnt x)) ws),
                 semncnt := semncnt x - 1\<rparr>)))"

definition update_semaphore :: "semaphore \<Rightarrow> (int list \<times> semaphore) option" where
  "update_semaphore x = map_option (\<lambda>(us, y). case wake_incr y of (vs, z) \<Rightarrow> (us @ vs, z)) (wake_zero x)"

text \<open>The semaphores of a set in order: who is woken, and the semaphores.\<close>

fun update_sems :: "semaphore list \<Rightarrow> (int list \<times> semaphore list) option" where
  "update_sems [] = Some ([], [])"
| "update_sems (x # xs) =
     (case update_semaphore x of
        None \<Rightarrow> None
      | Some (us, y) \<Rightarrow> map_option (\<lambda>(vs, ys). (us @ vs, y # ys)) (update_sems xs))"

definition update_one_semaphore :: "sem_struct \<Rightarrow> (int list \<times> sem_struct) option" where
  "update_one_semaphore m = map_option (\<lambda>(us, ys). (us, m\<lparr>sems := ys @ drop (sem_nsems m) (sems m)\<rparr>))
     (update_sems (take (sem_nsems m) (sems m)))"

fun update_sets :: "sem_struct list \<Rightarrow> (int list \<times> sem_struct list) option" where
  "update_sets [] = Some ([], [])"
| "update_sets (m # ms) =
     (case update_one_semaphore m of
        None \<Rightarrow> None
      | Some (us, m') \<Rightarrow> map_option (\<lambda>(vs, ms'). (us @ vs, m' # ms')) (update_sets ms))"

definition update_semaphores :: "semst \<Rightarrow> semst option" where
  "update_semaphores s = map_option (\<lambda>(us, ms). s\<lparr>sem_list := ms, sem_replies := sem_replies s @ map (\<lambda>w. (w, 0)) us\<rparr>)
     (update_sets (sem_list s))"

text \<open>The entries in use of a waiting list; there are none to read if the list was lost.\<close>

definition in_list :: "16 word \<Rightarrow> waiting list option \<Rightarrow> waiting list option" where
  "in_list n ws = (if n = 0 then Some [] else map_option (take (unat n)) ws)"

text \<open>Removing set \<open>i\<close>: all its waiting processes are told, and the last set takes its place.\<close>

definition waiters :: "semaphore \<Rightarrow> int list option" where
  "waiters x = Option.bind (in_list (semzcnt x) (zlist x)) (\<lambda>zs.
     map_option (\<lambda>ns. map w_who zs @ map w_who ns) (in_list (semncnt x) (nlist x)))"

fun all_waiters :: "semaphore list \<Rightarrow> int list option" where
  "all_waiters [] = Some []"
| "all_waiters (x # xs) = Option.bind (waiters x) (\<lambda>us. map_option (\<lambda>vs. us @ vs) (all_waiters xs))"

definition remove_semaphore :: "nat \<Rightarrow> semst \<Rightarrow> semst" where
  "remove_semaphore i s = s\<lparr>sem_list := butlast ((sem_list s)[i := last (sem_list s)])\<rparr>"

definition remove_set :: "nat \<Rightarrow> semst \<Rightarrow> semst option" where
  "remove_set i s = map_option (\<lambda>us.
     remove_semaphore i (s\<lparr>sem_replies := sem_replies s @ map (\<lambda>w. (w, - SEM_EIDRM)) us\<rparr>))
       (all_waiters (take (sem_nsems (sem_list s ! i)) (sems (sem_list s ! i))))"

text \<open>Taking a process that has ended out of a waiting list: whether it was there, the counter and the list.\<close>

definition drop_waiter :: "int \<Rightarrow> 16 word \<Rightarrow> waiting list option \<Rightarrow> (bool \<times> 16 word \<times> waiting list option) option" where
  "drop_waiter pt n ws = map_option (\<lambda>xs.
     (case find (\<lambda>k. w_who (xs ! k) = pt) [0..<length xs] of
        None \<Rightarrow> (False, n, ws)
      | Some k \<Rightarrow> (True, n - 1, map_option (take_out k (unat n)) ws))) (in_list n ws)"

definition remove_waiting :: "int \<Rightarrow> semaphore \<Rightarrow> (int list \<times> semaphore) option" where
  "remove_waiting pt x = Option.bind (drop_waiter pt (semzcnt x) (zlist x)) (\<lambda>(a, zn, zs).
     map_option (\<lambda>(b, nn, ns). ((if a then [pt] else []) @ (if b then [pt] else []),
       x\<lparr>semzcnt := zn, zlist := zs, semncnt := nn, nlist := ns\<rparr>)) (drop_waiter pt (semncnt x) (nlist x)))"

fun remove_from_sems :: "int \<Rightarrow> semaphore list \<Rightarrow> (int list \<times> semaphore list) option" where
  "remove_from_sems pt [] = Some ([], [])"
| "remove_from_sems pt (x # xs) = Option.bind (remove_waiting pt x) (\<lambda>(us, y).
     map_option (\<lambda>(vs, ys). (us @ vs, y # ys)) (remove_from_sems pt xs))"

fun remove_from_sets :: "int \<Rightarrow> sem_struct list \<Rightarrow> (int list \<times> sem_struct list) option" where
  "remove_from_sets pt [] = Some ([], [])"
| "remove_from_sets pt (m # ms) = Option.bind (remove_from_sems pt (take (sem_nsems m) (sems m))) (\<lambda>(us, ys).
     map_option (\<lambda>(vs, ms'). (us @ vs, m\<lparr>sems := ys @ drop (sem_nsems m) (sems m)\<rparr> # ms')) (remove_from_sets pt ms))"

definition remove_process :: "int \<Rightarrow> semst \<Rightarrow> semst option" where
  "remove_process pt s = map_option (\<lambda>(us, ms).
     s\<lparr>sem_list := ms, sem_replies := sem_replies s @ map (\<lambda>w. (w, - SEM_EINTR)) us\<rparr>) (remove_from_sets pt (sem_list s))"

definition is_sem_nil :: "semst \<Rightarrow> bool" where
  "is_sem_nil s \<longleftrightarrow> sem_list s = []"

text \<open>
  \<^verbatim>\<open>sem_process_vm_notify\<close> asks the memory manager for ended processes until it reports that there are no more. The answers, a result and an endpoint each, are
  an argument.
\<close>

fun sem_process_vm_notify :: "(int \<times> int) list \<Rightarrow> semst \<Rightarrow> semst option" where
  "sem_process_vm_notify [] s = None"
| "sem_process_vm_notify ((r, pt) # as) s =
     (if r < 0 then Some s
      else Option.bind (remove_process pt s) (\<lambda>s'. if r = 0 then Some s' else sem_process_vm_notify as s'))"

section \<open>Operations on a semaphore\<close>

text \<open>Appending a waiting process: \<^term>\<open>None\<close> if the array could not be enlarged, which loses the list.\<close>

definition enlarge :: "semenv \<Rightarrow> waiting \<Rightarrow> nat \<Rightarrow> waiting list option \<Rightarrow> waiting list option" where
  "enlarge e w n ws = (if realloc_ok e
     then Some (take (n - 1) ((case ws of None \<Rightarrow> [] | Some xs \<Rightarrow> xs) @ replicate n (junk e)) @ [w]) else None)"

datatype semop_res = Done | Asleep | Lost | Denied

text \<open>One operation of \<^verbatim>\<open>do_semop\<close> on its semaphore.\<close>

definition semop_one :: "semenv \<Rightarrow> ipc_perm \<Rightarrow> int \<Rightarrow> int \<Rightarrow> semaphore \<Rightarrow> semop_res \<times> semaphore" where
  "semop_one e perm who op_n x0 =
     (let x = x0\<lparr>sempid := getnpid e who\<rparr>
      in if op_n > 0 then
           (if \<not> check_perm e perm who 0x92 then (Denied, x)
            else (Done, x\<lparr>semval := semval x + word_of_int op_n\<rparr>))
         else if op_n = 0 then
           (if semval x \<noteq> 0 then
              (let y = x\<lparr>semzcnt := semzcnt x + 1, zlist := enlarge e \<lparr>w_who = who, w_val = op_n\<rparr> (unat (semzcnt x + 1)) (zlist x)\<rparr>
               in (if zlist y = None then Lost else Asleep, y))
            else (Done, x))
         else
           (if \<not> check_perm e perm who 0x92 then (Denied, x)
            else if uint (semval x) \<ge> - op_n then (Done, x\<lparr>semval := semval x + word_of_int op_n\<rparr>)
            else
              (let y = x\<lparr>semncnt := semncnt x + 1, nlist := enlarge e \<lparr>w_who = who, w_val = - op_n\<rparr> (unat (semncnt x + 1)) (nlist x)\<rparr>
               in (if nlist y = None then Lost else Asleep, y))))"

text \<open>All operations in order: the result, whether the caller sleeps, the semaphores.\<close>

fun semop_all :: "semenv \<Rightarrow> ipc_perm \<Rightarrow> int \<Rightarrow> sembuf list \<Rightarrow> bool \<Rightarrow> semaphore list \<Rightarrow> int \<times> bool \<times> semaphore list" where
  "semop_all e perm who [] nr xs = (0, nr, xs)"
| "semop_all e perm who (o1 # os) nr xs =
     (case semop_one e perm who (sb_op o1) (xs ! sb_num o1) of
        (Denied, x) \<Rightarrow> (- SEM_EACCES, nr, xs[sb_num o1 := x])
      | (Lost, x) \<Rightarrow> (0, nr, xs[sb_num o1 := x])
      | (Asleep, x) \<Rightarrow> semop_all e perm who os True (xs[sb_num o1 := x])
      | (Done, x) \<Rightarrow> semop_all e perm who os nr (xs[sb_num o1 := x]))"

definition semop_again :: "semaphore list \<Rightarrow> sembuf \<Rightarrow> bool" where
  "semop_again xs b \<longleftrightarrow> sb_flg b AND IPC_NOWAIT \<noteq> 0 \<and>
     ((sb_op b = 0 \<and> semval (xs ! sb_num b) \<noteq> 0) \<or> (sb_op b < 0 \<and> - sb_op b > uint (semval (xs ! sb_num b))))"

text \<open>The checks and operations on the set: the result, whether the caller sleeps, the state. \<open>ops\<close> is what is copied from the caller, if that succeeds.\<close>

definition semop_set :: "semenv \<Rightarrow> int \<Rightarrow> int \<Rightarrow> nat \<Rightarrow> sembuf list option \<Rightarrow> semst \<Rightarrow> int \<times> bool \<times> semst" where
  "semop_set e who n nsops ops s =
     (case sem_find_id s n of
        None \<Rightarrow> (- SEM_EINVAL, False, s)
      | Some i \<Rightarrow>
          (let m = sem_list s ! i
           in if nsops = 0 then (- SEM_EINVAL, False, s)
              else if nsops > SEMOPM then (- SEM_E2BIG, False, s)
              else if \<not> check_perm e (sem_perm m) who 0x124 then (- SEM_EACCES, False, s)
              else if \<not> malloc_ok e then (- SEM_ENOMEM, False, s)
              else case ops of
                     None \<Rightarrow> (- SEM_EINVAL, False, s)
                   | Some bs \<Rightarrow>
                       if list_ex (\<lambda>b. sb_num b \<ge> sem_nsems m) bs then (- SEM_EFBIG, False, s)
                       else if \<not> distinct (map sb_num bs) then (- SEM_EINVAL, False, s)
                       else if list_ex (semop_again (sems m)) bs then (- SEM_EAGAIN, False, s)
                       else (case semop_all e (sem_perm m) who bs False (sems m) of
                               (r, nr, xs) \<Rightarrow> (r, nr, s\<lparr>sem_list := (sem_list s)[i := m\<lparr>sems := xs\<rparr>]\<rparr>))))"

definition do_semop :: "semenv \<Rightarrow> int \<Rightarrow> int \<Rightarrow> nat \<Rightarrow> sembuf list option \<Rightarrow> semst \<Rightarrow> semst option" where
  "do_semop e who n nsops ops s =
     (case semop_set e who n nsops ops s of
        (r, nr, s1) \<Rightarrow> update_semaphores (if r \<noteq> 0 \<or> \<not> nr then send_message_to_process who r s1 else s1))"

section \<open>Control\<close>

text \<open>
  The arguments and the answer of \<^verbatim>\<open>do_semctl\<close>: the option word, the permissions and values copied from the caller if that succeeds,
  and whether a copy to the caller succeeds. The answer is the field of the reply that some commands set.
\<close>

record semctl =
  c_id :: int
  c_num :: int
  c_cmd :: int
  c_opt :: int
  c_perm :: "ipc_perm option"
  c_vals :: "16 word list option"
  c_out_ok :: bool

definition set_at :: "nat \<Rightarrow> (sem_struct \<Rightarrow> sem_struct) \<Rightarrow> semst \<Rightarrow> semst" where
  "set_at i f s = s\<lparr>sem_list := (sem_list s)[i := f (sem_list s ! i)]\<rparr>"

text \<open>The loop of \<^verbatim>\<open>SETALL\<close>, which stops at the first value out of range.\<close>

fun set_all :: "16 word list \<Rightarrow> semaphore list \<Rightarrow> bool \<times> semaphore list" where
  "set_all (v # vs) (x # xs) =
     (if uint v > SEMVMX then (False, x # xs)
      else case set_all vs xs of (ok, ys) \<Rightarrow> (ok, x\<lparr>semval := v\<rparr> # ys))"
| "set_all vs xs = (True, xs)"

definition may_control :: "semenv \<Rightarrow> ipc_perm \<Rightarrow> int \<Rightarrow> bool" where
  "may_control e p who \<longleftrightarrow> getnuid e who = p_cuid p \<or> getnuid e who = p_uid p \<or> getnuid e who = 0"

definition semctl_get :: "semctl \<Rightarrow> sem_struct \<Rightarrow> (semaphore \<Rightarrow> int) \<Rightarrow> semst \<Rightarrow> (int \<times> int option \<times> semst) option" where
  "semctl_get c m f s =
     (if c_num c < 0 \<or> c_num c \<ge> int (sem_nsems m) then Some (- SEM_EINVAL, None, s)
      else Some (0, Some (f (sems m ! nat (c_num c))), s))"

definition do_semctl :: "semenv \<Rightarrow> int \<Rightarrow> semctl \<Rightarrow> semst \<Rightarrow> (int \<times> int option \<times> semst) option" where
  "do_semctl e who c s =
     (case sem_find_id s (c_id c) of
        None \<Rightarrow> Some (- SEM_EINVAL, None, s)
      | Some i \<Rightarrow>
          (let m = sem_list s ! i; fin = (\<lambda>r. map_option (\<lambda>s'. (r, None, s')))
           in if c_cmd c \<noteq> 1 \<and> c_cmd c \<noteq> 0 \<and> \<not> check_perm e (sem_perm m) who 0x124 then Some (- SEM_EACCES, None, s)
              else if c_cmd c = 2 then
                Some (if c_opt c = 0 then - SEM_EFAULT else if c_out_ok c then 0 else - SEM_EINVAL, None, s)
              else if c_cmd c = 1 then
                (if \<not> may_control e (sem_perm m) who then Some (- SEM_EPERM, None, s)
                 else case c_perm c of
                        None \<Rightarrow> Some (- SEM_EINVAL, None, s)
                      | Some q \<Rightarrow> Some (0, None, set_at i (\<lambda>m. m\<lparr>sem_ctime := now e,
                          sem_perm := (sem_perm m)\<lparr>p_uid := p_uid q, p_gid := p_gid q,
                            p_mode := (p_mode (sem_perm m) AND NOT 0x1FF) OR (p_mode q AND 0x1B6)\<rparr>\<rparr>) s))
              else if c_cmd c = 0 then
                (if \<not> may_control e (sem_perm m) who then Some (- SEM_EPERM, None, s) else fin 0 (remove_set i s))
              else if c_cmd c = 3 \<or> c_cmd c = 18 \<or> c_cmd c = 19 then Some (0, None, s)
              else if c_cmd c = 13 then
                Some (if \<not> malloc_ok e then - SEM_ENOMEM else if c_out_ok c then 0 else - SEM_EINVAL, None, s)
              else if c_cmd c = 14 then semctl_get c m (\<lambda>x. uint (semncnt x)) s
              else if c_cmd c = 11 then semctl_get c m sempid s
              else if c_cmd c = 12 then semctl_get c m (\<lambda>x. uint (semval x)) s
              else if c_cmd c = 15 then semctl_get c m (\<lambda>x. uint (semzcnt x)) s
              else if c_cmd c = 17 then
                (if \<not> malloc_ok e then Some (- SEM_ENOMEM, None, s)
                 else case c_vals c of
                        None \<Rightarrow> Some (- SEM_EINVAL, None, s)
                      | Some vs \<Rightarrow>
                          (case set_all (take (sem_nsems m) vs) (sems m) of
                             (ok, xs) \<Rightarrow> fin (if ok then 0 else - SEM_ERANGE) (update_semaphores (set_at i (\<lambda>m. m\<lparr>sems := xs\<rparr>) s))))
              else if c_cmd c = 16 then
                (if \<not> check_perm e (sem_perm m) who 0x92 then Some (- SEM_EACCES, None, s)
                 else if c_num c < 0 \<or> c_num c \<ge> int (sem_nsems m) then Some (- SEM_EINVAL, None, s)
                 else if c_opt c < 0 \<or> c_opt c > SEMVMX then Some (- SEM_ERANGE, None, s)
                 else fin 0 (update_semaphores (set_at i (\<lambda>m. m\<lparr>sem_ctime := now e,
                   sems := (sems m)[nat (c_num c) := (sems m ! nat (c_num c))\<lparr>semval := word_of_int (c_opt c)\<rparr>]\<rparr>) s)))
              else Some (- SEM_EINVAL, None, s)))"

section \<open>Waking processes\<close>

text \<open>The waiting lists of a semaphore agree with its counters, and every process waits for a positive amount.\<close>

definition sem_ok :: "semaphore \<Rightarrow> bool" where
  "sem_ok x \<longleftrightarrow> (case zlist x of None \<Rightarrow> semzcnt x = 0 | Some ws \<Rightarrow> unat (semzcnt x) \<le> length ws) \<and>
     (case nlist x of None \<Rightarrow> semncnt x = 0 | Some ws \<Rightarrow> unat (semncnt x) \<le> length ws \<and> (\<forall>w \<in> set (take (unat (semncnt x)) ws). 0 < w_val w))"

text \<open>The processes that wait for more.\<close>

definition n_waiting :: "semaphore \<Rightarrow> waiting list" where
  "n_waiting x = take (unat (semncnt x)) (case nlist x of None \<Rightarrow> [] | Some ws \<Rightarrow> ws)"

lemma take_take_out: "k < n \<Longrightarrow> n \<le> length ws \<Longrightarrow> take (n - 1) (take_out k n ws) = take k ws @ drop (k + 1) (take n ws)"
proof -
  assume a: "k < n" "n \<le> length ws"
  then have "length (take k ws @ take (n - k - 1) (drop (k + 1) ws)) = n - 1" by simp
  then have "take (n - 1) (take_out k n ws) = take k ws @ take (n - k - 1) (drop (k + 1) ws)"
    unfolding take_out_def append_assoc [symmetric] by (metis append_eq_conv_conj)
  then show ?thesis by (simp add: drop_take)
qed

lemma semval_fall:
  fixes a :: "16 word"
  assumes "0 < v" "v \<le> uint a"
  shows "uint (a - word_of_int v) = uint a - v"
proof -
  have "uint a < 2 ^ LENGTH(16)" by (rule unsigned_less)
  then have "uint a < 2 ^ 16" by simp
  then have v: "uint (word_of_int v :: 16 word) = v" using assms by (simp add: uint_word_of_int mod_pos_pos_trivial)
  have "uint (word_of_int v :: 16 word) \<le> uint a" unfolding v by (rule assms(2))
  from uint_sub_lem [THEN iffD1, OF this] show ?thesis unfolding v .
qed

text \<open>If no wish can be granted nothing happens.\<close>

lemma wake_incr_none:
  assumes "sem_ok x" and n: "\<And>w. w \<in> set (n_waiting x) \<Longrightarrow> \<not> w_val w \<le> uint (semval x)"
  shows "wake_incr x = ([], x)"
proof (cases "nlist x")
  case (Some ws)
  then have len: "unat (semncnt x) \<le> length ws" using assms(1) by (simp add: sem_ok_def)
  have "\<not> w_val (ws ! j) \<le> uint (semval x)" if "j < unat (semncnt x)" for j
  proof (rule n)
    have "n_waiting x ! j \<in> set (n_waiting x)" by (rule nth_mem) (use that len Some in \<open>simp add: n_waiting_def\<close>)
    then show "ws ! j \<in> set (n_waiting x)" using that Some by (simp add: n_waiting_def)
  qed
  then have "find (\<lambda>j. w_val (ws ! j) \<le> uint (semval x)) [0..<unat (semncnt x)] = None" by (auto simp: find_None_iff)
  then show ?thesis using Some by (simp add: wake_incr_def)
qed (simp add: wake_incr_def)

text \<open>
  C17. Semaphores are handed out first come, first served. If no waiting process can have its wish nothing happens; otherwise exactly
  the first one that can is woken and leaves the list, the others keep their order, and the semaphore falls by exactly what it asked for, without wrapping around.
\<close>

theorem wake_incr_first:
  assumes "sem_ok x"
  shows "(case find (\<lambda>w. w_val w \<le> uint (semval x)) (n_waiting x) of
      None \<Rightarrow> wake_incr x = ([], x)
    | Some w \<Rightarrow> (\<exists>as bs y. n_waiting x = as @ w # bs \<and> (\<forall>v \<in> set as. uint (semval x) < w_val v) \<and>
        wake_incr x = ([w_who w], y) \<and> n_waiting y = as @ bs \<and> uint (semval y) = uint (semval x) - w_val w))"
proof (cases "find (\<lambda>w. w_val w \<le> uint (semval x)) (n_waiting x)")
  case None
  have n: "\<not> w_val w \<le> uint (semval x)" if "w \<in> set (n_waiting x)" for w
    using None that by (auto simp: find_None_iff)
  have "wake_incr x = ([], x)" by (rule wake_incr_none [OF assms n])
  then show ?thesis using None by simp
next
  case (Some w)
  then obtain j where j: "j < length (n_waiting x)" "w_val w \<le> uint (semval x)" "w = n_waiting x ! j"
    "\<And>i. i < j \<Longrightarrow> \<not> w_val (n_waiting x ! i) \<le> uint (semval x)"
    unfolding find_Some_iff by blast
  then obtain ws where ws: "nlist x = Some ws" by (cases "nlist x") (auto simp: n_waiting_def)
  define n where "n = unat (semncnt x)"
  have l: "n \<le> length ws" "\<And>v. v \<in> set (take n ws) \<Longrightarrow> 0 < w_val v" using assms ws by (simp_all add: sem_ok_def n_def)
  have nw: "n_waiting x = take n ws" using ws by (simp add: n_waiting_def n_def)
  have jn: "j < n" using j(1) unfolding nw by simp
  have nth: "n_waiting x ! i = ws ! i" if "i < n" for i using that unfolding nw by simp
  have wj: "w = ws ! j" using j(3) nth [OF jn] by simp
  have f: "find (\<lambda>i. w_val (ws ! i) \<le> uint (semval x)) [0..<n] = Some j"
    unfolding find_Some_iff using jn j(2) j(4) nth wj by (intro exI [of _ j]) auto
  define y where "y = x\<lparr>semval := semval x - word_of_int (w_val w), nlist := Some (take_out j n ws), semncnt := semncnt x - 1\<rparr>"
  have e: "wake_incr x = ([w_who w], y)" using f ws by (simp add: wake_incr_def n_def [symmetric] y_def wj)
  have pos: "0 < w_val w" using l(2) [of w] nth_mem [OF j(1)] unfolding j(3) nw by simp
  have c: "unat (semncnt x - 1) = n - 1" using jn by (intro unat_minus_one [of "semncnt x", folded n_def]) (auto simp: n_def)
  have "n_waiting y = take j ws @ drop (j + 1) (take n ws)"
    using take_take_out [OF jn l(1)] by (simp add: n_waiting_def y_def c)
  moreover have "n_waiting x = take j ws @ w # drop (j + 1) (take n ws)"
    unfolding nw wj using id_take_nth_drop [of j "take n ws"] jn l(1) by simp
  moreover have "uint (semval x) < w_val v" if mem: "v \<in> set (take j ws)" for v
  proof -
    have "j \<le> length ws" using jn l(1) by simp
    then obtain i where "i < j" "v = ws ! i" using mem by (fastforce simp: in_set_conv_nth)
    then show ?thesis using j(4) [of i] nth [of i] jn by simp
  qed
  moreover have "uint (semval y) = uint (semval x) - w_val w" using semval_fall [OF pos j(2)] by (simp add: y_def)
  ultimately show ?thesis unfolding Some option.case using e by blast
qed

theorem wake_incr_first_witness:
  "n_waiting (snd (wake_incr \<lparr>semval = 3, semzcnt = 0, semncnt = 2, zlist = None,
     nlist = Some [\<lparr>w_who = 8, w_val = 5\<rparr>, \<lparr>w_who = 9, w_val = 2\<rparr>], sempid = 0\<rparr>)) = [\<lparr>w_who = 8, w_val = 5\<rparr>]"
proof -
  define x where "x = \<lparr>semval = 3, semzcnt = 0, semncnt = 2, zlist = None, nlist = Some [\<lparr>w_who = 8, w_val = 5\<rparr>, \<lparr>w_who = 9, w_val = 2\<rparr>], sempid = 0\<rparr>"
  have "sem_ok x" by (simp add: sem_ok_def x_def)
  moreover have n: "n_waiting x = [\<lparr>w_who = 8, w_val = 5\<rparr>, \<lparr>w_who = 9, w_val = 2\<rparr>]" by (simp add: n_waiting_def x_def)
  moreover have "semval x = 3" by (simp add: x_def)
  ultimately obtain as bs y where y: "n_waiting x = as @ \<lparr>w_who = 9, w_val = 2\<rparr> # bs" "wake_incr x = ([9], y)" "n_waiting y = as @ bs"
    using wake_incr_first [of x] by auto
  then have "as @ bs = [\<lparr>w_who = 8, w_val = 5\<rparr>]" unfolding n by (auto simp: Cons_eq_append_conv)
  then show ?thesis unfolding x_def [symmetric] using y by simp
qed

lemma update_sems_None: "x \<in> set xs \<Longrightarrow> update_semaphore x = None \<Longrightarrow> update_sems xs = None"
  by (induction xs) (auto split: option.splits)

lemma update_sets_None: "m \<in> set ms \<Longrightarrow> update_one_semaphore m = None \<Longrightarrow> update_sets ms = None"
  by (induction ms) (auto split: option.splits)

text \<open>
  C18. Waiting for zero is fatal for the server. When the only process that waits for zero is woken, the array stays allocated with no entry in use; from then on,
  as long as the semaphore is zero, every pass over the semaphores moves almost the whole address space, whichever set and whichever process it was made for.
\<close>

theorem zero_wait_fatal:
  assumes "zlist x = Some ws" "semval x = 0" "semzcnt x = 1" "nlist x = None"
  shows "\<exists>y. update_semaphore x = Some ([w_who (ws ! 0)], y) \<and>
    (\<forall>s m. m \<in> set (sem_list s) \<longrightarrow> y \<in> set (take (sem_nsems m) (sems m)) \<longrightarrow> update_semaphores s = None)"
proof -
  define y where "y = x\<lparr>zlist := Some (take_out 0 1 ws), semzcnt := 0\<rparr>"
  have "update_semaphore x = Some ([w_who (ws ! 0)], y)"
    using assms by (simp add: update_semaphore_def wake_zero_def wake_incr_def y_def)
  moreover have n: "update_semaphore y = None" using assms by (simp add: update_semaphore_def wake_zero_def y_def)
  moreover have "update_semaphores s = None" if "m \<in> set (sem_list s)" "y \<in> set (take (sem_nsems m) (sems m))" for s m
    using update_sets_None [OF that(1)] update_sems_None [OF that(2) n] by (simp add: update_semaphores_def update_one_semaphore_def)
  ultimately show ?thesis by blast
qed

theorem zero_wait_fatal_witness:
  "\<exists>y. update_semaphore (sem_zero\<lparr>semzcnt := 1, zlist := Some [\<lparr>w_who = 9, w_val = 0\<rparr>]\<rparr>) = Some ([9], y) \<and>
     update_semaphores \<lparr>sem_list = [\<lparr>sem_key = 1, sem_id = 0, sem_perm = \<lparr>p_uid = 0, p_gid = 0, p_cuid = 0, p_cgid = 0, p_mode = 0\<rparr>,
       sem_nsems = 1, sem_ctime = 0, sems = [y]\<rparr>], sem_identifier = 1, sem_replies = []\<rparr> = None"
proof -
  obtain y where y: "update_semaphore (sem_zero\<lparr>semzcnt := 1, zlist := Some [\<lparr>w_who = 9, w_val = 0\<rparr>]\<rparr>) = Some ([9], y)"
    and f: "\<And>s m. m \<in> set (sem_list s) \<Longrightarrow> y \<in> set (take (sem_nsems m) (sems m)) \<Longrightarrow> update_semaphores s = None"
    using zero_wait_fatal [of "sem_zero\<lparr>semzcnt := 1, zlist := Some [\<lparr>w_who = 9, w_val = 0\<rparr>]\<rparr>" "[\<lparr>w_who = 9, w_val = 0\<rparr>]"]
    by (auto simp: sem_zero_def)
  define m where "m = \<lparr>sem_key = 1, sem_id = 0, sem_perm = \<lparr>p_uid = 0, p_gid = 0, p_cuid = 0, p_cgid = 0, p_mode = 0\<rparr>,
    sem_nsems = 1, sem_ctime = 0, sems = [y]\<rparr>"
  have "update_semaphores \<lparr>sem_list = [m], sem_identifier = 1, sem_replies = []\<rparr> = None" by (rule f [of m]) (simp_all add: m_def)
  then show ?thesis using y unfolding m_def by blast
qed

end
