(* ===== verification/Spec2Isabelle.thy ===== *)
theory Spec2Isabelle
  imports Timers Kernel_Calls_Facts Lib_Kstrtox Ds_Store Ipc_Sem
begin

text \<open>
  Nucleos is a microkernel operating system derived from Minix. The kernel (\<^verbatim>\<open>kernel/\<close>, \<^verbatim>\<open>arch/x86/\<close>) schedules processes, passes
  messages, handles interrupts and runs two tasks: the clock task and the system task, which serves kernel calls. Everything else is a process that
  talks to the others by messages: servers (\<^verbatim>\<open>servers/\<close>), drivers (\<^verbatim>\<open>drivers/\<close>) and programs, which share the libraries of \<^verbatim>\<open>lib/\<close>.
  This development models the kernel without its architecture layer, two servers, and libraries for timers, grants, strings and numerals.

  \<^bold>\<open>How the code is modelled.\<close> An operation of the kernel takes a state (\<open>kstate\<close> of \<^verbatim>\<open>Kernel_State\<close>) and returns the C result with the new state, as an
  option: \<^term>\<open>None\<close> is a panic, a wild memory access or a loop that does not end. A pointer into a table is an index, the null pointer is \<^term>\<open>None\<close>. C integers are
  integers with the wrap-around written out, or words where bits or overflow matter. Flag words are words of the width of the C field. A loop that need not end is a partial function
  with an optional result, so that a theorem that it returns says so explicitly; no fuel is used. Table sizes are those of \<^verbatim>\<open>arch/x86/configs/i386_defconfig\<close>.

  \<^bold>\<open>Foundations.\<close> \<^verbatim>\<open>Nucleos_Prelude\<close>: C arithmetic and flags. \<^verbatim>\<open>Ptr_List\<close>: linked lists threaded through tables and the pointer-to-pointer idiom, as a locale that is interpreted for
  the ready queues, the queues of callers, the timers and the interrupt hooks.

  \<^bold>\<open>Timers\<close> (\<^verbatim>\<open>lib/timers\<close>): setting and clearing keep the queue sorted and change exactly the timer concerned.

  \<^bold>\<open>Scheduling\<close> (\<^verbatim>\<open>Kernel_State\<close>, \<^verbatim>\<open>Kernel_Sched\<close>; \<^verbatim>\<open>kernel/proc.c\<close>, \<^verbatim>\<open>include/kernel/proc.h\<close>): each ready queue holds exactly the runnable processes of its priority, every operation
  keeps this, and the scheduler picks from the best queue.

  \<^bold>\<open>Communication\<close> (\<^verbatim>\<open>Ipc_View\<close>, \<^verbatim>\<open>Kernel_Ipc\<close>, \<^verbatim>\<open>Kernel_Inv\<close>, \<^verbatim>\<open>Kernel_Ipc_Spec\<close>, \<^verbatim>\<open>Kernel_Ipc_Props\<close>; \<^verbatim>\<open>kernel/proc.c\<close>): \<^verbatim>\<open>Ipc_View\<close> is the abstract contract, who waits for whom, which the
  routines refine. The system call gate returns and keeps the kernel invariant; the search for deadlocks ends and is exact; senders are served first come, first served. Two theorems show faults:
  a process that waits for itself makes the search run forever, and a notification can be missed.

  \<^bold>\<open>Clock and interrupts\<close> (\<^verbatim>\<open>Kernel_Clock\<close>, \<^verbatim>\<open>Kernel_Clock_Props\<close>, \<^verbatim>\<open>Kernel_Irq\<close>; \<^verbatim>\<open>kernel/clock.c\<close>, \<^verbatim>\<open>kernel/interrupt.c\<close>, \<^verbatim>\<open>kernel/system/do_irqctl.c\<close>): interrupts keep the
  invariant, quanta are enforced, expired watchdogs are run; and two faults in removing interrupt policies.

  \<^bold>\<open>Kernel calls\<close> (\<^verbatim>\<open>Kernel_System\<close>, \<^verbatim>\<open>Kernel_Calls\<close>, \<^verbatim>\<open>Kernel_Calls_Props\<close>, \<^verbatim>\<open>Kernel_Exit\<close>, \<^verbatim>\<open>Kernel_Fork\<close>, \<^verbatim>\<open>Kernel_Calls_Safe\<close>, \<^verbatim>\<open>Kernel_Calls_Facts\<close>; \<^verbatim>\<open>kernel/system.c\<close>,
  \<^verbatim>\<open>kernel/system/\<close>): serving a request keeps the invariant, denied calls have no effect, fork makes a process with a fresh endpoint, exit gives everything back.

  \<^bold>\<open>Memory grants\<close> (\<^verbatim>\<open>Kernel_Grants\<close>; \<^verbatim>\<open>kernel/system/do_safecopy.c\<close>, \<^verbatim>\<open>lib/syslib/safecopies.c\<close>): the check of a grant is exact, and every copy was authorised by the owner of the memory. The
  walk along indirect grants is bounded by the limit of the source, five.

  \<^bold>\<open>Libraries\<close> (\<^verbatim>\<open>Lib_String\<close>, \<^verbatim>\<open>Lib_Kstrtox\<close>; \<^verbatim>\<open>lib/string.c\<close>, \<^verbatim>\<open>lib/ctype.c\<close>, \<^verbatim>\<open>lib/kstrtox.c\<close>): memory is a function from addresses to bytes. \<^verbatim>\<open>memmove\<close> is correct under overlap, \<^verbatim>\<open>strstr\<close>
  finds the first occurrence, and the conversion of numerals is exact, except that a negative zero is refused. Addresses do not wrap around. The generic C versions are modelled; on x86 the header \<^verbatim>\<open>asm/string_32.h\<close> replaces some of
  them by assembly.

  \<^bold>\<open>Data store\<close> (\<^verbatim>\<open>Ds_Store\<close>; \<^verbatim>\<open>servers/ds/store.c\<close>, \<^verbatim>\<open>main.c\<close>): the table refines a map from names and types to values, and subscribers learn of published values. Copies between processes and the regular expression
  library are arguments.

  \<^bold>\<open>Semaphores\<close> (\<^verbatim>\<open>Ipc_Sem\<close>; \<^verbatim>\<open>servers/ipc/sem.c\<close>, \<^verbatim>\<open>utility.c\<close>): processes are woken first come, first served; and a fault, by which waking the last process that waits for zero makes the server move
  memory wildly. The counters of waiting processes have 16 bits; the number of processes is far below that.

  \<^bold>\<open>Not modelled.\<close> The architecture layer (boot, paging, context switch, assembly) and with it the entry point of the scheduler; kernel calls that copy memory, access ports or registers, or report tables; kernel start-up, debugging
  and profiling; drivers, which are almost entirely access to device registers; the file, network, process, memory, reincarnation, information and init servers; shared memory; the message loop of the IPC server; the remaining libraries and the build tools. The first group depends on hardware that has no description in the sources; the servers left out are large programs of their own, which rely on
  the kernel through the interfaces modelled here.
\<close>

end
